(* ===== verification/Prelude.thy ===== *)
theory Prelude
  imports Main "HOL-Library.Word"
begin

unbundle bit_operations_syntax

text \<open>
  Shared vocabulary of the development: machine integers and byte strings, the
  result type of fallible Rust code, the fragments of Rust's string library the
  sources use (splitting, decimal parsing and printing, UTF-8 validation), and
  the lemmas on them that the component theories rely on.
\<close>

section \<open>Machine integers\<close>

type_synonym byte = "8 word"
type_synonym u16 = "16 word"
type_synonym u32 = "32 word"
type_synonym u64 = "64 word"
type_synonym bytes = "byte list"

text \<open>Big-endian and little-endian views, as \<open>to_be_bytes\<close> / \<open>from_be_bytes\<close> give them.\<close>

definition u16_to_be :: "u16 \<Rightarrow> bytes" where
  "u16_to_be w = [ucast (drop_bit 8 w), ucast w]"

definition u16_from_be :: "byte \<Rightarrow> byte \<Rightarrow> u16" where
  "u16_from_be a b = push_bit 8 (ucast a) OR ucast b"

definition u32_to_be :: "u32 \<Rightarrow> bytes" where
  "u32_to_be w = [ucast (drop_bit 24 w), ucast (drop_bit 16 w), ucast (drop_bit 8 w), ucast w]"

definition u32_from_be :: "byte \<Rightarrow> byte \<Rightarrow> byte \<Rightarrow> byte \<Rightarrow> u32" where
  "u32_from_be a b c d =
     push_bit 24 (ucast a) OR push_bit 16 (ucast b) OR push_bit 8 (ucast c) OR ucast d"

definition u64_to_be :: "u64 \<Rightarrow> bytes" where
  "u64_to_be w = map (\<lambda>k. ucast (drop_bit k w)) [56, 48, 40, 32, 24, 16, 8, 0]"

definition u16_from_le :: "byte \<Rightarrow> byte \<Rightarrow> u16" where
  "u16_from_le a b = u16_from_be b a"

definition u16_to_le :: "u16 \<Rightarrow> bytes" where
  "u16_to_le w = [ucast w, ucast (drop_bit 8 w)]"

lemma u16_be_roundtrip: "u16_from_be (ucast (drop_bit 8 w)) (ucast w) = w"
  unfolding u16_from_be_def
  by (rule bit_word_eqI) (auto simp: bit_simps)

lemma u32_be_roundtrip:
  "u32_from_be (ucast (drop_bit 24 w)) (ucast (drop_bit 16 w)) (ucast (drop_bit 8 w)) (ucast w) = w"
proof (rule bit_word_eqI)
  fix n assume "n < LENGTH(32)"
  then show "bit (u32_from_be (ucast (drop_bit 24 w)) (ucast (drop_bit 16 w))
      (ucast (drop_bit 8 w)) (ucast w)) n = bit w n"
    unfolding u32_from_be_def
    by (cases "n < 16"; cases "n < 24") (auto simp: bit_simps)
qed

lemma u16_from_be_inv:
  "ucast (drop_bit 8 (u16_from_be a b)) = a" "ucast (u16_from_be a b) = b"
  unfolding u16_from_be_def
  by (rule bit_word_eqI, auto simp: bit_simps dest: bit_imp_le_length)+

lemma bit_less_exp: "unat w < 2 ^ m \<Longrightarrow> bit w n \<Longrightarrow> n < m"
  using take_bit_nat_eq_self [of "unat w" m]
  by (metis bit_take_bit_iff bit_unsigned_iff bit_imp_le_length possible_bit_nat)

section \<open>Fallible code\<close>

text \<open>
  A Rust \<open>Result\<close> is a sum whose left side says how the code failed: an error value
  returned with \<open>Err\<close> or \<open>?\<close>, a panic, or (for models that bound recursion depth
  by fuel) running out of that bound.
\<close>

datatype 'e fail = Err 'e | Panic | Diverge

type_synonym ('a, 'e) result = "'e fail + 'a"

abbreviation Throw :: "'e \<Rightarrow> ('a, 'e) result" where
  "Throw e \<equiv> Inl (Err e)"

definition rbind :: "('a, 'e) result \<Rightarrow> ('a \<Rightarrow> ('b, 'e) result) \<Rightarrow> ('b, 'e) result" where
  "rbind m f = (case m of Inl e \<Rightarrow> Inl e | Inr x \<Rightarrow> f x)"

definition rmap :: "('a \<Rightarrow> 'b) \<Rightarrow> ('a, 'e) result \<Rightarrow> ('b, 'e) result" where
  "rmap f m = rbind m (\<lambda>x. Inr (f x))"

definition ok_or :: "'a option \<Rightarrow> 'e \<Rightarrow> ('a, 'e) result" where
  "ok_or x e = (case x of None \<Rightarrow> Throw e | Some y \<Rightarrow> Inr y)"

lemma rbind_simps [simp]: "rbind (Inl e) f = Inl e" "rbind (Inr x) f = f x"
  by (simp_all add: rbind_def)

lemma rmap_simps [simp]: "rmap f (Inl e) = Inl e" "rmap f (Inr x) = Inr (f x)"
  by (simp_all add: rmap_def)

lemma ok_or_simps [simp]: "ok_or None e = Throw e" "ok_or (Some y) e = Inr y"
  by (simp_all add: ok_or_def)

lemma rbind_eq_Inr: "rbind m f = Inr y \<longleftrightarrow> (\<exists>x. m = Inr x \<and> f x = Inr y)"
  by (cases m) auto

lemma rmap_eq_Inr: "rmap f m = Inr y \<longleftrightarrow> (\<exists>x. m = Inr x \<and> y = f x)"
  by (cases m) auto

lemma ok_or_eq_Inr [simp]: "ok_or x e = Inr y \<longleftrightarrow> x = Some y"
  by (cases x) auto

lemma rbind_eq_Inl:
  "rbind m f = Inl e \<longleftrightarrow> m = Inl e \<or> (\<exists>x. m = Inr x \<and> f x = Inl e)"
  by (cases m) auto

lemma rmap_eq_Inl [simp]: "rmap f m = Inl e \<longleftrightarrow> m = Inl e"
  by (cases m) auto

lemma rbind_assoc: "rbind (rbind m f) g = rbind m (\<lambda>x. rbind (f x) g)"
  by (cases m) auto

lemma rbind_cong [fundef_cong]:
  "m = m' \<Longrightarrow> (\<And>x. m' = Inr x \<Longrightarrow> f x = g x) \<Longrightarrow> rbind m f = rbind m' g"
  by (cases m') auto

lemmas result_eq = rbind_eq_Inr rmap_eq_Inr rbind_eq_Inl

section \<open>Rust strings\<close>

text \<open>
  A \<open>str\<close> is its UTF-8 bytes: a HOL \<open>string\<close> whose characters are those bytes.
  \<open>str_ok\<close> is the invariant of the Rust type.
\<close>

definition byte_of_char :: "char \<Rightarrow> byte" where
  "byte_of_char c = of_nat (of_char c)"

definition char_of_byte :: "byte \<Rightarrow> char" where
  "char_of_byte b = char_of (unat b)"

lemma unat_byte_of_char [simp]: "unat (byte_of_char c) = of_char c"
  unfolding byte_of_char_def by (simp add: unat_of_nat)

lemma char_of_byte_of_char [simp]: "char_of_byte (byte_of_char c) = c"
  by (simp add: char_of_byte_def)

lemma unat_byte_lt [simp]: "unat (b :: byte) < 256"
  using unsigned_less [of b] by simp

lemma byte_of_char_of_byte [simp]: "byte_of_char (char_of_byte b) = b"
  by (simp add: byte_of_char_def char_of_byte_def)

lemma byte_of_char_eq_iff [simp]: "byte_of_char c = byte_of_char d \<longleftrightarrow> c = d"
  by (metis char_of_byte_of_char)

definition as_bytes :: "string \<Rightarrow> bytes" where
  "as_bytes s = map byte_of_char s"

definition str_of_bytes :: "bytes \<Rightarrow> string" where
  "str_of_bytes bs = map char_of_byte bs"

lemma str_of_as_bytes [simp]: "str_of_bytes (as_bytes s) = s"
  by (simp add: str_of_bytes_def as_bytes_def o_def)

lemma as_bytes_str_of [simp]: "as_bytes (str_of_bytes bs) = bs"
  by (simp add: str_of_bytes_def as_bytes_def o_def)

lemma as_bytes_simps [simp]:
  "as_bytes [] = []" "as_bytes (c # s) = byte_of_char c # as_bytes s"
  "as_bytes (s @ t) = as_bytes s @ as_bytes t"
  by (simp_all add: as_bytes_def)

lemma length_as_bytes [simp]: "length (as_bytes s) = length s"
  by (simp add: as_bytes_def)

lemma as_bytes_eq_iff [simp]: "as_bytes s = as_bytes t \<longleftrightarrow> s = t"
  by (metis str_of_as_bytes)

text \<open>\<open>core::str::from_utf8\<close>: the well-formed byte sequences of the Unicode standard.\<close>

definition utf8_cont :: "byte \<Rightarrow> bool" where
  "utf8_cont b \<longleftrightarrow> 128 \<le> unat b \<and> unat b < 192"

definition utf8_second :: "nat \<Rightarrow> byte \<Rightarrow> bool" where
  \<comment> \<open>the second byte allowed after a lead byte \<open>n\<close>: no overlong forms, no surrogates\<close>
  "utf8_second n c \<longleftrightarrow> utf8_cont c
     \<and> (n = 224 \<longrightarrow> 160 \<le> unat c) \<and> (n = 237 \<longrightarrow> unat c < 160)
     \<and> (n = 240 \<longrightarrow> 144 \<le> unat c) \<and> (n = 244 \<longrightarrow> unat c < 144)"

definition utf8_width :: "nat \<Rightarrow> nat" where
  \<comment> \<open>the number of bytes of a character by its lead byte, 0 for no lead byte\<close>
  "utf8_width n = (if n < 128 then 1 else if n < 194 then 0 else if n < 224 then 2
     else if n < 240 then 3 else if n < 245 then 4 else 0)"

definition utf8_next :: "bytes \<Rightarrow> bytes option" where
  \<comment> \<open>the bytes after the first character, \<open>None\<close> if there is no well-formed one\<close>
  "utf8_next bs = (case bs of [] \<Rightarrow> None | b # r \<Rightarrow>
     (let w = utf8_width (unat b); cs = take (w - 1) r
      in if w = 0 \<or> length cs < w - 1 then None
         else if \<forall>c \<in> set cs. utf8_cont c then
           (if cs = [] \<or> utf8_second (unat b) (hd cs) then Some (drop (w - 1) r) else None)
         else None))"

lemma utf8_next_length: "utf8_next bs = Some r \<Longrightarrow> length r < length bs"
  by (auto simp: utf8_next_def Let_def split: list.splits if_splits)

function utf8_valid :: "bytes \<Rightarrow> bool" where
  "utf8_valid bs \<longleftrightarrow>
     (if bs = [] then True else case utf8_next bs of None \<Rightarrow> False | Some r \<Rightarrow> utf8_valid r)"
  by pat_completeness auto
termination
  by (relation "measure length") (auto dest: utf8_next_length)

declare utf8_valid.simps [simp del]

lemma utf8_valid_Nil [simp]: "utf8_valid []"
  by (simp add: utf8_valid.simps)

lemma utf8_valid_Cons_ascii [simp]: "unat b < 128 \<Longrightarrow> utf8_valid (b # bs) = utf8_valid bs"
  by (subst utf8_valid.simps) (simp add: utf8_next_def utf8_width_def)

lemma utf8_next_append: "utf8_next xs = Some r \<Longrightarrow> utf8_next (xs @ ys) = Some (r @ ys)"
  by (auto simp: utf8_next_def Let_def split: list.splits if_splits)

definition from_utf8 :: "bytes \<Rightarrow> string option" where
  "from_utf8 bs = (if utf8_valid bs then Some (str_of_bytes bs) else None)"

definition str_ok :: "string \<Rightarrow> bool" where
  "str_ok s \<longleftrightarrow> utf8_valid (as_bytes s)"

lemma from_utf8_as_bytes [simp]: "str_ok s \<Longrightarrow> from_utf8 (as_bytes s) = Some s"
  by (simp add: from_utf8_def str_ok_def)

lemma from_utf8_SomeD: "from_utf8 bs = Some s \<Longrightarrow> str_ok s \<and> as_bytes s = bs"
  by (auto simp: from_utf8_def str_ok_def split: if_splits)

lemma utf8_valid_ascii: "\<forall>b \<in> set bs. unat b < 128 \<Longrightarrow> utf8_valid bs"
  by (induction bs) auto

lemma utf8_cont_not_ascii: "unat b < 128 \<Longrightarrow> \<not> utf8_cont b"
  by (simp add: utf8_cont_def)

text \<open>An ASCII byte is never inside a multi-byte sequence, so it separates valid strings.\<close>

lemma utf8_next_ascii_None:
  assumes "unat a < 128" and "utf8_next xs = None" and "xs \<noteq> []"
  shows "utf8_next (xs @ a # ys) = None"
proof -
  have na: "\<not> utf8_cont a"
    using assms(1) by (rule utf8_cont_not_ascii)
  obtain b bs where xs: "xs = b # bs"
    using assms(3) by (cases xs) auto
  define w where "w = utf8_width (unat b)"
  show ?thesis
  proof (cases "length bs < w - 1")
    case True
    then have "a \<in> set (take (w - 1) (bs @ a # ys))"
      by (auto simp: take_Cons')
    with na show ?thesis
      by (auto simp: utf8_next_def xs w_def [symmetric] Let_def)
  next
    case False
    with assms(2) show ?thesis
      by (auto simp: utf8_next_def xs w_def [symmetric] Let_def split: if_splits)
  qed
qed

lemma utf8_valid_append: "utf8_valid xs \<Longrightarrow> utf8_valid (xs @ ys) \<longleftrightarrow> utf8_valid ys"
proof (induction xs rule: utf8_valid.induct)
  case (1 bs)
  show ?case
  proof (cases "bs = []")
    case False
    with "1.prems" obtain r where r: "utf8_next bs = Some r" "utf8_valid r"
      by (subst (asm) utf8_valid.simps) (auto split: option.splits)
    with False "1.IH" have "utf8_valid (r @ ys) \<longleftrightarrow> utf8_valid ys" by simp
    with False r show ?thesis
      by (simp add: utf8_valid.simps [of "bs @ ys"] utf8_next_append)
  qed simp
qed

lemma utf8_valid_split_ascii:
  assumes "unat a < 128"
  shows "utf8_valid (xs @ a # ys) \<longleftrightarrow> utf8_valid xs \<and> utf8_valid ys"
proof (induction xs rule: utf8_valid.induct)
  case (1 bs)
  show ?case
  proof (cases "bs = []")
    case True
    with assms show ?thesis by simp
  next
    case False
    show ?thesis
    proof (cases "utf8_next bs")
      case None
      then have "utf8_next (bs @ a # ys) = None"
        using False assms by (simp add: utf8_next_ascii_None)
      with None False show ?thesis
        using utf8_valid.simps [of bs] utf8_valid.simps [of "bs @ a # ys"] by auto
    next
      case (Some r)
      then have "utf8_next (bs @ a # ys) = Some (r @ a # ys)"
        by (rule utf8_next_append)
      with Some False "1.IH" [OF False Some] show ?thesis
        using utf8_valid.simps [of bs] utf8_valid.simps [of "bs @ a # ys"] by auto
    qed
  qed
qed

lemma str_ok_split_ascii:
  "(of_char c :: nat) < 128 \<Longrightarrow> str_ok (s @ c # t) \<longleftrightarrow> str_ok s \<and> str_ok t"
  by (simp add: str_ok_def utf8_valid_split_ascii)

lemma str_ok_ascii: "\<forall>c \<in> set s. (of_char c :: nat) < 128 \<Longrightarrow> str_ok s"
  by (simp add: str_ok_def as_bytes_def utf8_valid_ascii)

lemma str_ok_Nil [simp]: "str_ok []"
  by (simp add: str_ok_def)

lemma str_ok_append: "str_ok s \<Longrightarrow> str_ok t \<Longrightarrow> str_ok (s @ t)"
  by (simp add: str_ok_def utf8_valid_append)

text \<open>\<open>str::split_once\<close> and \<open>str::rsplit_once\<close> with a one-byte separator.\<close>

fun split_once :: "char \<Rightarrow> string \<Rightarrow> (string \<times> string) option" where
  "split_once c [] = None"
| "split_once c (x # xs) =
     (if x = c then Some ([], xs) else map_option (\<lambda>(a, b). (x # a, b)) (split_once c xs))"

definition rsplit_once :: "char \<Rightarrow> string \<Rightarrow> (string \<times> string) option" where
  "rsplit_once c s = map_option (\<lambda>(a, b). (rev b, rev a)) (split_once c (rev s))"

lemma split_once_None_iff: "split_once c s = None \<longleftrightarrow> c \<notin> set s"
  by (induction s) auto

lemma split_once_None [simp]: "c \<notin> set s \<Longrightarrow> split_once c s = None"
  by (simp add: split_once_None_iff)

lemma split_once_Some: "split_once c s = Some (a, b) \<longleftrightarrow> s = a @ c # b \<and> c \<notin> set a"
proof (induction s arbitrary: a)
  case (Cons x s)
  then show ?case by (cases a) auto
qed simp

lemma split_once_append [simp]: "c \<notin> set a \<Longrightarrow> split_once c (a @ c # b) = Some (a, b)"
  by (simp add: split_once_Some)

lemma rsplit_once_None_iff: "rsplit_once c s = None \<longleftrightarrow> c \<notin> set s"
  by (simp add: rsplit_once_def split_once_None_iff)

lemma rsplit_once_None [simp]: "c \<notin> set s \<Longrightarrow> rsplit_once c s = None"
  by (simp add: rsplit_once_None_iff)

lemma rsplit_once_Some: "rsplit_once c s = Some (a, b) \<longleftrightarrow> s = a @ c # b \<and> c \<notin> set b"
proof -
  have "rsplit_once c s = Some (a, b) \<longleftrightarrow> split_once c (rev s) = Some (rev b, rev a)"
    by (force simp: rsplit_once_def)
  also have "\<dots> \<longleftrightarrow> s = a @ c # b \<and> c \<notin> set b"
    by (simp add: split_once_Some rev_swap)
  finally show ?thesis .
qed

lemma rsplit_once_append [simp]: "c \<notin> set b \<Longrightarrow> rsplit_once c (a @ c # b) = Some (a, b)"
  by (simp add: rsplit_once_Some)

section \<open>Decimal numbers\<close>

definition is_digit :: "char \<Rightarrow> bool" where
  "is_digit c \<longleftrightarrow> 48 \<le> (of_char c :: nat) \<and> (of_char c :: nat) \<le> 57"

definition digit_val :: "char \<Rightarrow> nat" where
  "digit_val c = of_char c - 48"

definition digit_char :: "nat \<Rightarrow> char" where
  "digit_char n = char_of (48 + n)"

fun parse_digits :: "nat \<Rightarrow> string \<Rightarrow> nat option" where
  "parse_digits acc [] = Some acc"
| "parse_digits acc (c # cs) =
     (if is_digit c then parse_digits (10 * acc + digit_val c) cs else None)"

text \<open>
  \<open>str::parse\<close> at an unsigned type with largest value \<open>lim\<close>: an optional plus sign, then
  at least one digit and nothing else; a value above \<open>lim\<close> is an error.
\<close>

definition parse_uint :: "nat \<Rightarrow> string \<Rightarrow> nat option" where
  "parse_uint lim s =
     (let ds = (if s \<noteq> [] \<and> hd s = CHR ''+'' then tl s else s)
      in if ds = [] then None
         else case parse_digits 0 ds of
                None \<Rightarrow> None
              | Some n \<Rightarrow> if n \<le> lim then Some n else None)"

definition parse_u16 :: "string \<Rightarrow> u16 option" where
  "parse_u16 s = map_option of_nat (parse_uint 65535 s)"

text \<open>\<open>str::parse::<i64>\<close>: an optional sign, digits, and the range of 64-bit integers.\<close>

definition parse_i64 :: "string \<Rightarrow> int option" where
  "parse_i64 s =
     (if s \<noteq> [] \<and> hd s = CHR ''-'' then
        (if tl s = [] then None
         else case parse_digits 0 (tl s) of
                None \<Rightarrow> None
              | Some n \<Rightarrow> if n \<le> 2 ^ 63 then Some (- int n) else None)
      else map_option int (parse_uint (2 ^ 63 - 1) s))"

fun show_nat :: "nat \<Rightarrow> string" where
  "show_nat n = (if n < 10 then [digit_char n] else show_nat (n div 10) @ [digit_char (n mod 10)])"

declare show_nat.simps [simp del]

lemma digit_char_simps [simp]:
  assumes "n < 10"
  shows "is_digit (digit_char n)" "digit_val (digit_char n) = n"
  using assms by (simp_all add: is_digit_def digit_val_def digit_char_def)

lemma parse_digits_append:
  "parse_digits acc (xs @ ys) =
     (case parse_digits acc xs of None \<Rightarrow> None | Some n \<Rightarrow> parse_digits n ys)"
  by (induction xs arbitrary: acc) auto

lemma parse_digits_show: "parse_digits 0 (show_nat n) = Some n"
proof (induction n rule: show_nat.induct)
  case (1 n)
  show ?case
  proof (cases "n < 10")
    case True
    then show ?thesis by (subst show_nat.simps) simp
  next
    case False
    with "1.IH" have "parse_digits 0 (show_nat (n div 10)) = Some (n div 10)" by simp
    with False show ?thesis
      by (subst show_nat.simps) (simp add: parse_digits_append)
  qed
qed

lemma show_nat_not_Nil [simp]: "show_nat n \<noteq> []"
  by (subst show_nat.simps) simp

lemma show_nat_digits: "\<forall>c \<in> set (show_nat n). is_digit c"
proof (induction n rule: show_nat.induct)
  case (1 n)
  then show ?case
    by (subst show_nat.simps) auto
qed

lemma is_digit_neq:
  "\<not> is_digit CHR ''+''" "\<not> is_digit CHR ''-''" "\<not> is_digit CHR ''@''" "\<not> is_digit CHR '':''"
  "\<not> is_digit CHR ''.''" "\<not> is_digit CHR ''_''"
  by (simp_all add: is_digit_def)

lemma show_nat_not_in [simp]: "\<not> is_digit c \<Longrightarrow> c \<notin> set (show_nat n)"
  using show_nat_digits by blast

lemma parse_uint_show: "parse_uint lim (show_nat n) = (if n \<le> lim then Some n else None)"
proof -
  have "hd (show_nat n) \<noteq> CHR ''+''"
    using show_nat_digits [of n] is_digit_neq(1) list.set_sel(1) [OF show_nat_not_Nil [of n]] by metis
  then show ?thesis
    by (simp add: parse_uint_def parse_digits_show)
qed

definition show_word :: "'a::len word \<Rightarrow> string" where
  "show_word w = show_nat (unat w)"

lemma parse_u16_show [simp]: "parse_u16 (show_word (w :: u16)) = Some w"
proof -
  have "unat w < 65536"
    using unsigned_less [of w, where ?'a = nat] by simp
  then show ?thesis
    by (simp add: parse_u16_def show_word_def parse_uint_show)
qed

lemma parse_digits_is_digit: "parse_digits a t = Some m \<Longrightarrow> \<forall>c \<in> set t. is_digit c"
  by (induction t arbitrary: a) (auto split: if_splits)

lemma parse_uint_SomeD:
  assumes "parse_uint lim s = Some n"
  shows "s \<noteq> []" and "\<forall>c \<in> set s. is_digit c \<or> c = CHR ''+''" and "n \<le> lim"
proof -
  define ds where "ds = (if s \<noteq> [] \<and> hd s = CHR ''+'' then tl s else s)"
  from assms have ds: "ds \<noteq> []" "parse_digits 0 ds = Some n" and lim: "n \<le> lim"
    by (auto simp: parse_uint_def ds_def [symmetric] split: if_splits option.splits)
  then show "s \<noteq> []" "n \<le> lim"
    by (auto simp: ds_def)
  have dig: "\<forall>c \<in> set ds. is_digit c"
    using ds(2) by (rule parse_digits_is_digit)
  have "set s \<subseteq> insert (CHR ''+'') (set ds)"
    by (cases s) (auto simp: ds_def)
  then show "\<forall>c \<in> set s. is_digit c \<or> c = CHR ''+''"
    using dig by (metis insertE subsetD)
qed

lemma parse_u16_SomeD:
  assumes "parse_u16 s = Some n"
  shows "s \<noteq> []" and "\<forall>c \<in> set s. is_digit c \<or> c = CHR ''+''"
proof -
  from assms obtain m where "parse_uint 65535 s = Some m"
    by (auto simp: parse_u16_def)
  then show "s \<noteq> []" "\<forall>c \<in> set s. is_digit c \<or> c = CHR ''+''"
    by (rule parse_uint_SomeD)+
qed

text \<open>Evaluation of the text functions on literals.\<close>

lemmas text_eval = rsplit_once_def parse_u16_def parse_uint_def is_digit_def digit_val_def

section \<open>Key derivation\<close>

text \<open>HKDF-SHA256, a parameter of the components that derive keys: salt, key material, context and length.\<close>

type_synonym hkdf = "bytes option \<Rightarrow> bytes \<Rightarrow> bytes \<Rightarrow> nat \<Rightarrow> bytes option"

definition hkdf_expands :: "hkdf \<Rightarrow> bool" where
  \<comment> \<open>RFC 5869: up to 255 blocks of the hash's 32 bytes can be expanded, to the length asked for\<close>
  "hkdf_expands H \<longleftrightarrow> (\<forall>salt key info n. n \<le> 255 * 32 \<longrightarrow> (\<exists>okm. H salt key info n = Some okm \<and> length okm = n))"

lemma hkdf_expand:
  assumes "hkdf_expands H" "n \<le> 255 * 32"
  obtains okm where "H salt key info n = Some okm" "length okm = n"
  using assms unfolding hkdf_expands_def by blast

end
