(* ===== verification/Framing.thy ===== *)
theory Framing
  imports Prelude
begin

text \<open>
  Length-prefixed frames on the wire (\<^verbatim>\<open>warp_core/src/framing.rs\<close>) and the loop that takes
  every complete frame out of the buffer (\<^verbatim>\<open>src/client.rs\<close>, \<open>read_messages_loop\<close>).
\<close>

unbundle bit_operations_syntax

section \<open>Operations\<close>

definition FRAME_LENGTH_SIZE :: nat where
  "FRAME_LENGTH_SIZE = 3"

definition FRAME_MAX_SIZE :: nat where
  "FRAME_MAX_SIZE = push_bit 23 2"

datatype frame_error = FrameTooLarge nat

definition encode_frame_into :: "bytes \<Rightarrow> bytes option \<Rightarrow> bytes \<Rightarrow> (bytes, frame_error) result" where
  \<comment> \<open>the third argument is the content of the output buffer, which is cleared\<close>
  "encode_frame_into payload header out =
     (let payload_len = length payload in
      if payload_len \<ge> FRAME_MAX_SIZE then Throw (FrameTooLarge payload_len)
      else
        let out = [];
            out = (case header of Some h \<Rightarrow> out @ h | None \<Rightarrow> out);
            len_bytes = u32_to_be (of_nat payload_len)
        in Inr (out @ drop 1 len_bytes @ payload))"

definition encode_frame :: "bytes \<Rightarrow> bytes option \<Rightarrow> (bytes, frame_error) result" where
  "encode_frame payload header = encode_frame_into payload header []"

record frame_decoder =
  buffer :: bytes

definition frame_decoder_new :: frame_decoder where
  "frame_decoder_new = \<lparr>buffer = []\<rparr>"

definition feed :: "bytes \<Rightarrow> frame_decoder \<Rightarrow> frame_decoder" where
  "feed bs fd = fd\<lparr>buffer := buffer fd @ bs\<rparr>"

definition frame_len :: "bytes \<Rightarrow> nat" where
  "frame_len buf =
     unat (push_bit 16 (ucast (buf ! 0)) OR push_bit 8 (ucast (buf ! 1)) OR ucast (buf ! 2) :: u64)"

definition decode_frame :: "frame_decoder \<Rightarrow> bytes option \<times> frame_decoder" where
  "decode_frame fd =
     (if length (buffer fd) < FRAME_LENGTH_SIZE then (None, fd)
      else
        let len = frame_len (buffer fd) in
        if len > FRAME_MAX_SIZE
        then (None, fd\<lparr>buffer := drop FRAME_LENGTH_SIZE (buffer fd)\<rparr>)
        else if length (buffer fd) \<ge> FRAME_LENGTH_SIZE + len
        then
          let rest = drop FRAME_LENGTH_SIZE (buffer fd)
          in (Some (take len rest), fd\<lparr>buffer := drop len rest\<rparr>)
        else (None, fd))"

lemma decode_frame_shrinks:
  "decode_frame fd = (Some f, fd') \<Longrightarrow> length (buffer fd') < length (buffer fd)"
  by (auto simp: decode_frame_def FRAME_LENGTH_SIZE_def Let_def split: if_splits)

function drain :: "frame_decoder \<Rightarrow> bytes list \<times> frame_decoder" where
  "drain fd =
     (case decode_frame fd of
        (None, fd') \<Rightarrow> ([], fd')
      | (Some f, fd') \<Rightarrow> (let (fs, fd'') = drain fd' in (f # fs, fd'')))"
  by pat_completeness auto
termination
  by (relation "measure (\<lambda>fd. length (buffer fd))") (auto dest: decode_frame_shrinks [OF sym])

declare drain.simps [simp del]

fun receive :: "bytes list \<Rightarrow> frame_decoder \<Rightarrow> bytes list \<times> frame_decoder" where
  \<comment> \<open>data events in order, each fed and drained\<close>
  "receive [] fd = ([], fd)"
| "receive (chunk # chunks) fd =
     (let (fs, fd) = drain (feed chunk fd);
          (fs', fd) = receive chunks fd
      in (fs @ fs', fd))"

section \<open>Lengths\<close>

lemma frame_len_bound: "frame_len buf < 2 ^ 24"
proof -
  define w :: u64 where
    "w = push_bit 16 (ucast (buf ! 0)) OR push_bit 8 (ucast (buf ! 1)) OR ucast (buf ! 2)"
  have "take_bit 24 w = w"
    unfolding w_def by (rule bit_word_eqI) (auto simp: bit_simps dest: bit_imp_le_length)
  then have "take_bit 24 (unat w) = unat w"
    by (metis unsigned_take_bit_eq)
  then have "unat w < 2 ^ 24"
    using take_bit_nat_less_exp [of 24 "unat w"] by simp
  then show ?thesis by (simp add: frame_len_def w_def)
qed

lemma FRAME_MAX_SIZE_eq: "FRAME_MAX_SIZE = 2 ^ 24"
  by (simp add: FRAME_MAX_SIZE_def push_bit_eq_mult)

lemma frame_len_encode:
  assumes "n < FRAME_MAX_SIZE"
  shows "frame_len (drop 1 (u32_to_be (of_nat n)) @ r) = n"
proof -
  define v :: u32 where "v = of_nat n"
  have n: "unat v = n" "unat v < 2 ^ 24"
    using assms by (simp_all add: v_def FRAME_MAX_SIZE_eq unat_of_nat)
  have hi: "bit v i \<Longrightarrow> i < 24" for i
    using n(2) bit_less_exp [of v 24 i] by simp
  have "(push_bit 16 (ucast (ucast (drop_bit 16 v) :: byte)) OR push_bit 8 (ucast (ucast (drop_bit 8 v) :: byte))
      OR ucast (ucast v :: byte) :: u64) = ucast v"
  proof (rule bit_word_eqI)
    fix i assume "i < LENGTH(64)"
    then consider "i < 8" | "8 \<le> i" "i < 16" | "16 \<le> i" "i < 24" | "24 \<le> i"
      by linarith
    then show "bit (push_bit 16 (ucast (ucast (drop_bit 16 v) :: byte)) OR push_bit 8 (ucast (ucast (drop_bit 8 v) :: byte))
      OR ucast (ucast v :: byte) :: u64) i = bit (ucast v :: u64) i"
      by cases (auto simp: bit_simps dest: hi)
  qed
  then show ?thesis
    using n by (simp add: frame_len_def u32_to_be_def unsigned_ucast_eq v_def [symmetric] take_bit_nat_eq_self)
qed

section \<open>Frames of a stream\<close>

lemma decode_frame_alt:
  "decode_frame fd =
     (if length (buffer fd) \<ge> 3 \<and> length (buffer fd) \<ge> 3 + frame_len (buffer fd)
      then (Some (take (frame_len (buffer fd)) (drop 3 (buffer fd))),
            fd\<lparr>buffer := drop (3 + frame_len (buffer fd)) (buffer fd)\<rparr>)
      else (None, fd))"
  using frame_len_bound [of "buffer fd"]
  by (auto simp: decode_frame_def FRAME_LENGTH_SIZE_def FRAME_MAX_SIZE_eq Let_def add.commute)

lemma frame_len_append: "3 \<le> length b \<Longrightarrow> frame_len (b @ c) = frame_len b"
  by (auto simp: frame_len_def nth_append)

lemma decode_frame_feed:
  "decode_frame fd = (Some f, fd') \<Longrightarrow> decode_frame (feed c fd) = (Some f, feed c fd')"
  by (auto simp: decode_frame_alt feed_def frame_len_append split: if_splits)

lemma drain_feed:
  "drain (feed c fd) = (let (fs, fd1) = drain fd; (fs', fd2) = drain (feed c fd1) in (fs @ fs', fd2))"
proof (induction fd rule: drain.induct)
  case (1 fd)
  obtain mf fd1 where df: "decode_frame fd = (mf, fd1)" by (cases "decode_frame fd")
  show ?case
  proof (cases mf)
    case None
    then have "drain fd = ([], fd)"
      using df by (auto simp: drain.simps [of fd] decode_frame_alt split: if_splits)
    then show ?thesis by simp
  next
    case (Some f)
    then have "drain (feed c fd) = (let (fs, fd2) = drain (feed c fd1) in (f # fs, fd2))"
      using df decode_frame_feed [of fd f fd1 c] by (subst drain.simps) simp
    moreover have "drain fd = (let (fs, fd2) = drain fd1 in (f # fs, fd2))"
      using df Some by (subst drain.simps) simp
    ultimately show ?thesis
      using 1 [OF df [symmetric]] Some df by (auto split: prod.splits)
  qed
qed

lemma feed_feed: "feed b (feed a fd) = feed (a @ b) fd"
  by (simp add: feed_def)

lemma drain_quiet: "drain fd = (fs, fd') \<Longrightarrow> drain fd' = ([], fd')"
proof (induction fd arbitrary: fs rule: drain.induct)
  case (1 fd)
  obtain mf fd1 where df: "decode_frame fd = (mf, fd1)" by (cases "decode_frame fd")
  show ?case
  proof (cases mf)
    case None
    then have "fd1 = fd"
      using df by (auto simp: decode_frame_alt split: if_splits)
    then show ?thesis
      using 1(2) df None by (simp add: drain.simps)
  next
    case (Some f)
    then obtain fs' where "drain fd1 = (fs', fd')"
      using 1(2) df by (auto simp: drain.simps [of fd] split: prod.splits)
    then show ?thesis
      using 1(1) [OF df [symmetric] Some] by simp
  qed
qed

lemma receive_concat: "drain fd = ([], fd) \<Longrightarrow> receive chunks fd = drain (feed (concat chunks) fd)"
proof (induction chunks arbitrary: fd)
  case (Cons c cs)
  obtain fs fd1 where d: "drain (feed c fd) = (fs, fd1)" by (cases "drain (feed c fd)")
  then have "receive cs fd1 = drain (feed (concat cs) fd1)"
    by (intro Cons.IH) (rule drain_quiet)
  then show ?case
    using drain_feed [of "concat cs" "feed c fd"] d by (simp add: feed_feed)
qed (simp add: feed_def)

definition frame_of :: "bytes \<Rightarrow> bytes" where
  "frame_of p = drop 1 (u32_to_be (of_nat (length p))) @ p"

lemma encode_frame_of: "length p < FRAME_MAX_SIZE \<Longrightarrow> encode_frame p None = Inr (frame_of p)"
  by (simp add: encode_frame_def encode_frame_into_def frame_of_def Let_def)

lemma frame_of_parts: "frame_of p = a \<Longrightarrow> length a = 3 + length p \<and> drop 3 a = p"
  by (auto simp: frame_of_def u32_to_be_def)

lemma decode_frame_of:
  assumes "length p < FRAME_MAX_SIZE"
  shows "decode_frame \<lparr>buffer = frame_of p @ r\<rparr> = (Some p, \<lparr>buffer = r\<rparr>)"
  using frame_len_encode [OF assms, of "p @ r"]
  by (simp add: decode_frame_alt frame_of_def) (simp add: u32_to_be_def)

lemma drain_frames:
  "list_all (\<lambda>p. length p < FRAME_MAX_SIZE) ps \<Longrightarrow>
   drain \<lparr>buffer = concat (map frame_of ps)\<rparr> = (ps, \<lparr>buffer = []\<rparr>)"
proof (induction ps)
  case Nil
  show ?case by (subst drain.simps) (simp add: decode_frame_alt)
next
  case (Cons p ps)
  then show ?case by (subst drain.simps) (simp add: decode_frame_of)
qed

lemma drain_new: "drain frame_decoder_new = ([], frame_decoder_new)"
  by (subst drain.simps) (simp add: decode_frame_alt frame_decoder_new_def)

section \<open>Properties\<close>

text \<open>C17: Payloads below the size limit, framed one after the other and delivered in
  chunks cut at arbitrary places, are recovered in order, and nothing is left in the buffer.\<close>

theorem frames_any_chunking:
  assumes "list_all (\<lambda>p. length p < FRAME_MAX_SIZE) ps"
    and "concat chunks = concat (map (\<lambda>p. case encode_frame p None of Inr f \<Rightarrow> f | Inl _ \<Rightarrow> []) ps)"
  shows "receive chunks frame_decoder_new = (ps, frame_decoder_new)"
proof -
  have "concat chunks = concat (map frame_of ps)"
    unfolding assms(2) using assms(1)
    by (intro arg_cong [where f = concat] map_cong) (auto simp: list_all_iff encode_frame_of)
  then show ?thesis
    using receive_concat [OF drain_new, of chunks] drain_frames [OF assms(1)]
    by (simp add: feed_def frame_decoder_new_def)
qed

theorem frames_any_chunking_witness:
  "receive [[0, 0], [2, 7], [8, 0, 0, 0]] frame_decoder_new = ([[7, 8], []], frame_decoder_new)"
  by (rule frames_any_chunking)
     (simp_all add: FRAME_MAX_SIZE_eq encode_frame_of frame_of_def u32_to_be_def)

text \<open>C18: For every stream of bytes, valid or not, the frames that come out and what stays
  in the buffer depend only on the bytes received so far, not on how they were cut into chunks.\<close>

theorem chunking_irrelevant:
  assumes "concat chunks = concat chunks'"
  shows "receive chunks frame_decoder_new = receive chunks' frame_decoder_new"
  using assms by (simp add: receive_concat drain_new)

theorem chunking_irrelevant_witness:
  "receive [[0], [0, 5, 1]] frame_decoder_new = receive [[0, 0, 5], [1]] frame_decoder_new"
  by (rule chunking_irrelevant) simp

text \<open>Encoding fails exactly for payloads of at least \<open>FRAME_MAX_SIZE\<close> bytes, and a decoded
  length, which has three bytes, is always below that limit: decoding never drops a frame for its
  size.\<close>

theorem frame_limit:
  "(encode_frame_into p h out = Throw (FrameTooLarge (length p)) \<longleftrightarrow> FRAME_MAX_SIZE \<le> length p)
   \<and> \<not> frame_len (buffer fd) > FRAME_MAX_SIZE
   \<and> (decode_frame fd = (None, fd') \<longrightarrow> fd' = fd)"
  using frame_len_bound [of "buffer fd"]
  by (auto simp: encode_frame_into_def Let_def FRAME_MAX_SIZE_eq decode_frame_alt split: if_splits)

end
