(* ===== verification/Noise.thy ===== *)
theory Noise
  imports Framing
begin

text \<open>
  The Noise handshake (\<^verbatim>\<open>noise.rs\<close>, \<^verbatim>\<open>state.rs\<close>, \<^verbatim>\<open>utils.rs\<close> and
  \<^verbatim>\<open>edge_routing.rs\<close> of \<^verbatim>\<open>warp_core/src/handshake\<close>). The hash, the key derivation, the authenticated cipher, the key
  agreement and the protobuf codec belong to libraries and are the parameters \<open>noise_crypto\<close> and
  \<open>hello_codec\<close>. A failed handshake step abandons the handshake, so errors carry no state. The
  wording of error messages is not modelled.
\<close>

section \<open>Parameters\<close>

record 'k noise_crypto =
  sha256 :: "bytes \<Rightarrow> bytes"
  hkdf64 :: "bytes \<Rightarrow> bytes \<Rightarrow> bytes option"
  new_key :: "bytes \<Rightarrow> 'k option"
  seal :: "'k \<Rightarrow> bytes \<Rightarrow> bytes \<Rightarrow> bytes \<Rightarrow> bytes option"
  unseal :: "'k \<Rightarrow> bytes \<Rightarrow> bytes \<Rightarrow> bytes \<Rightarrow> bytes option"
  agreement :: "bytes \<Rightarrow> bytes \<Rightarrow> bytes option"

record server_hello =
  sh_ephemeral :: "bytes option"
  sh_static :: "bytes option"
  sh_payload :: "bytes option"

record noise_certificate =
  cert_details :: "bytes option"
  cert_signature :: "bytes option"

record certificate_details =
  cd_serial :: "u32 option"
  cd_issuer_serial :: "u32 option"
  cd_key :: "bytes option"

record hello_codec =
  decode_handshake :: "bytes \<Rightarrow> server_hello option option"
  decode_cert_chain :: "bytes \<Rightarrow> (noise_certificate option \<times> noise_certificate option) option"
  decode_details :: "bytes \<Rightarrow> certificate_details option"
  encode_client_hello :: "bytes \<Rightarrow> bytes"
  encode_client_finish :: "bytes \<Rightarrow> bytes \<Rightarrow> bytes"

section \<open>NoiseHandshake\<close>

definition map_err :: "'f \<Rightarrow> ('a, 'e) result \<Rightarrow> ('a, 'f) result" where
  \<comment> \<open>\<open>map_err\<close> to a fixed error\<close>
  "map_err f r = (case r of Inr x \<Rightarrow> Inr x | Inl (Err _) \<Rightarrow> Throw f | Inl Panic \<Rightarrow> Inl Panic | Inl Diverge \<Rightarrow> Inl Diverge)"

datatype handshake_error =
    ProtoDecode
  | IncompleteResponse
  | Crypto
  | CertVerification
  | InvalidLength nat nat
  | InvalidKeyLength

definition generate_iv :: "u32 \<Rightarrow> bytes" where
  "generate_iv c = replicate 8 0 @ u32_to_be c"

definition to_array :: "bytes \<Rightarrow> (bytes, handshake_error) result" where
  "to_array bs = (if length bs = 32 then Inr bs else Throw (InvalidLength 32 (length bs)))"

definition sha256_digest :: "'k noise_crypto \<Rightarrow> bytes \<Rightarrow> (bytes, handshake_error) result" where
  "sha256_digest C bs = to_array (sha256 C bs)"

record 'k noise_handshake =
  nh_hash :: bytes
  nh_salt :: bytes
  nh_key :: 'k
  nh_counter :: u32

definition authenticate :: "'k noise_crypto \<Rightarrow> bytes \<Rightarrow> 'k noise_handshake \<Rightarrow> ('k noise_handshake, handshake_error) result" where
  "authenticate C bs h = rmap (\<lambda>x. h\<lparr>nh_hash := x\<rparr>) (sha256_digest C (nh_hash h @ bs))"

definition noise_new :: "'k noise_crypto \<Rightarrow> bytes \<Rightarrow> bytes \<Rightarrow> ('k noise_handshake, handshake_error) result" where
  "noise_new C pattern header =
     rbind (if length pattern = 32 then to_array pattern else sha256_digest C pattern) (\<lambda>h.
       rbind (ok_or (new_key C h) Crypto) (\<lambda>k.
         authenticate C header \<lparr>nh_hash = h, nh_salt = h, nh_key = k, nh_counter = 0\<rparr>))"

definition post_increment_counter :: "'k noise_handshake \<Rightarrow> u32 \<times> 'k noise_handshake" where
  "post_increment_counter h = (nh_counter h, h\<lparr>nh_counter := nh_counter h + 1\<rparr>)"

definition noise_encrypt :: "'k noise_crypto \<Rightarrow> bytes \<Rightarrow> 'k noise_handshake \<Rightarrow> (bytes \<times> 'k noise_handshake, handshake_error) result" where
  "noise_encrypt C plaintext h =
     (let (c, h) = post_increment_counter h in
      rbind (ok_or (seal C (nh_key h) (generate_iv c) (nh_hash h) plaintext) Crypto) (\<lambda>ciphertext.
        rmap (\<lambda>h. (ciphertext, h)) (authenticate C ciphertext h)))"

definition noise_decrypt :: "'k noise_crypto \<Rightarrow> bytes \<Rightarrow> 'k noise_handshake \<Rightarrow> (bytes \<times> 'k noise_handshake, handshake_error) result" where
  "noise_decrypt C ciphertext h =
     (let aad = nh_hash h; (c, h) = post_increment_counter h in
      rbind (ok_or (unseal C (nh_key h) (generate_iv c) aad ciphertext) Crypto) (\<lambda>plaintext.
        rmap (\<lambda>h. (plaintext, h)) (authenticate C ciphertext h)))"

definition extract_and_expand :: "'k noise_crypto \<Rightarrow> bytes option \<Rightarrow> 'k noise_handshake \<Rightarrow> (bytes \<times> bytes, handshake_error) result" where
  "extract_and_expand C ikm h =
     rmap (\<lambda>okm. (take 32 okm, drop 32 okm))
       (ok_or (hkdf64 C (nh_salt h) (case ikm of Some d \<Rightarrow> d | None \<Rightarrow> [])) Crypto)"

definition mix_into_key :: "'k noise_crypto \<Rightarrow> bytes \<Rightarrow> 'k noise_handshake \<Rightarrow> ('k noise_handshake, handshake_error) result" where
  "mix_into_key C bs h =
     (let h = h\<lparr>nh_counter := 0\<rparr> in
      rbind (extract_and_expand C (Some bs) h) (\<lambda>(write, read).
        let h = h\<lparr>nh_salt := write\<rparr> in
        rmap (\<lambda>k. h\<lparr>nh_key := k\<rparr>) (ok_or (new_key C read) Crypto)))"

definition mix_shared_secret :: "'k noise_crypto \<Rightarrow> bytes \<Rightarrow> bytes \<Rightarrow> 'k noise_handshake \<Rightarrow> ('k noise_handshake, handshake_error) result" where
  "mix_shared_secret C priv pub h =
     rbind (ok_or (agreement C priv pub) Crypto) (\<lambda>secret. mix_into_key C secret h)"

definition noise_finish :: "'k noise_crypto \<Rightarrow> 'k noise_handshake \<Rightarrow> ('k \<times> 'k, handshake_error) result" where
  "noise_finish C h =
     rbind (extract_and_expand C None h) (\<lambda>(write_bytes, read_bytes).
       rbind (ok_or (new_key C write_bytes) Crypto) (\<lambda>write_key.
         rmap (\<lambda>read_key. (write_key, read_key)) (ok_or (new_key C read_bytes) Crypto)))"

section \<open>HandshakeUtils\<close>

definition parse_server_hello :: "hello_codec \<Rightarrow> bytes \<Rightarrow> (bytes \<times> bytes \<times> bytes, handshake_error) result" where
  "parse_server_hello P response =
     rbind (ok_or (decode_handshake P response) ProtoDecode) (\<lambda>hello.
       rbind (ok_or hello IncompleteResponse) (\<lambda>hello.
         rbind (ok_or (sh_ephemeral hello) IncompleteResponse) (\<lambda>ephemeral.
           rbind (ok_or (sh_static hello) IncompleteResponse) (\<lambda>static.
             rbind (ok_or (sh_payload hello) IncompleteResponse) (\<lambda>certificate.
               if length ephemeral \<noteq> 32 then Throw (InvalidLength 32 (length ephemeral))
               else Inr (ephemeral, static, certificate))))))"

definition or_zero :: "u32 option \<Rightarrow> u32" where
  \<comment> \<open>the generated accessor of an optional number\<close>
  "or_zero x = (case x of Some v \<Rightarrow> v | None \<Rightarrow> 0)"

definition or_empty :: "bytes option \<Rightarrow> bytes" where
  "or_empty x = (case x of Some v \<Rightarrow> v | None \<Rightarrow> [])"

definition WA_CERT_ISSUER_SERIAL :: int where
  "WA_CERT_ISSUER_SERIAL = 0"

definition verify_server_cert :: "hello_codec \<Rightarrow> bytes \<Rightarrow> bytes \<Rightarrow> (unit, handshake_error) result" where
  "verify_server_cert P cert_decrypted static_decrypted =
     rbind (ok_or (decode_cert_chain P cert_decrypted) ProtoDecode) (\<lambda>(leaf, intermediate).
       rbind (ok_or intermediate CertVerification) (\<lambda>intermediate.
         rbind (ok_or leaf CertVerification) (\<lambda>leaf.
           rbind (ok_or (cert_details intermediate) CertVerification) (\<lambda>intermediate_bytes.
             rbind (ok_or (decode_details P intermediate_bytes) ProtoDecode) (\<lambda>intermediate_details.
               if int (unat (or_zero (cd_issuer_serial intermediate_details))) \<noteq> WA_CERT_ISSUER_SERIAL
               then Throw CertVerification
               else if or_empty (cd_key intermediate_details) = [] then Throw CertVerification
               else if length (or_empty (cd_key intermediate_details)) \<noteq> 32 then Throw CertVerification
               else
                 rbind (ok_or (cert_details leaf) CertVerification) (\<lambda>leaf_bytes.
                   rbind (ok_or (decode_details P leaf_bytes) ProtoDecode) (\<lambda>leaf_details.
                     if or_zero (cd_issuer_serial leaf_details) \<noteq> or_zero (cd_serial intermediate_details)
                     then Throw CertVerification
                     else if or_empty (cd_key leaf_details) \<noteq> static_decrypted
                     then Throw CertVerification
                     else Inr ())))))))"

section \<open>HandshakeState\<close>

definition NOISE_START_PATTERN :: bytes where
  "NOISE_START_PATTERN = as_bytes ''Noise_XX_25519_AESGCM_SHA256'' @ [0, 0, 0, 0]"

definition WA_CONN_HEADER :: bytes where
  "WA_CONN_HEADER = as_bytes ''WA'' @ [6, 3]"

record 'k handshake_state =
  hs_noise :: "'k noise_handshake"
  hs_ephemeral :: "bytes \<times> bytes"
  hs_static :: "bytes \<times> bytes"
  hs_payload :: bytes

text \<open>Key pairs are (private, public); the fresh ephemeral pair and the client payload are arguments.\<close>

definition handshake_new :: "'k noise_crypto \<Rightarrow> bytes \<times> bytes \<Rightarrow> bytes \<times> bytes \<Rightarrow> bytes \<Rightarrow> ('k handshake_state, handshake_error) result" where
  "handshake_new C ephemeral static payload =
     rbind (map_err Crypto (noise_new C NOISE_START_PATTERN WA_CONN_HEADER)) (\<lambda>noise.
       rmap (\<lambda>noise. \<lparr>hs_noise = noise, hs_ephemeral = ephemeral, hs_static = static, hs_payload = payload\<rparr>)
         (authenticate C (snd ephemeral) noise))"

definition build_client_hello :: "hello_codec \<Rightarrow> 'k handshake_state \<Rightarrow> bytes" where
  "build_client_hello P hs = encode_client_hello P (snd (hs_ephemeral hs))"

definition read_server_hello_and_build_client_finish ::
    "'k noise_crypto \<Rightarrow> hello_codec \<Rightarrow> bytes \<Rightarrow> 'k handshake_state \<Rightarrow> (bytes \<times> 'k handshake_state, handshake_error) result" where
  "read_server_hello_and_build_client_finish C P response hs =
     rbind (map_err CertVerification (parse_server_hello P response))
       (\<lambda>(server_ephemeral, server_static_ciphertext, certificate_ciphertext).
     rbind (if length server_ephemeral = 32 then Inr server_ephemeral else Throw InvalidKeyLength)
       (\<lambda>server_ephemeral.
     rbind (authenticate C server_ephemeral (hs_noise hs)) (\<lambda>n.
     rbind (map_err Crypto (mix_shared_secret C (fst (hs_ephemeral hs)) server_ephemeral n)) (\<lambda>n.
     rbind (map_err Crypto (noise_decrypt C server_static_ciphertext n)) (\<lambda>(static_decrypted, n).
     rbind (if length static_decrypted = 32 then Inr static_decrypted else Throw InvalidKeyLength)
       (\<lambda>static_decrypted.
     rbind (map_err Crypto (mix_shared_secret C (fst (hs_ephemeral hs)) static_decrypted n)) (\<lambda>n.
     rbind (map_err Crypto (noise_decrypt C certificate_ciphertext n)) (\<lambda>(cert_decrypted, n).
     rbind (map_err CertVerification (verify_server_cert P cert_decrypted static_decrypted)) (\<lambda>_.
     rbind (map_err Crypto (noise_encrypt C (snd (hs_static hs)) n)) (\<lambda>(encrypted_pubkey, n).
     rbind (map_err Crypto (mix_shared_secret C (fst (hs_static hs)) server_ephemeral n)) (\<lambda>n.
     rbind (map_err Crypto (noise_encrypt C (hs_payload hs) n)) (\<lambda>(encrypted_payload, n).
       Inr (encode_client_finish P encrypted_pubkey encrypted_payload, hs\<lparr>hs_noise := n\<rparr>)))))))))))))"

definition handshake_finish :: "'k noise_crypto \<Rightarrow> 'k handshake_state \<Rightarrow> ('k \<times> 'k, handshake_error) result" where
  "handshake_finish C hs = map_err Crypto (noise_finish C (hs_noise hs))"

section \<open>Edge routing\<close>

definition MAX_EDGE_ROUTING_LEN :: nat where
  "MAX_EDGE_ROUTING_LEN = 0xFFFFFF"

definition build_edge_routing_preintro :: "bytes \<Rightarrow> bytes option" where
  \<comment> \<open>None stands for \<open>RoutingInfoTooLarge\<close>\<close>
  "build_edge_routing_preintro routing_info =
     (let len = length routing_info in
      if len > MAX_EDGE_ROUTING_LEN then None
      else Some (as_bytes ''ED'' @ [0, 1] @ [of_nat (drop_bit 16 len), of_nat (drop_bit 8 len), of_nat len]
                 @ routing_info))"

definition connection_header :: "bytes option \<Rightarrow> bytes" where
  "connection_header edge_routing_info =
     (case edge_routing_info of
        Some routing_info \<Rightarrow>
          if length routing_info > MAX_EDGE_ROUTING_LEN then WA_CONN_HEADER
          else (case build_edge_routing_preintro routing_info of
                  Some header \<Rightarrow> header @ WA_CONN_HEADER
                | None \<Rightarrow> WA_CONN_HEADER)
      | None \<Rightarrow> WA_CONN_HEADER)"

section \<open>What the cipher and the key agreement promise\<close>

definition aead_law :: "'k noise_crypto \<Rightarrow> bool" where
  "aead_law C \<longleftrightarrow> (\<forall>k iv aad m c. seal C k iv aad m = Some c \<longrightarrow> unseal C k iv aad c = Some m)"

definition crypto_total :: "'k noise_crypto \<Rightarrow> bool" where
  "crypto_total C \<longleftrightarrow> (\<forall>x. length (sha256 C x) = 32)
     \<and> (\<forall>salt ikm. \<exists>okm. hkdf64 C salt ikm = Some okm \<and> length okm = 64)
     \<and> (\<forall>k. length k = 32 \<longrightarrow> new_key C k \<noteq> None)
     \<and> (\<forall>k iv aad m. seal C k iv aad m \<noteq> None)"

lemma map_err_simps [simp]: "map_err f (Inr x) = Inr x"
  by (simp add: map_err_def)

lemma map_err_eq_Inr [simp]: "map_err f r = Inr x \<longleftrightarrow> r = Inr x"
  by (auto simp: map_err_def split: sum.splits fail.splits)

lemma encrypt_decrypt:
  assumes "aead_law C" and "noise_encrypt C m h = Inr (ct, h')"
  shows "noise_decrypt C ct h = Inr (m, h')"
  using assms
  by (auto simp: noise_encrypt_def noise_decrypt_def post_increment_counter_def aead_law_def
      rbind_eq_Inr rmap_eq_Inr)

lemma authenticate_total: "crypto_total C \<Longrightarrow> \<exists>h'. authenticate C x h = Inr h'"
  by (simp add: crypto_total_def authenticate_def sha256_digest_def to_array_def)

lemma encrypt_total:
  assumes "crypto_total C"
  shows "\<exists>ct h'. noise_encrypt C m h = Inr (ct, h')"
proof -
  obtain ct where ct: "seal C (nh_key h) (generate_iv (nh_counter h)) (nh_hash h) m = Some ct"
    using assms unfolding crypto_total_def by blast
  obtain h' where "authenticate C ct (h\<lparr>nh_counter := nh_counter h + 1\<rparr>) = Inr h'"
    using authenticate_total [OF assms] by blast
  with ct show ?thesis
    by (simp add: noise_encrypt_def post_increment_counter_def)
qed

lemma mix_total:
  assumes "crypto_total C" and "agreement C a B = Some x"
  shows "\<exists>h'. mix_shared_secret C a B h = Inr h'"
proof -
  obtain okm where okm: "hkdf64 C (nh_salt h) x = Some okm" "length okm = 64"
    using assms(1) unfolding crypto_total_def by blast
  obtain k where "new_key C (drop 32 okm) = Some k"
    using assms(1) okm(2) unfolding crypto_total_def by fastforce
  with okm assms(2) show ?thesis
    by (simp add: mix_shared_secret_def mix_into_key_def extract_and_expand_def)
qed

lemma mix_same: "agreement C a B = agreement C b A \<Longrightarrow> mix_shared_secret C a B h = mix_shared_secret C b A h"
  by (simp add: mix_shared_secret_def)

section \<open>The responder\<close>

text \<open>The responder of the same pattern, written with the operations of \<open>NoiseHandshake\<close>: the reference the
  client's side is checked against.\<close>

definition server_respond ::
    "'k noise_crypto \<Rightarrow> bytes \<Rightarrow> bytes \<times> bytes \<Rightarrow> bytes \<times> bytes \<Rightarrow> bytes \<Rightarrow> (bytes \<times> bytes \<times> 'k noise_handshake, handshake_error) result" where
  "server_respond C client_ephemeral ephemeral static cert =
     rbind (noise_new C NOISE_START_PATTERN WA_CONN_HEADER) (\<lambda>n.
     rbind (authenticate C client_ephemeral n) (\<lambda>n.
     rbind (authenticate C (snd ephemeral) n) (\<lambda>n.
     rbind (mix_shared_secret C (fst ephemeral) client_ephemeral n) (\<lambda>n.
     rbind (noise_encrypt C (snd static) n) (\<lambda>(ct_static, n).
     rbind (mix_shared_secret C (fst static) client_ephemeral n) (\<lambda>n.
     rbind (noise_encrypt C cert n) (\<lambda>(ct_cert, n). Inr (ct_static, ct_cert, n))))))))"

definition server_accept ::
    "'k noise_crypto \<Rightarrow> bytes \<Rightarrow> bytes \<Rightarrow> bytes \<Rightarrow> 'k noise_handshake \<Rightarrow> (bytes \<times> bytes \<times> 'k noise_handshake, handshake_error) result" where
  "server_accept C ephemeral_priv ct_static ct_payload n =
     rbind (noise_decrypt C ct_static n) (\<lambda>(client_static, n).
     rbind (mix_shared_secret C ephemeral_priv client_static n) (\<lambda>n.
     rbind (noise_decrypt C ct_payload n) (\<lambda>(payload, n). Inr (client_static, payload, n))))"

lemma client_follows_server:
  assumes laws: "aead_law C" "crypto_total C"
    and hs: "handshake_new C (e, E) (st, ST) payload = Inr hs"
    and srv: "server_respond C E (se, SE) (ss, SS) cert = Inr (ct_s, ct_c, n)"
    and resp: "decode_handshake P resp = Some (Some \<lparr>sh_ephemeral = Some SE, sh_static = Some ct_s, sh_payload = Some ct_c\<rparr>)"
    and len: "length SE = 32" "length SS = 32"
    and cert: "verify_server_cert P cert SS = Inr ()"
    and dh: "agreement C e SE = agreement C se E" "agreement C e SS = agreement C ss E"
      "agreement C st SE = agreement C se ST" "agreement C st SE \<noteq> None"
  shows "\<exists>ct_p ct_m hs'. read_server_hello_and_build_client_finish C P resp hs
             = Inr (encode_client_finish P ct_p ct_m, hs')
           \<and> server_accept C se ct_p ct_m n = Inr (ST, payload, hs_noise hs')"
proof -
  from srv obtain n0 n1 n2 n3 n4 n5 where steps:
    "noise_new C NOISE_START_PATTERN WA_CONN_HEADER = Inr n0" "authenticate C E n0 = Inr n1"
    "authenticate C SE n1 = Inr n2" "mix_shared_secret C se E n2 = Inr n3"
    "noise_encrypt C SS n3 = Inr (ct_s, n4)" "mix_shared_secret C ss E n4 = Inr n5"
    "noise_encrypt C cert n5 = Inr (ct_c, n)"
    by (auto simp: server_respond_def rbind_eq_Inr)
  have hs_eq: "hs = \<lparr>hs_noise = n1, hs_ephemeral = (e, E), hs_static = (st, ST), hs_payload = payload\<rparr>"
    using hs steps(1,2) by (simp add: handshake_new_def)
  note dec = encrypt_decrypt [OF laws(1)]
  obtain ct_p n6 where n6: "noise_encrypt C ST n = Inr (ct_p, n6)"
    using encrypt_total [OF laws(2)] by blast
  obtain n7 where n7: "mix_shared_secret C st SE n6 = Inr n7"
    using mix_total [OF laws(2)] dh(4) by blast
  obtain ct_m n8 where n8: "noise_encrypt C payload n7 = Inr (ct_m, n8)"
    using encrypt_total [OF laws(2)] by blast
  have "parse_server_hello P resp = Inr (SE, ct_s, ct_c)"
    using resp len by (simp add: parse_server_hello_def)
  then have "read_server_hello_and_build_client_finish C P resp hs
      = Inr (encode_client_finish P ct_p ct_m, hs\<lparr>hs_noise := n8\<rparr>)"
    using steps n6 n7 n8 len cert dec [OF steps(5)] dec [OF steps(7)]
      mix_same [OF dh(1)] mix_same [OF dh(2)]
    by (simp add: read_server_hello_and_build_client_finish_def hs_eq)
  moreover have "server_accept C se ct_p ct_m n = Inr (ST, payload, n8)"
    using dec [OF n6] dec [OF n8] n7 mix_same [OF dh(3)] by (simp add: server_accept_def)
  ultimately show ?thesis
    by (intro exI [of _ ct_p] exI [of _ ct_m] exI [of _ "hs\<lparr>hs_noise := n8\<rparr>"]) simp
qed

section \<open>Properties\<close>

definition toy_crypto :: "unit noise_crypto" where
  \<comment> \<open>an instance of the parameters that satisfies their laws\<close>
  "toy_crypto = \<lparr>sha256 = \<lambda>_. replicate 32 0, hkdf64 = \<lambda>_ _. Some (replicate 64 0), new_key = \<lambda>_. Some (),
     seal = \<lambda>_ _ _ m. Some (m @ replicate 16 0),
     unseal = \<lambda>_ _ _ c. Some (take (length c - 16) c), agreement = \<lambda>_ _. Some []\<rparr>"

lemma toy_laws: "aead_law toy_crypto" "crypto_total toy_crypto"
  by (auto simp: aead_law_def crypto_total_def toy_crypto_def)


definition toy_codec :: hello_codec where
  "toy_codec =
     (let c = \<lparr>cert_details = Some [], cert_signature = None\<rparr> in
      \<lparr>decode_handshake = \<lambda>_. Some (Some \<lparr>sh_ephemeral = Some (replicate 32 0),
         sh_static = Some (replicate 48 0), sh_payload = Some (replicate 16 0)\<rparr>),
       decode_cert_chain = \<lambda>_. Some (Some c, Some c),
       decode_details = \<lambda>_. Some \<lparr>cd_serial = None, cd_issuer_serial = None, cd_key = Some (replicate 32 0)\<rparr>,
       encode_client_hello = \<lambda>e. e, encode_client_finish = \<lambda>s p. s @ p\<rparr>)"

lemma toy_runs:
  "handshake_new toy_crypto ([1], [2]) ([3], [4]) [5]
     = Inr \<lparr>hs_noise = \<lparr>nh_hash = replicate 32 0, nh_salt = NOISE_START_PATTERN, nh_key = (), nh_counter = 0\<rparr>,
            hs_ephemeral = ([1], [2]), hs_static = ([3], [4]), hs_payload = [5]\<rparr>"
  "server_respond toy_crypto [2] ([6], replicate 32 0) ([7], replicate 32 0) []
     = Inr (replicate 48 0, replicate 16 0,
            \<lparr>nh_hash = replicate 32 0, nh_salt = replicate 32 0, nh_key = (), nh_counter = 1\<rparr>)"
  "verify_server_cert toy_codec [] (replicate 32 0) = Inr ()"
  by (simp_all add: handshake_new_def server_respond_def noise_new_def authenticate_def sha256_digest_def
      to_array_def toy_crypto_def NOISE_START_PATTERN_def as_bytes_def mix_shared_secret_def mix_into_key_def
      extract_and_expand_def noise_encrypt_def post_increment_counter_def verify_server_cert_def toy_codec_def
      or_zero_def or_empty_def WA_CERT_ISSUER_SERIAL_def Let_def flip: replicate_add)


lemma verify_server_cert_iff:
  "verify_server_cert P cert static = Inr () \<longleftrightarrow>
     (\<exists>leaf im leaf_bytes im_bytes leaf_d im_d.
        decode_cert_chain P cert = Some (Some leaf, Some im)
        \<and> cert_details im = Some im_bytes \<and> decode_details P im_bytes = Some im_d
        \<and> cert_details leaf = Some leaf_bytes \<and> decode_details P leaf_bytes = Some leaf_d
        \<and> or_zero (cd_issuer_serial im_d) = 0 \<and> length (or_empty (cd_key im_d)) = 32
        \<and> or_zero (cd_issuer_serial leaf_d) = or_zero (cd_serial im_d)
        \<and> or_empty (cd_key leaf_d) = static)"
  (is "?l \<longleftrightarrow> ?r")
proof
  show "?l \<Longrightarrow> ?r"
    by (auto simp: verify_server_cert_def rbind_eq_Inr WA_CERT_ISSUER_SERIAL_def uint_0_iff split: if_splits)
  show "?r \<Longrightarrow> ?l"
    by (auto simp: verify_server_cert_def WA_CERT_ISSUER_SERIAL_def)
qed

text \<open>C21: A chain is accepted exactly when both certificates decode, the intermediate names
  issuer 0 and has a key of 32 bytes, the leaf names the intermediate's serial and the leaf's key is
  the server's static key. The signatures take no part: replacing them changes nothing, so that
  anyone who can write a chain of this form is accepted.\<close>

theorem certificate_acceptance:
  "(verify_server_cert P cert static = Inr () \<longleftrightarrow>
     (\<exists>leaf im leaf_bytes im_bytes leaf_d im_d.
        decode_cert_chain P cert = Some (Some leaf, Some im)
        \<and> cert_details im = Some im_bytes \<and> decode_details P im_bytes = Some im_d
        \<and> cert_details leaf = Some leaf_bytes \<and> decode_details P leaf_bytes = Some leaf_d
        \<and> or_zero (cd_issuer_serial im_d) = 0 \<and> length (or_empty (cd_key im_d)) = 32
        \<and> or_zero (cd_issuer_serial leaf_d) = or_zero (cd_serial im_d)
        \<and> or_empty (cd_key leaf_d) = static))
   \<and> verify_server_cert (P\<lparr>decode_cert_chain := \<lambda>bs. map_option (map_prod
         (map_option (\<lambda>c. c\<lparr>cert_signature := s1\<rparr>)) (map_option (\<lambda>c. c\<lparr>cert_signature := s2\<rparr>)))
         (decode_cert_chain P bs)\<rparr>) cert static
     = verify_server_cert P cert static"
proof (rule conjI [OF verify_server_cert_iff])
  show "verify_server_cert (P\<lparr>decode_cert_chain := \<lambda>bs. map_option (map_prod
         (map_option (\<lambda>c. c\<lparr>cert_signature := s1\<rparr>)) (map_option (\<lambda>c. c\<lparr>cert_signature := s2\<rparr>)))
         (decode_cert_chain P bs)\<rparr>) cert static = verify_server_cert P cert static"
    by (cases "decode_cert_chain P cert")
       (auto simp: verify_server_cert_def ok_or_def split: option.splits)
qed

lemma length_byte:
  "n \<le> 24 \<Longrightarrow> (of_nat (drop_bit n len) :: byte) = ucast (drop_bit n (of_nat len :: u32))"
  by (rule bit_word_eqI) (auto simp: bit_simps)

text \<open>Routing information of at most \<open>MAX_EDGE_ROUTING_LEN\<close> bytes is sent before the connection
  header behind a prefix of seven bytes whose last three spell its exact length; anything longer is
  left out and the plain header is sent.\<close>

theorem routing_header:
  "connection_header (Some r) =
     (if length r \<le> MAX_EDGE_ROUTING_LEN
      then as_bytes ''ED'' @ [0, 1] @ drop 1 (u32_to_be (of_nat (length r))) @ r @ WA_CONN_HEADER
      else WA_CONN_HEADER)
   \<and> (length r \<le> MAX_EDGE_ROUTING_LEN \<longrightarrow> unat (of_nat (length r) :: u32) = length r)"
  using length_byte [of 16 "length r"] length_byte [of 8 "length r"] length_byte [of 0 "length r"]
  by (simp add: connection_header_def build_edge_routing_preintro_def MAX_EDGE_ROUTING_LEN_def
      u32_to_be_def unat_of_nat Let_def)

end
