(* ===== verification/Jid.thy ===== *)
theory Jid
  imports Prelude
begin

text \<open>
  JIDs, the addresses of users, groups and devices
  (\<^verbatim>\<open>warp_core/binary/src/jid.rs\<close>): the record, the classification
  predicates of the trait \<^verbatim>\<open>JidExt\<close>, the single-pass parser with the older parser
  it falls back to, and printing. A \<^verbatim>\<open>JidRef\<close> is a \<^verbatim>\<open>Jid\<close> whose strings are borrowed;
  both are the record \<open>jid\<close>, so \<^verbatim>\<open>to_owned\<close> is the identity.
\<close>

section \<open>Data\<close>

definition DEFAULT_USER_SERVER :: string where "DEFAULT_USER_SERVER = ''s.whatsapp.net''"
definition GROUP_SERVER :: string where "GROUP_SERVER = ''g.us''"
definition LEGACY_USER_SERVER :: string where "LEGACY_USER_SERVER = ''c.us''"
definition BROADCAST_SERVER :: string where "BROADCAST_SERVER = ''broadcast''"
definition HIDDEN_USER_SERVER :: string where "HIDDEN_USER_SERVER = ''lid''"
definition NEWSLETTER_SERVER :: string where "NEWSLETTER_SERVER = ''newsletter''"
definition HOSTED_SERVER :: string where "HOSTED_SERVER = ''hosted''"
definition HOSTED_LID_SERVER :: string where "HOSTED_LID_SERVER = ''hosted.lid''"
definition MESSENGER_SERVER :: string where "MESSENGER_SERVER = ''msgr''"
definition INTEROP_SERVER :: string where "INTEROP_SERVER = ''interop''"
definition BOT_SERVER :: string where "BOT_SERVER = ''bot''"
definition STATUS_BROADCAST_USER :: string where "STATUS_BROADCAST_USER = ''status''"

lemmas server_defs =
  DEFAULT_USER_SERVER_def GROUP_SERVER_def LEGACY_USER_SERVER_def BROADCAST_SERVER_def
  HIDDEN_USER_SERVER_def NEWSLETTER_SERVER_def HOSTED_SERVER_def HOSTED_LID_SERVER_def
  MESSENGER_SERVER_def INTEROP_SERVER_def BOT_SERVER_def STATUS_BROADCAST_USER_def

record jid =
  user :: string
  server :: string
  agent :: byte
  device :: u16
  integrator :: u16

definition default_jid :: jid where
  "default_jid = \<lparr>user = [], server = [], agent = 0, device = 0, integrator = 0\<rparr>"

datatype jid_error = InvalidFormat string | Parse

section \<open>Constructors and projections\<close>

definition jid_new :: "string \<Rightarrow> string \<Rightarrow> jid" where
  "jid_new u s = default_jid\<lparr>user := u, server := s\<rparr>"

definition pn :: "string \<Rightarrow> jid" where
  "pn u = default_jid\<lparr>user := u, server := DEFAULT_USER_SERVER\<rparr>"

definition lid :: "string \<Rightarrow> jid" where
  "lid u = default_jid\<lparr>user := u, server := HIDDEN_USER_SERVER\<rparr>"

definition group :: "string \<Rightarrow> jid" where
  "group u = default_jid\<lparr>user := u, server := GROUP_SERVER\<rparr>"

definition pn_device :: "string \<Rightarrow> u16 \<Rightarrow> jid" where
  "pn_device u d = default_jid\<lparr>user := u, server := DEFAULT_USER_SERVER, device := d\<rparr>"

definition lid_device :: "string \<Rightarrow> u16 \<Rightarrow> jid" where
  "lid_device u d = default_jid\<lparr>user := u, server := HIDDEN_USER_SERVER, device := d\<rparr>"

definition is_pn :: "jid \<Rightarrow> bool" where
  "is_pn j \<longleftrightarrow> server j = DEFAULT_USER_SERVER"

definition is_lid :: "jid \<Rightarrow> bool" where
  "is_lid j \<longleftrightarrow> server j = HIDDEN_USER_SERVER"

definition is_ad :: "jid \<Rightarrow> bool" where
  "is_ad j \<longleftrightarrow> device j > 0 \<and> (server j = DEFAULT_USER_SERVER
     \<or> server j = HIDDEN_USER_SERVER \<or> server j = HOSTED_SERVER)"

definition is_interop :: "jid \<Rightarrow> bool" where
  "is_interop j \<longleftrightarrow> server j = INTEROP_SERVER \<and> integrator j > 0"

definition is_messenger :: "jid \<Rightarrow> bool" where
  "is_messenger j \<longleftrightarrow> server j = MESSENGER_SERVER \<and> device j > 0"

definition is_group :: "jid \<Rightarrow> bool" where
  "is_group j \<longleftrightarrow> server j = GROUP_SERVER"

definition is_broadcast_list :: "jid \<Rightarrow> bool" where
  "is_broadcast_list j \<longleftrightarrow> server j = BROADCAST_SERVER \<and> user j \<noteq> STATUS_BROADCAST_USER"

definition is_status_broadcast :: "jid \<Rightarrow> bool" where
  "is_status_broadcast j \<longleftrightarrow> server j = BROADCAST_SERVER \<and> user j = STATUS_BROADCAST_USER"

definition starts_with :: "string \<Rightarrow> string \<Rightarrow> bool" where
  "starts_with p s \<longleftrightarrow> take (length p) s = p"

definition is_bot :: "jid \<Rightarrow> bool" where
  "is_bot j \<longleftrightarrow> (server j = DEFAULT_USER_SERVER \<and> device j = 0
      \<and> (starts_with ''1313555'' (user j) \<or> starts_with ''131655500'' (user j)))
     \<or> server j = BOT_SERVER"

definition is_hosted :: "jid \<Rightarrow> bool" where
  "is_hosted j \<longleftrightarrow> device j = 99 \<or> server j = HOSTED_SERVER \<or> server j = HOSTED_LID_SERVER"

definition jid_is_empty :: "jid \<Rightarrow> bool" where
  "jid_is_empty j \<longleftrightarrow> server j = []"

definition is_same_user_as :: "jid \<Rightarrow> jid \<Rightarrow> bool" where
  "is_same_user_as a b \<longleftrightarrow> user a = user b"

definition user_base :: "jid \<Rightarrow> string" where
  "user_base j = (case split_once CHR '':'' (user j) of Some (b, _) \<Rightarrow> b | None \<Rightarrow> user j)"

definition with_device :: "jid \<Rightarrow> u16 \<Rightarrow> jid" where
  "with_device j d = \<lparr>user = user j, server = server j, agent = agent j, device = d,
     integrator = integrator j\<rparr>"

definition actual_agent :: "jid \<Rightarrow> byte" where
  "actual_agent j = (if server j = DEFAULT_USER_SERVER then 0
     else if server j = HIDDEN_USER_SERVER then agent j else agent j)"

definition to_non_ad :: "jid \<Rightarrow> jid" where
  "to_non_ad j = default_jid\<lparr>user := user j, server := server j, integrator := integrator j\<rparr>"

definition matches_user_or_lid :: "jid \<Rightarrow> jid \<Rightarrow> jid option \<Rightarrow> bool" where
  "matches_user_or_lid j u l \<longleftrightarrow>
     is_same_user_as j u \<or> (case l of None \<Rightarrow> False | Some l \<Rightarrow> is_same_user_as j l)"

definition to_ad_string :: "jid \<Rightarrow> string" where
  "to_ad_string j = (if user j = [] then server j
     else user j @ ''.'' @ show_word (agent j) @ '':'' @ show_word (device j) @ ''@'' @ server j)"

section \<open>Printing\<close>

definition jid_to_string :: "jid \<Rightarrow> string" where
  "jid_to_string j =
     (if user j = [] then server j
      else user j
        @ (if agent j > 0 \<and> server j \<noteq> DEFAULT_USER_SERVER \<and> server j \<noteq> HIDDEN_USER_SERVER
             \<and> server j \<noteq> HOSTED_SERVER then ''.'' @ show_word (agent j) else [])
        @ (if device j > 0 then '':'' @ show_word (device j) else [])
        @ ''@'' @ server j)"

section \<open>Parsing\<close>

record jid_scan =
  at_pos :: "nat option"
  colon_pos :: "nat option"
  last_dot_pos :: "nat option"

definition jid_scan_step :: "jid_scan \<Rightarrow> nat \<times> char \<Rightarrow> jid_scan" where
  "jid_scan_step st ib =
     (let i = fst ib; b = snd ib in
      if b = CHR ''@'' then (if at_pos st = None then st\<lparr>at_pos := Some i\<rparr> else st)
      else if b = CHR '':'' then (if at_pos st = None then st\<lparr>colon_pos := Some i\<rparr> else st)
      else if b = CHR ''.'' then
        (if at_pos st = None \<and> colon_pos st = None then st\<lparr>last_dot_pos := Some i\<rparr> else st)
      else st)"

definition scan_jid :: "string \<Rightarrow> jid_scan" where
  "scan_jid s = foldl jid_scan_step
     \<lparr>at_pos = None, colon_pos = None, last_dot_pos = None\<rparr> (enumerate 0 s)"

definition slice :: "string \<Rightarrow> nat \<Rightarrow> nat \<Rightarrow> string" where
  \<comment> \<open>\<open>&s[a..b]\<close>\<close>
  "slice s a b = take (b - a) (drop a s)"

definition unwrap_or :: "'a \<Rightarrow> 'a option \<Rightarrow> 'a" where
  "unwrap_or d x = (case x of None \<Rightarrow> d | Some y \<Rightarrow> y)"

definition parts :: "string \<Rightarrow> string \<Rightarrow> byte \<Rightarrow> u16 \<Rightarrow> jid" where
  \<comment> \<open>a \<open>ParsedJidParts\<close>: the fields of a \<open>Jid\<close>, borrowed from the input\<close>
  "parts u s a d = \<lparr>user = u, server = s, agent = a, device = d, integrator = 0\<rparr>"

definition split_agent :: "string \<Rightarrow> string \<times> byte" where
  \<comment> \<open>the agent after the last dot, for servers other than the two user servers\<close>
  "split_agent u =
     (case rsplit_once CHR ''.'' u of
        Some (a, suffix) \<Rightarrow>
          (case parse_u16 suffix of
             Some v \<Rightarrow> if v \<le> 255 then (a, ucast v) else (u, 0)
           | None \<Rightarrow> (u, 0))
      | None \<Rightarrow> (u, 0))"

definition parse_jid_fast :: "string \<Rightarrow> jid option" where
  "parse_jid_fast s =
     (if s = [] then None
      else
        let st = scan_jid s in
        case at_pos st of
          None \<Rightarrow> None
        | Some at \<Rightarrow>
            let user_part = take at s; srv = drop (at + 1) s in
            if user_part = [] then None
            else if srv = HIDDEN_USER_SERVER then
              (case colon_pos st of
                 Some pos \<Rightarrow>
                   if pos < at
                   then Some (parts (take pos s) srv 0
                          (unwrap_or 0 (parse_u16 (slice s (pos + 1) at))))
                   else Some (parts user_part srv 0 0)
               | None \<Rightarrow> Some (parts user_part srv 0 0))
            else if srv = DEFAULT_USER_SERVER then
              (case colon_pos st of
                 Some pos \<Rightarrow>
                   Some (parts (take pos s) srv 0 (unwrap_or 0 (parse_u16 (slice s (pos + 1) at))))
               | None \<Rightarrow>
                   (case last_dot_pos st of
                      Some dot \<Rightarrow>
                        (case parse_u16 (slice s (dot + 1) at) of
                           Some d \<Rightarrow> Some (parts (take dot s) srv 0 d)
                         | None \<Rightarrow> Some (parts user_part srv 0 0))
                    | None \<Rightarrow> Some (parts user_part srv 0 0)))
            else
              (let (before_colon, d) =
                 (case colon_pos st of
                    Some pos \<Rightarrow> (take pos s, unwrap_or 0 (parse_u16 (slice s (pos + 1) at)))
                  | None \<Rightarrow> (user_part, 0));
                 (final_user, a) = split_agent before_colon
               in Some (parts final_user srv a d)))"

definition known_servers :: "string list" where
  "known_servers = [DEFAULT_USER_SERVER, GROUP_SERVER, LEGACY_USER_SERVER, BROADCAST_SERVER,
     HIDDEN_USER_SERVER, NEWSLETTER_SERVER, HOSTED_SERVER, MESSENGER_SERVER, INTEROP_SERVER,
     BOT_SERVER, STATUS_BROADCAST_USER]"

definition from_str_slow :: "string \<Rightarrow> (jid, jid_error) result" where
  \<comment> \<open>the parser behind the fast path\<close>
  "from_str_slow s =
     (let (user_part, srv) = (case split_once CHR ''@'' s of Some us \<Rightarrow> us | None \<Rightarrow> ([], s)) in
      if user_part = [] \<and> srv \<notin> set known_servers
      then Throw (InvalidFormat (''Invalid JID format: unknown server '' @ [CHR 0x27] @ srv @ [CHR 0x27]))
      else if srv = HIDDEN_USER_SERVER then
        (case rsplit_once CHR '':'' user_part of
           Some (u, d_str) \<Rightarrow>
             (case parse_u16 d_str of None \<Rightarrow> Throw Parse | Some d \<Rightarrow> Inr (parts u srv 0 d))
         | None \<Rightarrow> Inr (parts user_part srv 0 0))
      else
        rbind (case rsplit_once CHR '':'' user_part of
                 Some (u, d_str) \<Rightarrow>
                   (case parse_u16 d_str of None \<Rightarrow> Throw Parse | Some d \<Rightarrow> Inr (u, d))
               | None \<Rightarrow> Inr (user_part, 0))
          (\<lambda>(u1, d1).
             let (u2, a2) =
               (if srv \<noteq> DEFAULT_USER_SERVER \<and> srv \<noteq> HIDDEN_USER_SERVER then
                  (case rsplit_once CHR ''.'' u1 of
                     Some (u, last_part) \<Rightarrow>
                       (case parse_u16 last_part of Some v \<Rightarrow> (u, ucast v) | None \<Rightarrow> (u1, 0))
                   | None \<Rightarrow> (u1, 0))
                else (u1, 0))
             in case rsplit_once CHR ''.'' user_part of
                  Some (u, last_part) \<Rightarrow>
                    (case parse_u16 last_part of
                       Some v \<Rightarrow>
                         if srv = DEFAULT_USER_SERVER then Inr (parts u srv a2 v)
                         else if v > 255
                         then Throw (InvalidFormat (''Agent component out of range: '' @ show_word v))
                         else Inr (parts u srv (ucast v) d1)
                     | None \<Rightarrow> Inr (parts u2 srv a2 d1))
                | None \<Rightarrow> Inr (parts u2 srv a2 d1)))"

definition from_str :: "string \<Rightarrow> (jid, jid_error) result" where
  "from_str s = (case parse_jid_fast s of Some p \<Rightarrow> Inr p | None \<Rightarrow> from_str_slow s)"

section \<open>The single pass finds the separators\<close>

definition last_pos :: "char \<Rightarrow> string \<Rightarrow> nat option" where
  "last_pos c u = map_option (\<lambda>(a, b). length a) (rsplit_once c u)"

lemma last_pos_Nil [simp]: "last_pos c [] = None"
  by (simp add: last_pos_def)

lemma last_pos_snoc [simp]:
  "last_pos c (u @ [x]) = (if x = c then Some (length u) else last_pos c u)"
  by (auto simp: last_pos_def rsplit_once_def option.map_comp o_def case_prod_beta)

lemma no_colon_takeWhile: "c \<notin> set u \<Longrightarrow> takeWhile (\<lambda>x. x \<noteq> c) u = u"
  by (induction u) auto

lemma scan_jid_no_at:
  "CHR ''@'' \<notin> set u \<Longrightarrow>
     scan_jid u = \<lparr>at_pos = None, colon_pos = last_pos CHR '':'' u,
       last_dot_pos = last_pos CHR ''.'' (takeWhile (\<lambda>c. c \<noteq> CHR '':'') u)\<rparr>"
proof (induction u rule: rev_induct)
  case Nil
  then show ?case by (simp add: scan_jid_def)
next
  case (snoc x u)
  have scan: "scan_jid (u @ [y]) = jid_scan_step (scan_jid u) (length u, y)" for y
    by (simp add: scan_jid_def enumerate_append_eq)
  have nx: "x \<noteq> CHR ''@''" and nu: "CHR ''@'' \<notin> set u"
    using snoc.prems by fastforce+
  note IH = snoc.IH [OF nu]
  show ?case
  proof (cases "CHR '':'' \<in> set u")
    case True
    then have tw: "takeWhile (\<lambda>c. c \<noteq> CHR '':'') (u @ [y]) = takeWhile (\<lambda>c. c \<noteq> CHR '':'') u" for y
      by (simp add: takeWhile_append1)
    have "last_pos CHR '':'' u \<noteq> None"
      using True by (simp add: last_pos_def rsplit_once_None_iff)
    then obtain p where lp: "last_pos CHR '':'' u = Some p"
      by blast
    show ?thesis
      using nx by (simp add: scan jid_scan_step_def Let_def tw IH lp)
  next
    case False
    then have tw: "takeWhile (\<lambda>c. c \<noteq> CHR '':'') u = u"
      by (simp add: no_colon_takeWhile)
    have tw': "takeWhile (\<lambda>c. c \<noteq> CHR '':'') (u @ [y]) = (if y = CHR '':'' then u else u @ [y])" for y
      using False by (simp add: takeWhile_append tw)
    from False have lp: "last_pos CHR '':'' u = None"
      by (simp add: last_pos_def)
    show ?thesis
      using nx by (simp add: scan jid_scan_step_def Let_def tw tw' IH lp)
  qed
qed

lemma scan_step_after_at:
  "at_pos st \<noteq> None \<Longrightarrow> foldl jid_scan_step st xs = st"
  by (induction xs) (auto simp: jid_scan_step_def Let_def)

lemma scan_jid_at:
  assumes "CHR ''@'' \<notin> set u"
  shows "scan_jid (u @ CHR ''@'' # srv) = \<lparr>at_pos = Some (length u),
     colon_pos = last_pos CHR '':'' u,
     last_dot_pos = last_pos CHR ''.'' (takeWhile (\<lambda>c. c \<noteq> CHR '':'') u)\<rparr>"
proof -
  have "scan_jid (u @ CHR ''@'' # srv) =
      foldl jid_scan_step (jid_scan_step (scan_jid u) (length u, CHR ''@''))
        (enumerate (Suc (length u)) srv)"
    by (simp add: scan_jid_def enumerate_append_eq)
  also have "jid_scan_step (scan_jid u) (length u, CHR ''@'') = \<lparr>at_pos = Some (length u),
     colon_pos = last_pos CHR '':'' u,
     last_dot_pos = last_pos CHR ''.'' (takeWhile (\<lambda>c. c \<noteq> CHR '':'') u)\<rparr>"
    using scan_jid_no_at [OF assms] by (simp add: jid_scan_step_def)
  finally show ?thesis
    by (simp add: scan_step_after_at)
qed

text \<open>The same parser written with \<open>rsplit_once\<close> on the part before the first \<open>@\<close>.\<close>

definition parse_user_part :: "string \<Rightarrow> string \<Rightarrow> jid" where
  "parse_user_part u srv =
     (let (before_colon, d) =
        (case rsplit_once CHR '':'' u of
           Some (a, x) \<Rightarrow> (a, unwrap_or 0 (parse_u16 x))
         | None \<Rightarrow> (u, 0))
      in if srv = HIDDEN_USER_SERVER then parts before_colon srv 0 d
         else if srv = DEFAULT_USER_SERVER then
           (if CHR '':'' \<in> set u then parts before_colon srv 0 d
            else case rsplit_once CHR ''.'' u of
                   Some (a, x) \<Rightarrow>
                     (case parse_u16 x of Some v \<Rightarrow> parts a srv 0 v | None \<Rightarrow> parts u srv 0 0)
                 | None \<Rightarrow> parts u srv 0 0)
         else (let (f, a) = split_agent before_colon in parts f srv a d))"

lemma parse_jid_fast_at:
  assumes "CHR ''@'' \<notin> set u"
  shows "parse_jid_fast (u @ CHR ''@'' # srv) =
    (if u = [] then None else Some (parse_user_part u srv))"
proof (cases "CHR '':'' \<in> set u")
  case True
  then obtain a x where u: "u = a @ CHR '':'' # x" "CHR '':'' \<notin> set x"
    using split_list_last by metis
  then have sl: "slice (u @ CHR ''@'' # t) (Suc (length a)) (length u) = x" for t
    by (simp add: slice_def)
  have rs: "rsplit_once CHR '':'' u = Some (a, x)"
    using u by simp
  have lp: "last_pos CHR '':'' u = Some (length a)"
    by (simp add: last_pos_def rs)
  have tk: "take (length a) (u @ CHR ''@'' # srv) = a"
    by (simp add: u(1))
  have lt: "length a < length u"
    by (simp add: u(1))
  show ?thesis
    using True lt sl tk
    by (simp add: parse_jid_fast_def scan_jid_at [OF assms] lp parse_user_part_def rs Let_def
        split: prod.split)
next
  case False
  then have tw: "takeWhile (\<lambda>c. c \<noteq> CHR '':'') u = u"
    by (simp add: no_colon_takeWhile)
  have lp: "last_pos CHR '':'' u = None" and rs: "rsplit_once CHR '':'' u = None"
    using False by (simp_all add: last_pos_def)
  show ?thesis
  proof (cases "rsplit_once CHR ''.'' u")
    case None
    then have ld: "last_pos CHR ''.'' u = None"
      by (simp add: last_pos_def)
    show ?thesis
      by (simp add: parse_jid_fast_def scan_jid_at [OF assms] lp tw ld None parse_user_part_def rs
          Let_def False split: prod.split)
  next
    case (Some ax)
    then obtain a x where ax: "rsplit_once CHR ''.'' u = Some (a, x)"
      by (cases ax) simp
    then have u: "u = a @ CHR ''.'' # x"
      by (simp add: rsplit_once_Some)
    have ld: "last_pos CHR ''.'' u = Some (length a)"
      by (simp add: last_pos_def ax)
    have tk: "take (length a) u = a"
      by (simp add: u)
    have le: "length a \<le> length u"
      by (simp add: u)
    have sl: "slice (u @ CHR ''@'' # t) (Suc (length a)) (length u) = x" for t
      by (simp add: slice_def u)
    show ?thesis
      by (simp add: parse_jid_fast_def scan_jid_at [OF assms] lp tw ld ax tk le sl parse_user_part_def
          rs Let_def False split: prod.split option.split)
  qed
qed

lemma parse_jid_fast_no_at: "CHR ''@'' \<notin> set s \<Longrightarrow> parse_jid_fast s = None"
  by (simp add: parse_jid_fast_def scan_jid_no_at)


section \<open>Round trip\<close>

text \<open>
  The JIDs whose text form is unambiguous: the user part is not empty and has no
  separator of its own, and a trailing \<open>.<number>\<close> in it cannot be taken for a legacy
  device (on the phone-number server) or for an agent (elsewhere).
\<close>

definition dot_number :: "string \<Rightarrow> bool" where
  "dot_number u \<longleftrightarrow>
     (case rsplit_once CHR ''.'' u of None \<Rightarrow> False | Some (_, x) \<Rightarrow> parse_u16 x \<noteq> None)"

definition jid_canonical :: "jid \<Rightarrow> bool" where
  "jid_canonical j \<longleftrightarrow>
     integrator j = 0
     \<and> (if user j = [] then server j \<in> set known_servers \<and> agent j = 0 \<and> device j = 0
        else CHR ''@'' \<notin> set (user j) \<and> CHR '':'' \<notin> set (user j)
          \<and> (if server j = DEFAULT_USER_SERVER then agent j = 0 \<and> (device j = 0 \<longrightarrow> \<not> dot_number (user j))
             else if server j = HIDDEN_USER_SERVER then agent j = 0
             else if server j = HOSTED_SERVER then agent j = 0 \<and> \<not> dot_number (user j)
             else agent j = 0 \<longrightarrow> \<not> dot_number (user j)))"

lemma unat_byte_u16 [simp]: "unat (ucast (b :: byte) :: u16) = unat b"
proof -
  have "unat b < 65536"
    using unat_byte_lt [of b] by linarith
  then show ?thesis
    by (simp add: unsigned_ucast_eq take_bit_nat_eq_self)
qed

lemma parse_u16_show_byte: "parse_u16 (show_word (b :: byte)) = Some (ucast b)"
proof -
  have "show_word b = show_word (ucast b :: u16)"
    by (simp add: show_word_def)
  then show ?thesis by simp
qed

lemma byte_u16_le_255: "(ucast (b :: byte) :: u16) \<le> 255"
  using unat_byte_lt [of b] by (simp add: word_le_nat_alt del: unat_byte_lt)

lemma show_word_not_in [simp]: "\<not> is_digit c \<Longrightarrow> c \<notin> set (show_word w)"
  by (simp add: show_word_def)

lemma split_agent_show [simp]:
  "split_agent (u @ CHR ''.'' # show_word (b :: byte)) = (u, b)"
proof -
  have "ucast (ucast b :: u16) = b"
    by (rule bit_word_eqI) (simp add: bit_simps)
  then show ?thesis
    by (simp add: split_agent_def is_digit_neq parse_u16_show_byte byte_u16_le_255)
qed

lemma split_agent_plain: "\<not> dot_number u \<Longrightarrow> split_agent u = (u, 0)"
  by (auto simp: split_agent_def dot_number_def split: option.splits)

text \<open>What precedes the \<open>@\<close> in the text of a JID with a user.\<close>

definition user_text :: "jid \<Rightarrow> string" where
  "user_text j = user j
     @ (if agent j > 0 \<and> server j \<noteq> DEFAULT_USER_SERVER \<and> server j \<noteq> HIDDEN_USER_SERVER
          \<and> server j \<noteq> HOSTED_SERVER then CHR ''.'' # show_word (agent j) else [])"

lemma jid_to_string_user_text:
  "user j \<noteq> [] \<Longrightarrow> jid_to_string j =
     (user_text j @ (if device j > 0 then CHR '':'' # show_word (device j) else []))
       @ CHR ''@'' # server j"
  by (simp add: jid_to_string_def user_text_def)

lemma user_text_split_agent:
  assumes "server j \<noteq> DEFAULT_USER_SERVER" "server j \<noteq> HIDDEN_USER_SERVER"
    and "if server j = HOSTED_SERVER then agent j = 0 \<and> \<not> dot_number (user j)
         else agent j = 0 \<longrightarrow> \<not> dot_number (user j)"
  shows "split_agent (user_text j) = (user j, agent j)"
proof (cases "agent j = 0")
  case True
  with assms(3) show ?thesis
    by (simp add: user_text_def split_agent_plain split: if_splits)
next
  case False
  with assms have "server j \<noteq> HOSTED_SERVER"
    by (auto split: if_splits)
  with False assms show ?thesis
    by (simp add: user_text_def word_neq_0_conv)
qed

lemma parse_user_part_text:
  assumes canon: "jid_canonical j" and u: "user j \<noteq> []"
  shows "parse_user_part (user_text j
      @ (if device j > 0 then CHR '':'' # show_word (device j) else [])) (server j) = j"
proof -
  have no_colon: "CHR '':'' \<notin> set (user_text j)"
    using canon u by (simp add: jid_canonical_def user_text_def is_digit_neq)
  have pu: "parts (user j) (server j) (agent j) (device j) = j"
    using canon by (simp add: jid_canonical_def parts_def)
  have sa: "split_agent (user_text j) = (user j, agent j)"
    if "server j \<noteq> DEFAULT_USER_SERVER" "server j \<noteq> HIDDEN_USER_SERVER"
    using canon u that by (intro user_text_split_agent) (simp_all add: jid_canonical_def)
  have ut: "user_text j = user j" and ag: "agent j = 0"
    if "server j = DEFAULT_USER_SERVER \<or> server j = HIDDEN_USER_SERVER"
    using that canon u by (auto simp: user_text_def jid_canonical_def split: if_splits)
  show ?thesis
  proof (cases "device j > 0")
    case True
    have rs: "rsplit_once CHR '':'' (user_text j @ CHR '':'' # show_word (device j))
        = Some (user_text j, show_word (device j))"
      by (simp add: is_digit_neq)
    have "parse_user_part (user_text j @ CHR '':'' # show_word (device j)) (server j)
        = parts (user j) (server j) (agent j) (device j)"
      using sa ut ag by (auto simp: parse_user_part_def rs unwrap_or_def)
    with True pu show ?thesis by simp
  next
    case False
    then have d0: "device j = 0"
      by (simp add: word_neq_0_conv [symmetric])
    have rs: "rsplit_once CHR '':'' (user_text j) = None"
      using no_colon by simp
    have nd: "\<not> dot_number (user j)" if "server j = DEFAULT_USER_SERVER"
      using canon u d0 that by (simp add: jid_canonical_def)
    have "parse_user_part (user_text j) (server j)
        = parts (user j) (server j) (agent j) (device j)"
      using no_colon sa ut ag nd d0
      by (auto simp: parse_user_part_def rs dot_number_def split: option.splits)
    with False pu show ?thesis by simp
  qed
qed

lemma jid_to_string_at_free:
  assumes "jid_canonical j" and "user j \<noteq> []"
  shows "CHR ''@'' \<notin> set (user_text j
      @ (if device j > 0 then CHR '':'' # show_word (device j) else []))"
  using assms by (simp add: jid_canonical_def user_text_def is_digit_neq)

lemma from_str_to_string:
  assumes "jid_canonical j"
  shows "from_str (jid_to_string j) = Inr j"
proof (cases "user j = []")
  case True
  then have s: "jid_to_string j = server j" and k: "server j \<in> set known_servers"
    and z: "agent j = 0" "device j = 0" "integrator j = 0"
    using assms by (simp_all add: jid_to_string_def jid_canonical_def)
  have at: "CHR ''@'' \<notin> set (server j)"
    using k by (auto simp: known_servers_def server_defs)
  have "from_str_slow (server j) = Inr (parts [] (server j) 0 0)"
    using at k by (auto simp: from_str_slow_def Let_def rsplit_once_def)
  with True z s at show ?thesis
    by (simp add: from_str_def parse_jid_fast_no_at parts_def)
next
  case False
  define t where "t = user_text j
    @ (if device j > 0 then CHR '':'' # show_word (device j) else [])"
  have "t \<noteq> []" and str: "jid_to_string j = t @ CHR ''@'' # server j"
    using False by (simp_all add: t_def user_text_def jid_to_string_user_text)
  then have "parse_jid_fast (jid_to_string j) = Some j"
    using parse_jid_fast_at [of t "server j"] jid_to_string_at_free [OF assms False]
      parse_user_part_text [OF assms False]
    by (simp add: t_def [symmetric])
  then show ?thesis
    by (simp add: from_str_def)
qed

section \<open>Fast path and fallback\<close>

definition agent_in_range :: "string \<Rightarrow> bool" where
  \<comment> \<open>the number after the last dot of the text before the device fits in the agent byte\<close>
  "agent_in_range u \<longleftrightarrow>
     (case rsplit_once CHR '':'' u of
        None \<Rightarrow> True
      | Some (a, _) \<Rightarrow>
          (case rsplit_once CHR ''.'' a of
             None \<Rightarrow> True
           | Some (_, x) \<Rightarrow> (case parse_u16 x of None \<Rightarrow> True | Some v \<Rightarrow> v \<le> 255)))"

lemma parse_u16_chars:
  assumes "parse_u16 x = Some d"
  shows "CHR '':'' \<notin> set x" and "CHR ''.'' \<notin> set x"
  using parse_u16_SomeD(2) [OF assms] is_digit_neq by fastforce+

lemma dot_in_device_text:
  assumes "parse_u16 x = Some d" and "rsplit_once CHR ''.'' (a @ CHR '':'' # x) = Some (p, q)"
  shows "parse_u16 q = None"
proof (cases "parse_u16 q")
  case (Some v)
  have eq: "a @ CHR '':'' # x = p @ CHR ''.'' # q" and "CHR ''.'' \<notin> set q"
    using assms(2) by (simp_all add: rsplit_once_Some)
  have "CHR '':'' \<notin> set q" and "CHR ''.'' \<notin> set x"
    using parse_u16_chars [OF Some] parse_u16_chars [OF assms(1)] by simp_all
  from eq have "\<exists>us. (a = p @ us \<and> us @ CHR '':'' # x = CHR ''.'' # q)
      \<or> (a @ us = p \<and> CHR '':'' # x = us @ CHR ''.'' # q)"
    by (simp add: append_eq_append_conv2)
  then obtain us where "us @ CHR '':'' # x = CHR ''.'' # q \<or> CHR '':'' # x = us @ CHR ''.'' # q"
    by blast
  then show ?thesis
  proof
    assume "us @ CHR '':'' # x = CHR ''.'' # q"
    with \<open>CHR '':'' \<notin> set q\<close> show ?thesis
      by (cases us) auto
  next
    assume "CHR '':'' # x = us @ CHR ''.'' # q"
    with \<open>CHR ''.'' \<notin> set x\<close> show ?thesis
      by (cases us) auto
  qed
qed simp

lemma slow_fast_agree:
  assumes at: "CHR ''@'' \<notin> set u" and u: "u \<noteq> []"
    and range: "srv = DEFAULT_USER_SERVER \<or> srv = HIDDEN_USER_SERVER \<or> agent_in_range u"
    and slow: "from_str_slow (u @ CHR ''@'' # srv) = Inr j"
  shows "parse_user_part u srv = j"
proof (cases "rsplit_once CHR '':'' u")
  case None
  then have nc: "CHR '':'' \<notin> set u"
    by (simp add: rsplit_once_None_iff)
  show ?thesis
    using slow u at None nc
    by (auto simp: from_str_slow_def parse_user_part_def split_agent_def Let_def
        split: if_splits option.splits)
next
  case (Some ax)
  then obtain a x where ax: "rsplit_once CHR '':'' u = Some (a, x)"
    by (cases ax) simp
  then have ua: "u = a @ CHR '':'' # x"
    by (simp add: rsplit_once_Some)
  have px: "parse_u16 x \<noteq> None"
    using slow u at ax
    by (auto simp: from_str_slow_def split: if_splits option.splits)
  then obtain d where d: "parse_u16 x = Some d"
    by blast
  have dot: "rsplit_once CHR ''.'' u = Some (p, q) \<Longrightarrow> parse_u16 q = None" for p q
    using dot_in_device_text [OF d] ua by simp
  have mem: "CHR '':'' \<in> set u"
    by (simp add: ua)
  have no_dot_num: "(case rsplit_once CHR ''.'' u of
        Some (p, q) \<Rightarrow> (case parse_u16 q of Some v \<Rightarrow> f p v | None \<Rightarrow> r)
      | None \<Rightarrow> r) = r" for f :: "string \<Rightarrow> u16 \<Rightarrow> 'z" and r
    by (cases "rsplit_once CHR ''.'' u") (auto simp: dot split: prod.split)
  consider "srv = HIDDEN_USER_SERVER" | "srv = DEFAULT_USER_SERVER" "srv \<noteq> HIDDEN_USER_SERVER"
    | "srv \<noteq> DEFAULT_USER_SERVER" "srv \<noteq> HIDDEN_USER_SERVER"
    by blast
  then show ?thesis
  proof cases
    case 1
    with slow u at ax d show ?thesis
      by (simp add: from_str_slow_def parse_user_part_def unwrap_or_def)
  next
    case 2
    with slow u at ax d mem show ?thesis
      by (simp add: from_str_slow_def parse_user_part_def unwrap_or_def no_dot_num)
  next
    case 3
    with range have "agent_in_range u"
      by simp
    with 3 slow u at ax d mem show ?thesis
      by (auto simp: from_str_slow_def parse_user_part_def unwrap_or_def no_dot_num
          agent_in_range_def split_agent_def split: option.splits prod.splits if_splits)
  qed
qed

section \<open>Properties\<close>

text \<open>C27: Parsing the text of a JID gives the JID back, for every JID whose fields the text
  can carry (\<open>jid_canonical\<close>: no separator inside the user, no agent on the servers that do not
  print it, no integrator, no numeric dot suffix that would be read as an agent or device).\<close>

theorem jid_roundtrip:
  assumes "jid_canonical j"
  shows "from_str (jid_to_string j) = Inr j"
  using assms by (rule from_str_to_string)

theorem jid_roundtrip_witness:
  "from_str (jid_to_string (pn_device ''15551234'' 33)) = Inr (pn_device ''15551234'' 33)"
  by (rule jid_roundtrip)
     (simp add: jid_canonical_def pn_device_def default_jid_def server_defs dot_number_def
        rsplit_once_def known_servers_def)

text \<open>C29: The single-pass parser, which records separator positions while it
  scans the bytes and then slices, computes the reference parser: split at the first \<open>@\<close>, then
  take the user part apart at its last colon and last dot (\<open>parse_user_part\<close>). It never rejects a
  text with a nonempty part before the \<open>@\<close>, whatever the server is.\<close>

theorem fast_parser_reference:
  "parse_jid_fast s =
     (case split_once CHR ''@'' s of
        None \<Rightarrow> None
      | Some (u, srv) \<Rightarrow> if u = [] then None else Some (parse_user_part u srv))"
proof (cases "split_once CHR ''@'' s")
  case None
  then show ?thesis
    by (simp add: split_once_None_iff parse_jid_fast_no_at)
next
  case (Some p)
  then obtain u srv where p: "p = (u, srv)" and s: "s = u @ CHR ''@'' # srv" and "CHR ''@'' \<notin> set u"
    by (cases p) (simp add: split_once_Some)
  then have fast: "u \<noteq> [] \<Longrightarrow> parse_jid_fast s = Some (parse_user_part u srv)"
    by (simp add: parse_jid_fast_at)
  show ?thesis
  proof (cases "u = []")
    case True
    have "at_pos (scan_jid s) = Some 0"
      using scan_jid_at [of "[]" srv] s True by simp
    with True p Some show ?thesis
      by (simp add: parse_jid_fast_def)
  qed (simp add: Some p fast)
qed

text \<open>Whatever the older parser accepts, the fast parser reads the same way, as long as
  a number in the agent position fits in a byte. (Above 255 the older parser truncates an agent
  before a device, and the fast parser leaves it in the user.)\<close>

theorem fallback_agrees:
  assumes "CHR ''@'' \<notin> set u" and "u \<noteq> []"
    and "srv = DEFAULT_USER_SERVER \<or> srv = HIDDEN_USER_SERVER \<or> agent_in_range u"
    and "from_str_slow (u @ CHR ''@'' # srv) = Inr j"
  shows "parse_jid_fast (u @ CHR ''@'' # srv) = Some j"
  using assms slow_fast_agree [OF assms] by (simp add: parse_jid_fast_at)

end
