(* ===== verification/Node.thy ===== *)
theory Node
  imports Jid
begin

text \<open>
  Protocol nodes, their construction and their attribute parsers
  (\<^verbatim>\<open>node.rs\<close>, \<^verbatim>\<open>builder.rs\<close>, \<^verbatim>\<open>attrs.rs\<close> and \<^verbatim>\<open>error.rs\<close> of
  \<^verbatim>\<open>warp_core/binary/src\<close>). An \<open>IndexMap\<close> is an association list with distinct keys in
  insertion order.
\<close>

section \<open>Errors\<close>

datatype attr_error =
    RequiredMissing string
  | InvalidJidText string
  | BadBool string string
  | BadU64 string string
  | BadI64 string string

datatype binary_error =
    Io
  | InvalidToken byte
  | InvalidNode
  | NonStringKey
  | AttrParse attr_error
  | InvalidUtf8
  | Zlib string
  | JidErr jid_error
  | UnexpectedEof
  | EmptyData
  | LeftoverData nat
  | AttrList "binary_error list"

section \<open>Nodes\<close>

type_synonym attrs = "(string \<times> string) list"

datatype node = Node (tag: string) (attrs: attrs) (content: "node_content option")
and node_content = NBytes bytes | NString string | NNodes "node list"

datatype value_ref = VString string | VJid jid

type_synonym attrs_ref = "(string \<times> value_ref) list"

datatype node_ref = NodeRef (rtag: string) (rattrs: attrs_ref) (rcontent: "content_ref option")
and content_ref = RBytes bytes | RString string | RNodes "node_ref list"

text \<open>\<open>IndexMap::insert\<close>: a new key goes last, an old key keeps its place.\<close>

fun im_insert :: "'k \<Rightarrow> 'v \<Rightarrow> ('k \<times> 'v) list \<Rightarrow> ('k \<times> 'v) list" where
  "im_insert k v [] = [(k, v)]"
| "im_insert k v ((k', v') # xs) = (if k' = k then (k', v) # xs else (k', v') # im_insert k v xs)"

definition im_collect :: "('k \<times> 'v) list \<Rightarrow> ('k \<times> 'v) list" where
  "im_collect kvs = foldl (\<lambda>m (k, v). im_insert k v m) [] kvs"

definition value_as_str :: "value_ref \<Rightarrow> string option" where
  "value_as_str v = (case v of VString s \<Rightarrow> Some s | VJid _ \<Rightarrow> None)"

definition value_as_jid :: "value_ref \<Rightarrow> jid option" where
  "value_as_jid v = (case v of VJid j \<Rightarrow> Some j | VString _ \<Rightarrow> None)"

definition value_to_jid :: "value_ref \<Rightarrow> jid option" where
  "value_to_jid v = (case v of VJid j \<Rightarrow> Some j
     | VString s \<Rightarrow> (case from_str s of Inr j \<Rightarrow> Some j | Inl _ \<Rightarrow> None))"

definition value_to_string :: "value_ref \<Rightarrow> string" where
  "value_to_string v = (case v of VString s \<Rightarrow> s | VJid j \<Rightarrow> jid_to_string j)"

fun as_node_ref :: "node \<Rightarrow> node_ref"
and as_content_ref :: "node_content \<Rightarrow> content_ref" where
  "as_node_ref (Node t as c) =
     NodeRef t (map (\<lambda>(k, v). (k, VString v)) as) (map_option as_content_ref c)"
| "as_content_ref (NBytes b) = RBytes b"
| "as_content_ref (NString s) = RString s"
| "as_content_ref (NNodes ns) = RNodes (map as_node_ref ns)"

fun node_to_owned :: "node_ref \<Rightarrow> node"
and content_to_owned :: "content_ref \<Rightarrow> node_content" where
  "node_to_owned (NodeRef t as c) =
     Node t (im_collect (map (\<lambda>(k, v). (k, value_to_string v)) as)) (map_option content_to_owned c)"
| "content_to_owned (RBytes b) = NBytes b"
| "content_to_owned (RString s) = NString s"
| "content_to_owned (RNodes ns) = NNodes (map node_to_owned ns)"

definition children :: "node \<Rightarrow> node list option" where
  "children n = (case content n of Some (NNodes ns) \<Rightarrow> Some ns | _ \<Rightarrow> None)"

fun get_optional_child_by_tag :: "node \<Rightarrow> string list \<Rightarrow> node option" where
  "get_optional_child_by_tag n [] = Some n"
| "get_optional_child_by_tag n (t # ts) =
     (case children n of
        Some cs \<Rightarrow>
          (case find (\<lambda>c. tag c = t) cs of
             Some found \<Rightarrow> get_optional_child_by_tag found ts
           | None \<Rightarrow> None)
      | None \<Rightarrow> None)"

definition get_children_by_tag :: "node \<Rightarrow> string \<Rightarrow> node list" where
  "get_children_by_tag n t =
     (case children n of Some cs \<Rightarrow> filter (\<lambda>c. tag c = t) cs | None \<Rightarrow> [])"

definition get_optional_child :: "node \<Rightarrow> string \<Rightarrow> node option" where
  "get_optional_child n t = (case children n of Some cs \<Rightarrow> find (\<lambda>c. tag c = t) cs | None \<Rightarrow> None)"

definition rchildren :: "node_ref \<Rightarrow> node_ref list option" where
  "rchildren n = (case rcontent n of Some (RNodes ns) \<Rightarrow> Some ns | _ \<Rightarrow> None)"

definition get_attr :: "node_ref \<Rightarrow> string \<Rightarrow> value_ref option" where
  "get_attr n key = map_option snd (find (\<lambda>(k, _). k = key) (rattrs n))"

fun rget_optional_child_by_tag :: "node_ref \<Rightarrow> string list \<Rightarrow> node_ref option" where
  "rget_optional_child_by_tag n [] = Some n"
| "rget_optional_child_by_tag n (t # ts) =
     (case rchildren n of
        Some cs \<Rightarrow>
          (case find (\<lambda>c. rtag c = t) cs of
             Some found \<Rightarrow> rget_optional_child_by_tag found ts
           | None \<Rightarrow> None)
      | None \<Rightarrow> None)"

definition rget_children_by_tag :: "node_ref \<Rightarrow> string \<Rightarrow> node_ref list" where
  "rget_children_by_tag n t =
     (case rchildren n of Some cs \<Rightarrow> filter (\<lambda>c. rtag c = t) cs | None \<Rightarrow> [])"

definition rget_optional_child :: "node_ref \<Rightarrow> string \<Rightarrow> node_ref option" where
  "rget_optional_child n t =
     (case rchildren n of Some cs \<Rightarrow> find (\<lambda>c. rtag c = t) cs | None \<Rightarrow> None)"

section \<open>NodeBuilder\<close>

record node_builder =
  nb_tag :: string
  nb_attrs :: attrs
  nb_content :: "node_content option"

definition nb_new :: "string \<Rightarrow> node_builder" where
  "nb_new t = \<lparr>nb_tag = t, nb_attrs = [], nb_content = None\<rparr>"

definition nb_attr :: "string \<Rightarrow> string \<Rightarrow> node_builder \<Rightarrow> node_builder" where
  "nb_attr k v b = b\<lparr>nb_attrs := im_insert k v (nb_attrs b)\<rparr>"

definition nb_add_attrs :: "attrs \<Rightarrow> node_builder \<Rightarrow> node_builder" where
  "nb_add_attrs kvs b =
     b\<lparr>nb_attrs := foldl (\<lambda>m (k, v). im_insert k v m) (nb_attrs b) kvs\<rparr>"

definition nb_children :: "node list \<Rightarrow> node_builder \<Rightarrow> node_builder" where
  "nb_children cs b = b\<lparr>nb_content := Some (NNodes cs)\<rparr>"

definition nb_bytes :: "bytes \<Rightarrow> node_builder \<Rightarrow> node_builder" where
  "nb_bytes bs b = b\<lparr>nb_content := Some (NBytes bs)\<rparr>"

definition nb_string_content :: "string \<Rightarrow> node_builder \<Rightarrow> node_builder" where
  "nb_string_content s b = b\<lparr>nb_content := Some (NString s)\<rparr>"

definition nb_apply_content :: "node_content option \<Rightarrow> node_builder \<Rightarrow> node_builder" where
  "nb_apply_content c b = b\<lparr>nb_content := c\<rparr>"

definition nb_build :: "node_builder \<Rightarrow> node" where
  "nb_build b = Node (nb_tag b) (nb_attrs b) (nb_content b)"

section \<open>Attribute maps\<close>

definition attrs_ok :: "('k \<times> 'v) list \<Rightarrow> bool" where
  "attrs_ok as \<longleftrightarrow> distinct (map fst as)"

lemma map_of_im_insert [simp]: "map_of (im_insert k v m) = (map_of m)(k \<mapsto> v)"
  by (induction k v m rule: im_insert.induct) auto

lemma fst_im_insert: "set (map fst (im_insert k v m)) = insert k (set (map fst m))"
  by (induction k v m rule: im_insert.induct) auto

lemma attrs_ok_im_insert [simp]: "attrs_ok m \<Longrightarrow> attrs_ok (im_insert k v m)"
  unfolding attrs_ok_def
proof (induction k v m rule: im_insert.induct)
  case (2 k v k' v' xs)
  then show ?case using fst_im_insert [of k v xs] by auto
qed simp

lemma attrs_ok_foldl:
  "attrs_ok m \<Longrightarrow> attrs_ok (foldl (\<lambda>m (k, v). im_insert k v m) m kvs)"
  by (induction kvs arbitrary: m) auto

lemma attrs_ok_collect [simp]: "attrs_ok (im_collect kvs)"
  unfolding im_collect_def by (rule attrs_ok_foldl) (simp add: attrs_ok_def)

lemma im_insert_fresh: "k \<notin> set (map fst m) \<Longrightarrow> im_insert k v m = m @ [(k, v)]"
  by (induction k v m rule: im_insert.induct) auto

lemma foldl_im_insert_distinct:
  "distinct (map fst (m @ kvs)) \<Longrightarrow> foldl (\<lambda>m (k, v). im_insert k v m) m kvs = m @ kvs"
proof (induction kvs arbitrary: m)
  case (Cons kv kvs)
  obtain k v where kv: "kv = (k, v)" by (cases kv)
  with Cons.prems have "k \<notin> set (map fst m)" by auto
  then have "im_insert k v m = m @ [(k, v)]"
    by (rule im_insert_fresh)
  with Cons kv show ?case by simp
qed simp

text \<open>Collecting pairs with distinct keys keeps them as they are.\<close>

lemma im_collect_ok [simp]: "attrs_ok kvs \<Longrightarrow> im_collect kvs = kvs"
  by (simp add: im_collect_def attrs_ok_def foldl_im_insert_distinct)

section \<open>Owned and borrowed nodes\<close>

fun nodes_ok :: "node \<Rightarrow> bool"
and contents_ok :: "node_content \<Rightarrow> bool" where
  \<comment> \<open>every attribute map of the tree has distinct keys\<close>
  "nodes_ok (Node t as c) \<longleftrightarrow> attrs_ok as \<and> (case c of None \<Rightarrow> True | Some x \<Rightarrow> contents_ok x)"
| "contents_ok (NBytes b) \<longleftrightarrow> True"
| "contents_ok (NString s) \<longleftrightarrow> True"
| "contents_ok (NNodes ns) \<longleftrightarrow> list_all nodes_ok ns"

lemma to_owned_as_ref:
  "nodes_ok n \<Longrightarrow> node_to_owned (as_node_ref n) = n"
  "contents_ok c \<Longrightarrow> content_to_owned (as_content_ref c) = c"
proof (induction n and c rule: nodes_ok_contents_ok.induct)
  case (1 t as c)
  have "map (\<lambda>(k, v). (k, value_to_string v)) (map (\<lambda>(k, v). (k, VString v)) as) = as"
    by (induction as) (auto simp: value_to_string_def)
  with 1 show ?case by (cases c) auto
next
  case (4 ns)
  then show ?case by (auto simp: list_all_iff intro: map_idI)
qed simp_all

lemma to_owned_ok: "nodes_ok (node_to_owned r)" "contents_ok (content_to_owned c)"
  by (induction r and c rule: node_to_owned_content_to_owned.induct)
     (auto simp: list_all_iff split: option.split)

lemma tag_to_owned [simp]: "tag (node_to_owned r) = rtag r"
  by (cases r) simp

lemma children_to_owned: "children (node_to_owned r) = map_option (map node_to_owned) (rchildren r)"
  by (cases r) (auto simp: children_def rchildren_def split: option.split content_ref.split)

lemma find_map_tag:
  "find (\<lambda>c. tag c = t) (map node_to_owned cs) = map_option node_to_owned (find (\<lambda>c. rtag c = t) cs)"
  by (induction cs) auto

lemma child_by_tag_to_owned:
  "get_optional_child_by_tag (node_to_owned r) ts = map_option node_to_owned (rget_optional_child_by_tag r ts)"
  by (induction r ts rule: rget_optional_child_by_tag.induct)
     (auto simp: children_to_owned find_map_tag split: option.split)

section \<open>Properties\<close>

text \<open>Borrowing a node and converting it back gives the node itself, for every
  tree whose attribute maps have distinct keys, and converting any borrowed tree gives such a
  tree. The two navigation interfaces agree: looking up a path of tags, or all children with a
  tag, in the converted tree finds the conversions of what the borrowed tree has there.\<close>

theorem node_views_agree:
  "(nodes_ok n \<longrightarrow> node_to_owned (as_node_ref n) = n)
   \<and> nodes_ok (node_to_owned r)
   \<and> get_optional_child_by_tag (node_to_owned r) ts
       = map_option node_to_owned (rget_optional_child_by_tag r ts)
   \<and> get_children_by_tag (node_to_owned r) t = map node_to_owned (rget_children_by_tag r t)"
proof (intro conjI impI)
  show "get_children_by_tag (node_to_owned r) t = map node_to_owned (rget_children_by_tag r t)"
    by (auto simp: get_children_by_tag_def rget_children_by_tag_def children_to_owned filter_map
        comp_def split: option.split)
qed (simp_all add: to_owned_as_ref to_owned_ok child_by_tag_to_owned)

end
