(* ===== verification/Tokens.thy ===== *)
theory Tokens
  imports Prelude
begin

text \<open>
  The token dictionary of the binary format (\<^verbatim>\<open>warp_core/binary/src/token.rs\<close>) and the
  build script that turns \<^verbatim>\<open>tokens.json\<close> into its lookup tables
  (\<^verbatim>\<open>warp_core/binary/build.rs\<close>). The laws that the encoder and the decoder rely on are
  the locale \<open>token_table\<close>.
\<close>

section \<open>Tags\<close>

definition LIST_EMPTY :: byte where "LIST_EMPTY = 0"
definition DICTIONARY_0 :: byte where "DICTIONARY_0 = 236"
definition DICTIONARY_3 :: byte where "DICTIONARY_3 = 239"
definition INTEROP_JID :: byte where "INTEROP_JID = 245"
definition FB_JID :: byte where "FB_JID = 246"
definition AD_JID :: byte where "AD_JID = 247"
definition LIST_8 :: byte where "LIST_8 = 248"
definition LIST_16 :: byte where "LIST_16 = 249"
definition JID_PAIR :: byte where "JID_PAIR = 250"
definition HEX_8 :: byte where "HEX_8 = 251"
definition BINARY_8 :: byte where "BINARY_8 = 252"
definition BINARY_20 :: byte where "BINARY_20 = 253"
definition BINARY_32 :: byte where "BINARY_32 = 254"
definition NIBBLE_8 :: byte where "NIBBLE_8 = 255"
definition PACKED_MAX :: nat where "PACKED_MAX = 127"

lemmas tag_defs =
  LIST_EMPTY_def DICTIONARY_0_def DICTIONARY_3_def INTEROP_JID_def FB_JID_def AD_JID_def
  LIST_8_def LIST_16_def JID_PAIR_def HEX_8_def BINARY_8_def BINARY_20_def BINARY_32_def
  NIBBLE_8_def

section \<open>Tables\<close>

record tokens =
  single_byte :: "string list"
  double_byte :: "string list list"

definition single_byte_map :: "tokens \<Rightarrow> (string \<times> byte) list" where
  "single_byte_map tk =
     map (\<lambda>(i, t). (t, of_nat i)) (filter (\<lambda>(i, t). t \<noteq> []) (enumerate 0 (single_byte tk)))"

definition double_byte_map :: "tokens \<Rightarrow> (string \<times> byte \<times> byte) list" where
  "double_byte_map tk =
     concat (map (\<lambda>(d, dict). map (\<lambda>(i, t). (t, of_nat d, of_nat i)) (enumerate 0 dict))
       (enumerate 0 (double_byte tk)))"

definition index_of_single_token :: "tokens \<Rightarrow> string \<Rightarrow> byte option" where
  "index_of_single_token tk s = map_of (single_byte_map tk) s"

definition index_of_double_byte_token :: "tokens \<Rightarrow> string \<Rightarrow> (byte \<times> byte) option" where
  "index_of_double_byte_token tk s = map_of (double_byte_map tk) s"

definition nth_opt :: "'a list \<Rightarrow> nat \<Rightarrow> 'a option" where
  \<comment> \<open>\<open>slice::get\<close>\<close>
  "nth_opt xs i = (if i < length xs then Some (xs ! i) else None)"

definition get_single_token :: "tokens \<Rightarrow> byte \<Rightarrow> string option" where
  "get_single_token tk i = nth_opt (single_byte tk) (unat i)"

definition get_double_token :: "tokens \<Rightarrow> byte \<Rightarrow> byte \<Rightarrow> string option" where
  "get_double_token tk d i =
     (case nth_opt (double_byte tk) (unat d) of
        None \<Rightarrow> None
      | Some dict \<Rightarrow> nth_opt dict (unat i))"

section \<open>What the codec relies on\<close>

text \<open>
  A token index never collides with a tag (single tokens stay below \<open>DICTIONARY_0\<close>, index 0
  is the empty string), dictionaries are four, and every index fits its byte.
\<close>

definition tokens_wf :: "tokens \<Rightarrow> bool" where
  "tokens_wf tk \<longleftrightarrow>
     length (single_byte tk) \<le> 236 \<and> single_byte tk \<noteq> [] \<and> hd (single_byte tk) = []
     \<and> length (double_byte tk) \<le> 4
     \<and> list_all (\<lambda>dict. length dict \<le> 256 \<and> [] \<notin> set dict) (double_byte tk)"

locale token_table =
  fixes tk :: tokens
  assumes single_sound: "index_of_single_token tk s = Some i \<Longrightarrow> get_single_token tk i = Some s"
    and single_range: "index_of_single_token tk s = Some i \<Longrightarrow> 0 < unat i \<and> unat i < 236"
    and double_sound: "index_of_double_byte_token tk s = Some (d, i) \<Longrightarrow> get_double_token tk d i = Some s"
    and double_range: "index_of_double_byte_token tk s = Some (d, i) \<Longrightarrow> unat d < 4"
    and double_nonempty: "index_of_double_byte_token tk s = Some (d, i) \<Longrightarrow> s \<noteq> []"

lemma single_byte_map_mem:
  "(s, i) \<in> set (single_byte_map tk) \<longleftrightarrow>
     (\<exists>n < length (single_byte tk). single_byte tk ! n = s \<and> s \<noteq> [] \<and> i = of_nat n)"
  by (force simp: single_byte_map_def in_set_enumerate_eq)

lemma double_byte_map_mem:
  "(s, d, i) \<in> set (double_byte_map tk) \<longleftrightarrow>
     (\<exists>m < length (double_byte tk). \<exists>n < length (double_byte tk ! m).
        double_byte tk ! m ! n = s \<and> d = of_nat m \<and> i = of_nat n)"
  by (force simp: double_byte_map_def in_set_enumerate_eq)

lemma unat_of_nat_byte: "n < 256 \<Longrightarrow> unat (of_nat n :: byte) = n"
  by (simp add: unat_of_nat)

lemma token_table_wf:
  assumes wf: "tokens_wf tk"
  shows "token_table tk"
proof
  have len1: "length (single_byte tk) \<le> 236" and z: "single_byte tk ! 0 = []"
    using wf by (auto simp: tokens_wf_def hd_conv_nth)
  fix s i d
  assume "index_of_single_token tk s = Some i"
  then have "(s, i) \<in> set (single_byte_map tk)"
    by (simp add: index_of_single_token_def map_of_SomeD)
  then obtain n where n: "n < length (single_byte tk)" "single_byte tk ! n = s" "s \<noteq> []"
      "i = of_nat n"
    by (auto simp: single_byte_map_mem)
  then have i: "unat i = n"
    using len1 by (simp add: unat_of_nat_byte)
  show "get_single_token tk i = Some s"
    using n i by (simp add: get_single_token_def nth_opt_def)
  have "n \<noteq> 0"
    using n z by (cases n) auto
  then show "0 < unat i \<and> unat i < 236"
    using i n(1) len1 by simp
next
  have len2: "length (double_byte tk) \<le> 4"
    and dict: "m < length (double_byte tk) \<Longrightarrow>
      length (double_byte tk ! m) \<le> 256 \<and> [] \<notin> set (double_byte tk ! m)" for m
    using wf by (auto simp: tokens_wf_def list_all_length)
  fix s d i
  assume "index_of_double_byte_token tk s = Some (d, i)"
  then have "(s, d, i) \<in> set (double_byte_map tk)"
    by (simp add: index_of_double_byte_token_def map_of_SomeD)
  then obtain m n where mn: "m < length (double_byte tk)" "n < length (double_byte tk ! m)"
      "double_byte tk ! m ! n = s" "d = of_nat m" "i = of_nat n"
    by (auto simp: double_byte_map_mem)
  have "unat d = m" "unat i = n"
    using mn len2 dict [of m] by (simp_all add: unat_of_nat_byte)
  then show "get_double_token tk d i = Some s" "unat d < 4"
    using mn len2 by (simp_all add: get_double_token_def nth_opt_def)
  show "s \<noteq> []"
    using mn dict [of m] nth_mem by metis
qed

end
