(* ===== verification/Encoder.thy ===== *)
theory Encoder
  imports Node Tokens
begin

text \<open>
  The binary encoder (\<^verbatim>\<open>warp_core/binary/src/encoder.rs\<close>). A write operation is the bytes it
  appends to the writer, or the way it fails; the writer of the program is a \<open>Vec\<close> or a cursor
  over one, whose \<open>write_all\<close> cannot fail. The operations that consult the dictionary take it as
  their first argument. Chunks of sixteen bytes are packed with vector instructions, written out
  lane by lane.
\<close>

unbundle bit_operations_syntax

type_synonym 'a res = "('a, binary_error) result"

section \<open>Writing numbers and byte strings\<close>

definition seqw :: "bytes res \<Rightarrow> bytes res \<Rightarrow> bytes res" where
  \<comment> \<open>two writes in sequence\<close>
  "seqw r1 r2 = rbind r1 (\<lambda>a. rbind r2 (\<lambda>b. Inr (a @ b)))"

definition write_u8 :: "byte \<Rightarrow> bytes" where
  "write_u8 v = [v]"

definition write_u16_be :: "u16 \<Rightarrow> bytes" where
  "write_u16_be v = u16_to_be v"

definition write_u32_be :: "u32 \<Rightarrow> bytes" where
  "write_u32_be v = u32_to_be v"

definition write_u20_be :: "u32 \<Rightarrow> bytes" where
  "write_u20_be v =
     [ucast (drop_bit 16 v AND 0x0F), ucast (drop_bit 8 v AND 0xFF), ucast (v AND 0xFF)]"

definition write_bytes_with_len :: "bytes \<Rightarrow> bytes" where
  "write_bytes_with_len bs =
     (let len = length bs in
      if len < 256 then write_u8 BINARY_8 @ write_u8 (of_nat len) @ bs
      else if len < 2 ^ 20 then write_u8 BINARY_20 @ write_u20_be (of_nat len) @ bs
      else write_u8 BINARY_32 @ write_u32_be (of_nat len) @ bs)"

definition write_list_start :: "nat \<Rightarrow> bytes" where
  "write_list_start len =
     (if len = 0 then write_u8 LIST_EMPTY
      else if len < 256 then write_u8 248 @ write_u8 (of_nat len)
      else write_u8 249 @ write_u16_be (of_nat len))"

section \<open>Packed strings\<close>

definition is_hex_upper :: "char \<Rightarrow> bool" where
  "is_hex_upper c \<longleftrightarrow> 65 \<le> (of_char c :: nat) \<and> (of_char c :: nat) \<le> 70"

definition validate_nibble :: "string \<Rightarrow> bool" where
  "validate_nibble s \<longleftrightarrow>
     length s \<le> PACKED_MAX \<and> list_all (\<lambda>c. is_digit c \<or> c = CHR ''-'' \<or> c = CHR ''.'') s"

definition validate_hex :: "string \<Rightarrow> bool" where
  "validate_hex s \<longleftrightarrow> length s \<le> PACKED_MAX \<and> list_all (\<lambda>c. is_hex_upper c \<or> is_digit c) s"

definition pack_nibble :: "char \<Rightarrow> byte res" where
  "pack_nibble c =
     (if c = CHR ''-'' then Inr 10
      else if c = CHR ''.'' then Inr 11
      else if c = CHR 0x00 then Inr 15
      else if is_digit c then Inr (byte_of_char c - 48)
      else Inl Panic)"

definition pack_hex :: "char \<Rightarrow> byte res" where
  "pack_hex c =
     (if is_digit c then Inr (byte_of_char c - 48)
      else if is_hex_upper c then Inr (10 + (byte_of_char c - 65))
      else if c = CHR 0x00 then Inr 15
      else Inl Panic)"

definition pack_byte_pair :: "(char \<Rightarrow> byte res) \<Rightarrow> char \<Rightarrow> char \<Rightarrow> byte res" where
  "pack_byte_pair packer part1 part2 =
     rbind (packer part1) (\<lambda>hi. rbind (packer part2) (\<lambda>lo. Inr (push_bit 4 hi OR lo)))"

fun pack_chars :: "(char \<Rightarrow> byte res) \<Rightarrow> string \<Rightarrow> bytes res" where
  "pack_chars packer [] = Inr []"
| "pack_chars packer [c] = rmap (\<lambda>b. [b]) (pack_byte_pair packer c (CHR 0x00))"
| "pack_chars packer (c1 # c2 # cs) =
     rbind (pack_byte_pair packer c1 c2) (\<lambda>b. rmap ((#) b) (pack_chars packer cs))"

text \<open>The vector operations the packer uses, on the list of their lanes.\<close>

definition saturating_sub :: "byte \<Rightarrow> byte \<Rightarrow> byte" where
  "saturating_sub a b = (if a < b then 0 else a - b)"

definition swizzle_dyn :: "bytes \<Rightarrow> bytes \<Rightarrow> bytes" where
  "swizzle_dyn table idx = map (\<lambda>i. if unat i < length table then table ! unat i else 0) idx"

fun evens :: "'a list \<Rightarrow> 'a list" where
  "evens [] = []"
| "evens [x] = [x]"
| "evens (x # y # zs) = x # evens zs"

fun odds :: "'a list \<Rightarrow> 'a list" where
  "odds [] = []"
| "odds [x] = []"
| "odds (x # y # zs) = y # odds zs"

definition deinterleave :: "bytes \<Rightarrow> bytes \<Rightarrow> bytes \<times> bytes" where
  "deinterleave a b = (evens (a @ b), odds (a @ b))"

definition LOOKUP :: bytes where
  "LOOKUP = [10, 11, 255, 0, 1, 2, 3, 4, 5, 6, 7, 8, 9, 255, 255, 255]"

definition simd_nibbles :: "byte \<Rightarrow> bytes \<Rightarrow> bytes" where
  "simd_nibbles data_type input =
     (let nibbles =
        (if data_type = NIBBLE_8
         then swizzle_dyn LOOKUP (map (\<lambda>b. saturating_sub b 0x2D) input)
         else map (\<lambda>b. if b \<ge> 65 then b - 65 + 10 else b - 48) input)
      in if data_type = NIBBLE_8
         then map2 (\<lambda>b n. if b = 0 then 15 else n) input nibbles
         else nibbles)"

definition simd_pack :: "byte \<Rightarrow> bytes \<Rightarrow> bytes" where
  "simd_pack data_type chunk =
     (let nibbles = simd_nibbles data_type chunk;
          (ev, od) = deinterleave nibbles (rotate1 nibbles)
      in take 8 (map2 (\<lambda>e d. push_bit 4 e OR d) ev od))"

function simd_loop :: "byte \<Rightarrow> bytes \<Rightarrow> bytes \<times> bytes" where
  "simd_loop data_type bs =
     (if length bs \<ge> 16 then
        (let (out, rest) = simd_loop data_type (drop 16 bs)
         in (simd_pack data_type (take 16 bs) @ out, rest))
      else ([], bs))"
  by pat_completeness auto
termination by (relation "measure (\<lambda>(_, bs). length bs)") auto

declare simd_loop.simps [simp del]

definition packed_len_byte :: "nat \<Rightarrow> byte" where
  "packed_len_byte n =
     (let l = of_nat ((n + 1) div 2) in if n mod 2 \<noteq> 0 then l OR 0x80 else l)"

definition packer_of :: "byte \<Rightarrow> char \<Rightarrow> byte res" where
  "packer_of data_type = (if data_type = NIBBLE_8 then pack_nibble else pack_hex)"

definition write_packed_bytes :: "string \<Rightarrow> byte \<Rightarrow> bytes res" where
  "write_packed_bytes s data_type =
     (if length s > PACKED_MAX then Inl Panic
      else
        let (out, rest) = simd_loop data_type (as_bytes s) in
        seqw (Inr (write_u8 data_type @ write_u8 (packed_len_byte (length s)) @ out))
          (case from_utf8 rest of
             None \<Rightarrow> Throw InvalidUtf8
           | Some cs \<Rightarrow> pack_chars (packer_of data_type) cs))"

section \<open>Strings and JIDs\<close>

record parsed_jid =
  pj_user :: string
  pj_server :: string
  pj_domain_type :: byte
  pj_device :: "u16 option"

definition parse_jid :: "string \<Rightarrow> parsed_jid option" where
  "parse_jid input =
     (case split_once CHR ''@'' input of
        None \<Rightarrow> None
      | Some (user_combined, srv) \<Rightarrow>
          let (user_agent, dev) =
                (case split_once CHR '':'' user_combined of
                   Some (ua, device_part) \<Rightarrow>
                     (ua, if device_part = [] then None else parse_u16 device_part)
                 | None \<Rightarrow> (user_combined, None));
              (usr, agent_override) =
                (case split_once CHR ''_'' user_agent of
                   Some (u, agent_part) \<Rightarrow> (u, parse_u16 agent_part)
                 | None \<Rightarrow> (user_agent, None));
              agent_byte = ucast (unwrap_or 0 agent_override);
              domain_type =
                (if srv = HIDDEN_USER_SERVER then 1
                 else if srv = HOSTED_SERVER then 128
                 else if srv = ''hosted.lid'' then 129
                 else agent_byte)
          in Some \<lparr>pj_user = usr, pj_server = srv, pj_domain_type = domain_type, pj_device = dev\<rparr>)"

lemma split_once_length:
  "split_once c s = Some (a, b) \<Longrightarrow> length a < length s \<and> length b < length s"
  by (drule split_once_Some [THEN iffD1]) auto

lemma parse_jid_length:
  assumes "parse_jid s = Some j"
  shows "length (pj_user j) < length s \<and> length (pj_server j) < length s"
  using assms
  by (auto simp: parse_jid_def Let_def dest!: split_once_length split: option.splits prod.splits if_splits)

function (sequential) write_string :: "tokens \<Rightarrow> string \<Rightarrow> bytes res"
and write_jid :: "tokens \<Rightarrow> parsed_jid \<Rightarrow> bytes res" where
  "write_string tk s =
     (if s = [] then Inr (write_u8 BINARY_8 @ write_u8 0)
      else case index_of_single_token tk s of
        Some token \<Rightarrow> Inr (write_u8 token)
      | None \<Rightarrow>
          (case index_of_double_byte_token tk s of
             Some (dict, token) \<Rightarrow> Inr (write_u8 (DICTIONARY_0 + dict) @ write_u8 token)
           | None \<Rightarrow>
               if validate_nibble s then write_packed_bytes s NIBBLE_8
               else if validate_hex s then write_packed_bytes s HEX_8
               else (case parse_jid s of
                       Some j \<Rightarrow> write_jid tk j
                     | None \<Rightarrow> Inr (write_bytes_with_len (as_bytes s)))))"
| "write_jid tk j =
     (case pj_device j of
        Some dev \<Rightarrow>
          seqw (Inr (write_u8 AD_JID @ write_u8 (pj_domain_type j) @ write_u8 (ucast dev)))
            (write_string tk (pj_user j))
      | None \<Rightarrow>
          seqw (Inr (write_u8 JID_PAIR))
            (seqw (if pj_user j = [] then Inr (write_u8 LIST_EMPTY) else write_string tk (pj_user j))
               (write_string tk (pj_server j))))"
  by pat_completeness auto
termination
  by (relation "measure (\<lambda>x. case x of Inl (_, s) \<Rightarrow> 2 * length s
        | Inr (_, j) \<Rightarrow> 2 * max (length (pj_user j)) (length (pj_server j)) + 1)")
     (auto dest!: parse_jid_length simp: less_Suc_eq_le)

declare write_string.simps [simp del] write_jid.simps [simp del]

section \<open>Nodes\<close>

fun seqws :: "bytes res list \<Rightarrow> bytes res" where
  \<comment> \<open>the writes of a loop\<close>
  "seqws [] = Inr []"
| "seqws (r # rs) = seqw r (seqws rs)"

definition write_attributes :: "tokens \<Rightarrow> attrs \<Rightarrow> bytes res" where
  "write_attributes tk as = seqws (map (\<lambda>(k, v). seqw (write_string tk k) (write_string tk v)) as)"

fun write_node :: "tokens \<Rightarrow> node \<Rightarrow> bytes res"
and write_content :: "tokens \<Rightarrow> node_content \<Rightarrow> bytes res" where
  "write_node tk (Node t as c) =
     seqw (Inr (write_list_start (1 + length as * 2 + (if c \<noteq> None then 1 else 0))))
       (seqw (write_string tk t)
         (seqw (write_attributes tk as)
           (case c of Some x \<Rightarrow> write_content tk x | None \<Rightarrow> Inr [])))"
| "write_content tk (NString s) = write_string tk s"
| "write_content tk (NBytes bs) = Inr (write_bytes_with_len bs)"
| "write_content tk (NNodes ns) =
     seqw (Inr (write_list_start (length ns))) (seqws (map (write_node tk) ns))"

definition write_attributes_ref :: "tokens \<Rightarrow> attrs_ref \<Rightarrow> bytes res" where
  "write_attributes_ref tk as =
     seqws (map (\<lambda>(k, v). seqw (write_string tk k) (write_string tk (value_to_string v))) as)"

fun write_node_ref :: "tokens \<Rightarrow> node_ref \<Rightarrow> bytes res"
and write_content_ref :: "tokens \<Rightarrow> content_ref \<Rightarrow> bytes res" where
  "write_node_ref tk (NodeRef t as c) =
     seqw (Inr (write_list_start (1 + length as * 2 + (if c \<noteq> None then 1 else 0))))
       (seqw (write_string tk t)
         (seqw (write_attributes_ref tk as)
           (case c of Some x \<Rightarrow> write_content_ref tk x | None \<Rightarrow> Inr [])))"
| "write_content_ref tk (RString s) = write_string tk s"
| "write_content_ref tk (RBytes bs) = Inr (write_bytes_with_len bs)"
| "write_content_ref tk (RNodes ns) =
     seqw (Inr (write_list_start (length ns))) (seqws (map (write_node_ref tk) ns))"

section \<open>Vector packing computes scalar packing\<close>

lemma seqw_Inr [simp]: "seqw (Inr a) (Inr b) = Inr (a @ b)"
  by (simp add: seqw_def)

lemma seqw_eq_Inr: "seqw r1 r2 = Inr x \<longleftrightarrow> (\<exists>a b. r1 = Inr a \<and> r2 = Inr b \<and> x = a @ b)"
  by (auto simp: seqw_def rbind_eq_Inr)

lemma seqw_assoc: "seqw (seqw a b) c = seqw a (seqw b c)"
  by (cases a; cases b; cases c) (auto simp: seqw_def)

definition nibble_chars :: string where
  "nibble_chars = ''0123456789-.''"

definition hex_chars :: string where
  "hex_chars = ''0123456789ABCDEF''"

definition pack_alphabet :: "byte \<Rightarrow> string" where
  "pack_alphabet dt = (if dt = NIBBLE_8 then nibble_chars else hex_chars)"

definition nibble_value :: "byte \<Rightarrow> char \<Rightarrow> byte" where
  \<comment> \<open>the value of a character of the alphabet, and the padding for the rest\<close>
  "nibble_value dt c = (case packer_of dt c of Inr b \<Rightarrow> b | Inl _ \<Rightarrow> 15)"

lemma char_range:
  assumes "a \<le> (of_char c :: nat)" and "(of_char c :: nat) \<le> b"
  shows "c \<in> char_of ` set [a..<Suc b]"
proof
  show "c = char_of (of_char c :: nat)" by simp
qed (use assms in auto)

lemma is_digit_set: "is_digit c \<longleftrightarrow> c \<in> set ''0123456789''"
proof
  assume "is_digit c"
  then have "c \<in> char_of ` set [48..<Suc 57]"
    unfolding is_digit_def using char_range by blast
  then show "c \<in> set ''0123456789''"
    by (simp add: upt_rec char_of_def bit_0)
qed (auto simp: is_digit_def)

lemma is_hex_upper_set: "is_hex_upper c \<longleftrightarrow> c \<in> set ''ABCDEF''"
proof
  assume "is_hex_upper c"
  then have "c \<in> char_of ` set [65..<Suc 70]"
    unfolding is_hex_upper_def using char_range by blast
  then show "c \<in> set ''ABCDEF''"
    by (simp add: upt_rec char_of_def bit_0)
qed (auto simp: is_hex_upper_def)

lemma nibble_chars_iff: "is_digit c \<or> c = CHR ''-'' \<or> c = CHR ''.'' \<longleftrightarrow> c \<in> set nibble_chars"
  by (simp add: is_digit_set nibble_chars_def disj_assoc)

lemma hex_chars_iff: "is_hex_upper c \<or> is_digit c \<longleftrightarrow> c \<in> set hex_chars"
  unfolding is_digit_set is_hex_upper_set hex_chars_def by (simp add: disj_ac)

lemma validate_nibble_alt:
  "validate_nibble s \<longleftrightarrow> length s \<le> PACKED_MAX \<and> set s \<subseteq> set (pack_alphabet NIBBLE_8)"
  by (simp only: validate_nibble_def nibble_chars_iff list_all_iff pack_alphabet_def subset_iff
      simp_thms if_True Ball_def)

lemma validate_hex_alt:
  "validate_hex s \<longleftrightarrow> length s \<le> PACKED_MAX \<and> set s \<subseteq> set (pack_alphabet HEX_8)"
proof -
  have "pack_alphabet HEX_8 = hex_chars" by (simp add: pack_alphabet_def tag_defs)
  then show ?thesis
    by (simp only: validate_hex_def hex_chars_iff list_all_iff subset_iff Ball_def)
qed

lemma pack_alphabet_cases:
  obtains "dt = NIBBLE_8" "pack_alphabet dt = nibble_chars" | "dt \<noteq> NIBBLE_8" "pack_alphabet dt = hex_chars"
  by (cases "dt = NIBBLE_8") (auto simp: pack_alphabet_def)

lemma nibble_lane:
  "\<forall>c \<in> set nibble_chars. \<exists>b. pack_nibble c = Inr b \<and> b < 16 \<and> of_char c < (128 :: nat)
     \<and> simd_nibbles NIBBLE_8 [byte_of_char c] = [b]"
  by (simp add: nibble_chars_def pack_nibble_def is_digit_def byte_of_char_def simd_nibbles_def
      swizzle_dyn_def saturating_sub_def LOOKUP_def)

lemma hex_lane:
  "dt \<noteq> NIBBLE_8 \<Longrightarrow> \<forall>c \<in> set hex_chars. \<exists>b. pack_hex c = Inr b \<and> b < 16 \<and> of_char c < (128 :: nat)
     \<and> simd_nibbles dt [byte_of_char c] = [b]"
  by (simp add: hex_chars_def pack_hex_def is_digit_def is_hex_upper_def byte_of_char_def
      simd_nibbles_def)

lemma packer_alphabet:
  assumes "c \<in> set (pack_alphabet dt)"
  shows "packer_of dt c = Inr (nibble_value dt c)"
    and "nibble_value dt c < 16"
    and "simd_nibbles dt [byte_of_char c] = [nibble_value dt c]"
    and "of_char c < (128 :: nat)"
proof -
  obtain b where "packer_of dt c = Inr b" "b < 16" "of_char c < (128 :: nat)"
    "simd_nibbles dt [byte_of_char c] = [b]"
    using assms nibble_lane hex_lane [of dt]
    by (cases rule: pack_alphabet_cases [of dt]) (fastforce simp: packer_of_def)+
  then show "packer_of dt c = Inr (nibble_value dt c)" "nibble_value dt c < 16"
    "simd_nibbles dt [byte_of_char c] = [nibble_value dt c]" "of_char c < (128 :: nat)"
    by (simp_all add: nibble_value_def)
qed

fun pack_pairs :: "bytes \<Rightarrow> bytes" where
  \<comment> \<open>two nibbles per byte, the last one padded\<close>
  "pack_pairs [] = []"
| "pack_pairs [x] = [push_bit 4 x OR 15]"
| "pack_pairs (x # y # zs) = (push_bit 4 x OR y) # pack_pairs zs"

lemma packer_pad: "packer_of dt (CHR 0x00) = Inr 15"
  by (simp add: packer_of_def pack_nibble_def pack_hex_def is_digit_def is_hex_upper_def)

lemma pack_chars_ref:
  "set s \<subseteq> set (pack_alphabet dt) \<Longrightarrow>
   pack_chars (packer_of dt) s = Inr (pack_pairs (map (nibble_value dt) s))"
  by (induction "packer_of dt" s rule: pack_chars.induct)
     (simp_all add: pack_byte_pair_def packer_alphabet packer_pad)

lemma pack_pairs_append:
  "even (length xs) \<Longrightarrow> pack_pairs (xs @ ys) = pack_pairs xs @ pack_pairs ys"
  by (induction xs rule: pack_pairs.induct) simp_all

lemma length_pack_pairs: "length (pack_pairs xs) = (length xs + 1) div 2"
  by (induction xs rule: pack_pairs.induct) simp_all

lemma evens_append: "even (length xs) \<Longrightarrow> evens (xs @ ys) = evens xs @ evens ys"
  by (induction xs rule: evens.induct) simp_all

lemma odds_append: "even (length xs) \<Longrightarrow> odds (xs @ ys) = odds xs @ odds ys"
  by (induction xs rule: odds.induct) simp_all

lemma length_evens_odds:
  "even (length xs) \<Longrightarrow> length (evens xs) = length xs div 2 \<and> length (odds xs) = length xs div 2"
  by (induction xs rule: evens.induct) simp_all

lemma map2_evens_odds:
  "even (length xs) \<Longrightarrow> map2 (\<lambda>e d. push_bit 4 e OR d) (evens xs) (odds xs) = pack_pairs xs"
  by (induction xs rule: pack_pairs.induct) simp_all

lemma map2_same: "map2 f xs (map g xs) = map (\<lambda>x. f x (g x)) xs"
  by (induction xs) simp_all

lemma simd_nibbles_lanes: "simd_nibbles dt bs = map (\<lambda>b. hd (simd_nibbles dt [b])) bs"
  by (simp add: simd_nibbles_def swizzle_dyn_def map2_same)

lemma simd_nibbles_alphabet:
  assumes "set s \<subseteq> set (pack_alphabet dt)"
  shows "simd_nibbles dt (as_bytes s) = map (nibble_value dt) s"
proof -
  have "c \<in> set s \<Longrightarrow> hd (simd_nibbles dt [byte_of_char c]) = nibble_value dt c" for c
    using assms packer_alphabet(3) by auto
  then show ?thesis
    by (subst simd_nibbles_lanes) (simp add: as_bytes_def)
qed

lemma simd_pack_ref:
  assumes "set s \<subseteq> set (pack_alphabet dt)" and len: "length s = 16"
  shows "simd_pack dt (as_bytes s) = pack_pairs (map (nibble_value dt) s)"
proof -
  define ns where "ns = map (nibble_value dt) s"
  have e: "even (length ns)" "length ns = 16"
    using len by (simp_all add: ns_def)
  then have "length (evens ns) = 8" "length (odds ns) = 8"
    using length_evens_odds [OF e(1)] by simp_all
  then show ?thesis
    using e simd_nibbles_alphabet [OF assms(1)] map2_evens_odds [OF e(1)]
    by (simp add: simd_pack_def deinterleave_def evens_append odds_append length_pack_pairs flip: ns_def)
qed

lemma simd_loop_ref:
  "set s \<subseteq> set (pack_alphabet dt) \<Longrightarrow>
   \<exists>s1 s2. s = s1 @ s2 \<and> even (length s1)
     \<and> simd_loop dt (as_bytes s) = (pack_pairs (map (nibble_value dt) s1), as_bytes s2)"
proof (induction "length s" arbitrary: s rule: less_induct)
  case less
  show ?case
  proof (cases "length s \<ge> 16")
    case True
    define t u where "t = take 16 s" and "u = drop 16 s"
    have s: "s = t @ u" and t: "length t = 16"
      using True by (simp_all add: t_def u_def)
    then have "length u < length s" and al: "set t \<subseteq> set (pack_alphabet dt)" "set u \<subseteq> set (pack_alphabet dt)"
      using less.prems by auto
    then obtain s1 s2 where u: "u = s1 @ s2" "even (length s1)"
      and loop: "simd_loop dt (as_bytes u) = (pack_pairs (map (nibble_value dt) s1), as_bytes s2)"
      using less.hyps by blast
    have "take 16 (as_bytes s) = as_bytes t" "drop 16 (as_bytes s) = as_bytes u"
      using s t by simp_all
    then have "simd_loop dt (as_bytes s) = (pack_pairs (map (nibble_value dt) (t @ s1)), as_bytes s2)"
      using True t loop simd_pack_ref [OF al(1) t]
      by (subst simd_loop.simps) (simp add: pack_pairs_append)
    moreover have "s = (t @ s1) @ s2" "even (length (t @ s1))"
      using s t u by simp_all
    ultimately show ?thesis
      by blast
  qed (auto intro: exI [of _ "[]"] simp: simd_loop.simps [of dt "as_bytes s"])
qed

lemma alphabet_utf8:
  "set s \<subseteq> set (pack_alphabet dt) \<Longrightarrow> from_utf8 (as_bytes s) = Some s"
  using packer_alphabet(4) by (intro from_utf8_as_bytes str_ok_ascii) blast

lemma write_packed_ref:
  assumes "set s \<subseteq> set (pack_alphabet dt)" and "length s \<le> PACKED_MAX"
  shows "write_packed_bytes s dt
           = Inr (dt # packed_len_byte (length s) # pack_pairs (map (nibble_value dt) s))"
proof -
  obtain s1 s2 where s: "s = s1 @ s2" "even (length s1)"
    and loop: "simd_loop dt (as_bytes s) = (pack_pairs (map (nibble_value dt) s1), as_bytes s2)"
    using simd_loop_ref [OF assms(1)] by blast
  have "set s2 \<subseteq> set (pack_alphabet dt)"
    using assms(1) s by simp
  with s loop assms(2) show ?thesis
    by (simp add: write_packed_bytes_def alphabet_utf8 pack_chars_ref pack_pairs_append write_u8_def
        del: as_bytes_simps)
qed

section \<open>Encoding never fails\<close>

lemma seqw_total: "\<exists>a. r1 = Inr a \<Longrightarrow> \<exists>b. r2 = Inr b \<Longrightarrow> \<exists>x. seqw r1 r2 = Inr x"
  by auto

lemma seqws_total: "\<forall>r \<in> set rs. \<exists>a. r = Inr a \<Longrightarrow> \<exists>x. seqws rs = Inr x"
  by (induction rs) (auto intro!: seqw_total)

lemma write_string_total:
  "\<exists>bs. write_string tk s = Inr bs"
  "\<exists>bs. write_jid tk j = Inr bs"
proof (induction tk s and tk j rule: write_string_write_jid.induct)
  case (1 tk s)
  show ?case
    using 1 write_packed_ref [of s NIBBLE_8] write_packed_ref [of s HEX_8]
    by (auto simp: write_string.simps [of tk s] validate_nibble_alt validate_hex_alt split: option.split)
next
  case (2 tk j)
  then show ?case
    by (auto simp: write_jid.simps split: option.split intro!: seqw_total)
qed

lemma write_attributes_total: "\<exists>bs. write_attributes tk as = Inr bs"
  unfolding write_attributes_def
  by (rule seqws_total) (auto intro!: seqw_total write_string_total)

lemma write_node_total:
  "\<exists>bs. write_node tk n = Inr bs"
  "\<exists>bs. write_content tk c = Inr bs"
proof (induction tk n and tk c rule: write_node_write_content.induct)
  case (1 tk t as c)
  then show ?case
    by (auto intro!: seqw_total write_string_total write_attributes_total split: option.split)
next
  case (4 tk ns)
  then show ?case
    by (auto intro!: seqw_total seqws_total)
qed (simp_all add: write_string_total)

lemma write_attributes_ref_owned:
  "write_attributes_ref tk as = write_attributes tk (map (\<lambda>(k, v). (k, value_to_string v)) as)"
  by (simp add: write_attributes_ref_def write_attributes_def comp_def case_prod_unfold)

fun ref_attrs_ok :: "node_ref \<Rightarrow> bool"
and ref_contents_ok :: "content_ref \<Rightarrow> bool" where
  "ref_attrs_ok (NodeRef t as c) \<longleftrightarrow>
     attrs_ok as \<and> (case c of None \<Rightarrow> True | Some x \<Rightarrow> ref_contents_ok x)"
| "ref_contents_ok (RBytes b) \<longleftrightarrow> True"
| "ref_contents_ok (RString s) \<longleftrightarrow> True"
| "ref_contents_ok (RNodes ns) \<longleftrightarrow> list_all ref_attrs_ok ns"

lemma write_node_ref_owned:
  "ref_attrs_ok r \<Longrightarrow> write_node_ref tk r = write_node tk (node_to_owned r)"
  "ref_contents_ok c \<Longrightarrow> write_content_ref tk c = write_content tk (content_to_owned c)"
proof (induction tk r and tk c rule: write_node_ref_write_content_ref.induct)
  case (1 tk t as c)
  then have "attrs_ok (map (\<lambda>(k, v). (k, value_to_string v)) as)"
    by (simp add: attrs_ok_def comp_def case_prod_beta)
  with 1 show ?case
    by (auto simp: write_attributes_ref_owned split: option.split)
next
  case (4 tk ns)
  then have "map (write_node_ref tk) ns = map (write_node tk) (map node_to_owned ns)"
    by (simp add: list_all_iff)
  then show ?case
    by (simp only: write_content_ref.simps content_to_owned.simps write_content.simps length_map)
qed simp_all

section \<open>Properties\<close>

text \<open>C14: For every string that the encoder accepts for packing, packing sixteen
  characters at a time with vector lanes (saturating subtraction and a table lookup for digits,
  wrapping subtraction and a select for hexadecimal) and the rest one pair at a time writes the
  same bytes as packing every pair with the scalar packer, and neither panics.\<close>

theorem packing_vector_scalar:
  assumes "dt = NIBBLE_8 \<and> validate_nibble s \<or> dt = HEX_8 \<and> validate_hex s"
  shows "\<exists>bs. pack_chars (packer_of dt) s = Inr bs \<and> length bs = (length s + 1) div 2
           \<and> write_packed_bytes s dt = Inr (dt # packed_len_byte (length s) # bs)"
  using assms
  by (auto simp: validate_nibble_alt validate_hex_alt pack_chars_ref write_packed_ref length_pack_pairs)

theorem packing_vector_scalar_witness:
  "\<exists>bs. pack_chars (packer_of HEX_8) ''3EB0C431C26A1916E07'' = Inr bs \<and> length bs = 10
      \<and> write_packed_bytes ''3EB0C431C26A1916E07'' HEX_8
          = Inr (HEX_8 # packed_len_byte 19 # bs)"
proof -
  have "validate_hex ''3EB0C431C26A1916E07''" and "length ''3EB0C431C26A1916E07'' = 19"
    by (simp_all add: validate_hex_def PACKED_MAX_def is_hex_upper_def is_digit_def)
  with packing_vector_scalar [of HEX_8 "''3EB0C431C26A1916E07''"] show ?thesis
    by (simp only: simp_thms) simp
qed

end
