(* ===== verification/Decoder.thy ===== *)
theory Decoder
  imports Encoder
begin

text \<open>
  The binary decoder (\<^verbatim>\<open>warp_core/binary/src/decoder.rs\<close>). A read operation takes the
  decoder and returns the value with the decoder moved past it, or an error. The recursion of
  nested JIDs and nested nodes carries fuel; every level reads a tag first, so that one more
  than the number of bytes left is always enough, which the theory proves.
\<close>

section \<open>Reading numbers and byte strings\<close>

record decoder =
  data :: bytes
  position :: nat

type_synonym 'a reader = "decoder \<Rightarrow> ('a \<times> decoder) res"

definition decoder_new :: "bytes \<Rightarrow> decoder" where
  "decoder_new bs = \<lparr>data = bs, position = 0\<rparr>"

definition is_finished :: "decoder \<Rightarrow> bool" where
  "is_finished d \<longleftrightarrow> position d \<ge> length (data d)"

definition bytes_left :: "decoder \<Rightarrow> nat" where
  "bytes_left d = length (data d) - position d"

definition check_eos :: "nat \<Rightarrow> decoder \<Rightarrow> unit res" where
  "check_eos len d = (if bytes_left d \<ge> len then Inr () else Throw UnexpectedEof)"

definition advance :: "nat \<Rightarrow> decoder \<Rightarrow> decoder" where
  "advance n d = d\<lparr>position := position d + n\<rparr>"

definition read_u8 :: "byte reader" where
  "read_u8 d = rbind (check_eos 1 d) (\<lambda>_. Inr (data d ! position d, advance 1 d))"

definition read_u16_be :: "u16 reader" where
  "read_u16_be d =
     rbind (check_eos 2 d) (\<lambda>_.
       Inr (u16_from_be (data d ! position d) (data d ! (position d + 1)), advance 2 d))"

definition read_u20_be :: "u32 reader" where
  "read_u20_be d =
     rbind (check_eos 3 d) (\<lambda>_.
       let b0 = data d ! position d; b1 = data d ! (position d + 1); b2 = data d ! (position d + 2)
       in Inr (push_bit 16 (ucast b0 AND 0x0F) OR push_bit 8 (ucast b1) OR ucast b2, advance 3 d))"

definition read_u32_be :: "u32 reader" where
  "read_u32_be d =
     rbind (check_eos 4 d) (\<lambda>_.
       Inr (u32_from_be (data d ! position d) (data d ! (position d + 1))
              (data d ! (position d + 2)) (data d ! (position d + 3)), advance 4 d))"

definition read_bytes :: "nat \<Rightarrow> bytes reader" where
  "read_bytes len d =
     rbind (check_eos len d) (\<lambda>_. Inr (take len (drop (position d) (data d)), advance len d))"

definition read_string :: "nat \<Rightarrow> string reader" where
  "read_string len d =
     rbind (read_bytes len d) (\<lambda>(bs, d).
       case from_utf8 bs of Some s \<Rightarrow> Inr (s, d) | None \<Rightarrow> Throw InvalidUtf8)"

definition read_list_size :: "byte \<Rightarrow> nat reader" where
  "read_list_size t d =
     (if t = LIST_EMPTY then Inr (0, d)
      else if t = 248 then rmap (\<lambda>(v, d). (unat v, d)) (read_u8 d)
      else if t = 249 then rmap (\<lambda>(v, d). (unat v, d)) (read_u16_be d)
      else Throw (InvalidToken t))"

section \<open>Packed strings\<close>

definition unpack_byte :: "byte \<Rightarrow> byte \<Rightarrow> byte res" where
  \<comment> \<open>the character as the byte that is pushed\<close>
  "unpack_byte t v =
     (if t = NIBBLE_8 then
        (if v \<le> 9 then Inr (48 + v)
         else if v = 10 then Inr 45
         else if v = 11 then Inr 46
         else if v = 15 then Inr 0
         else Throw (InvalidToken v))
      else if t = HEX_8 then
        (if v \<le> 9 then Inr (48 + v)
         else if 10 \<le> v \<and> v \<le> 15 then Inr (65 + v - 10)
         else Throw (InvalidToken v))
      else Throw (InvalidToken t))"

fun unpack_bytes :: "byte \<Rightarrow> bytes \<Rightarrow> bytes res" where
  "unpack_bytes t [] = Inr []"
| "unpack_bytes t (b # bs) =
     rbind (unpack_byte t (drop_bit 4 (b AND 0xF0))) (\<lambda>hi.
       rbind (unpack_byte t (b AND 0x0F)) (\<lambda>lo.
         rmap (\<lambda>r. hi # lo # r) (unpack_bytes t bs)))"

fun check_chunk :: "byte \<Rightarrow> bytes \<Rightarrow> bytes res" where
  \<comment> \<open>the scalar loop after a failed vector check; falling through is \<open>unreachable!\<close>\<close>
  "check_chunk t [] = Inl Panic"
| "check_chunk t (b # bs) =
     rbind (unpack_byte t (drop_bit 4 (b AND 0xF0))) (\<lambda>_.
       rbind (unpack_byte t (b AND 0x0F)) (\<lambda>_. check_chunk t bs))"

definition unpack_table :: "byte \<Rightarrow> bytes" where
  "unpack_table t =
     (if t = NIBBLE_8 then as_bytes ''0123456789-.'' @ [0, 0, 0, 0]
      else as_bytes ''0123456789ABCDEF'')"

fun interleave :: "'a list \<Rightarrow> 'a list \<Rightarrow> 'a list" where
  "interleave (x # xs) (y # ys) = x # y # interleave xs ys"
| "interleave _ _ = []"

definition simd_unpack :: "byte \<Rightarrow> bytes \<Rightarrow> bytes res" where
  "simd_unpack t chunk =
     (let high = map (\<lambda>b. drop_bit 4 b AND 0x0F) chunk;
          low = map (\<lambda>b. b AND 0x0F) chunk;
          valid = (\<lambda>v. v \<le> 11 \<or> v = 15)
      in if t = NIBBLE_8 \<and> \<not> list_all (\<lambda>(h, l). valid h \<and> valid l) (zip high low)
         then check_chunk t chunk
         else Inr (interleave (swizzle_dyn (unpack_table t) high) (swizzle_dyn (unpack_table t) low)))"

function unpack_chunks :: "byte \<Rightarrow> bytes \<Rightarrow> bytes res" where
  "unpack_chunks t bs =
     (if length bs \<ge> 16
      then rbind (simd_unpack t (take 16 bs)) (\<lambda>out. rmap ((@) out) (unpack_chunks t (drop 16 bs)))
      else unpack_bytes t bs)"
  by pat_completeness auto
termination by (relation "measure (\<lambda>(_, bs). length bs)") auto

declare unpack_chunks.simps [simp del]

definition read_packed :: "byte \<Rightarrow> string reader" where
  "read_packed t d =
     rbind (read_u8 d) (\<lambda>(len_byte, d).
       let is_half_byte = (len_byte AND 0x80 \<noteq> 0); len = unat (len_byte AND 0x7F) in
       if len = 0 then Inr ([], d)
       else rbind (read_bytes len d) (\<lambda>(packed, d).
         rbind (unpack_chunks t packed) (\<lambda>unpacked.
           case from_utf8 (if is_half_byte then butlast unpacked else unpacked) of
             Some s \<Rightarrow> Inr (s, d)
           | None \<Rightarrow> Throw InvalidUtf8)))"

section \<open>Strings, JIDs and values\<close>

text \<open>The JID readers take the reader of the strings inside them as an argument.\<close>

definition read_jid_pair :: "string option reader \<Rightarrow> jid reader" where
  "read_jid_pair rv d =
     rbind (rv d) (\<lambda>(user_val, d).
       rbind (rv d) (\<lambda>(server_val, d).
         Inr (\<lparr>user = unwrap_or [] user_val, server = unwrap_or [] server_val,
               agent = 0, device = 0, integrator = 0\<rparr>, d)))"

definition ad_server :: "byte \<Rightarrow> string" where
  "ad_server a =
     (if a = 0 then DEFAULT_USER_SERVER else if a = 1 then HIDDEN_USER_SERVER else HOSTED_SERVER)"

definition read_ad_jid :: "string option reader \<Rightarrow> jid reader" where
  "read_ad_jid rv d =
     rbind (read_u8 d) (\<lambda>(ag, d).
       rbind (read_u8 d) (\<lambda>(dev, d).
         rbind (rv d) (\<lambda>(usr, d).
           rbind (ok_or usr InvalidNode) (\<lambda>usr.
             Inr (\<lparr>user = usr, server = ad_server ag, agent = ag, device = ucast dev,
                   integrator = 0\<rparr>, d)))))"

definition read_interop_jid :: "string option reader \<Rightarrow> jid reader" where
  "read_interop_jid rv d =
     rbind (rv d) (\<lambda>(usr, d).
       rbind (ok_or usr InvalidNode) (\<lambda>usr.
         rbind (read_u16_be d) (\<lambda>(dev, d).
           rbind (read_u16_be d) (\<lambda>(int, d).
             rbind (rv d) (\<lambda>(srv, d).
               let srv = unwrap_or [] srv in
               if srv \<noteq> INTEROP_SERVER then Throw InvalidNode
               else Inr (\<lparr>user = usr, server = srv, agent = 0, device = dev, integrator = int\<rparr>, d))))))"

definition read_fb_jid :: "string option reader \<Rightarrow> jid reader" where
  "read_fb_jid rv d =
     rbind (rv d) (\<lambda>(usr, d).
       rbind (ok_or usr InvalidNode) (\<lambda>usr.
         rbind (read_u16_be d) (\<lambda>(dev, d).
           rbind (rv d) (\<lambda>(srv, d).
             let srv = unwrap_or [] srv in
             if srv \<noteq> MESSENGER_SERVER then Throw InvalidNode
             else Inr (\<lparr>user = usr, server = srv, agent = 0, device = dev, integrator = 0\<rparr>, d)))))"

definition read_value_with :: "tokens \<Rightarrow> string option reader \<Rightarrow> value_ref option reader" where
  "read_value_with tk rv d =
     rbind (read_u8 d) (\<lambda>(t, d).
       if t = LIST_EMPTY then Inr (None, d)
       else if t = BINARY_8 then
         rbind (read_u8 d) (\<lambda>(sz, d).
           rmap (\<lambda>(s, d). (Some (VString s), d)) (read_string (unat sz) d))
       else if t = BINARY_20 then
         rbind (read_u20_be d) (\<lambda>(sz, d).
           rmap (\<lambda>(s, d). (Some (VString s), d)) (read_string (unat sz) d))
       else if t = BINARY_32 then
         rbind (read_u32_be d) (\<lambda>(sz, d).
           rmap (\<lambda>(s, d). (Some (VString s), d)) (read_string (unat sz) d))
       else if t = JID_PAIR then rmap (\<lambda>(j, d). (Some (VJid j), d)) (read_jid_pair rv d)
       else if t = AD_JID then rmap (\<lambda>(j, d). (Some (VJid j), d)) (read_ad_jid rv d)
       else if t = INTEROP_JID then rmap (\<lambda>(j, d). (Some (VJid j), d)) (read_interop_jid rv d)
       else if t = FB_JID then rmap (\<lambda>(j, d). (Some (VJid j), d)) (read_fb_jid rv d)
       else if t = NIBBLE_8 \<or> t = HEX_8 then
         rmap (\<lambda>(s, d). (Some (VString s), d)) (read_packed t d)
       else if DICTIONARY_0 \<le> t \<and> t \<le> DICTIONARY_3 then
         rbind (read_u8 d) (\<lambda>(index, d).
           rmap (\<lambda>s. (Some (VString s), d))
             (ok_or (get_double_token tk (t - DICTIONARY_0) index) (InvalidToken t)))
       else rmap (\<lambda>s. (Some (VString s), d)) (ok_or (get_single_token tk t) (InvalidToken t)))"

fun read_value_as_string_fuel :: "tokens \<Rightarrow> nat \<Rightarrow> string option reader" where
  "read_value_as_string_fuel tk 0 d = Inl Diverge"
| "read_value_as_string_fuel tk (Suc n) d =
     rbind (read_u8 d) (\<lambda>(t, d).
       if t = LIST_EMPTY then Inr (None, d)
       else if t = BINARY_8 then
         rbind (read_u8 d) (\<lambda>(sz, d). rmap (\<lambda>(s, d). (Some s, d)) (read_string (unat sz) d))
       else if t = BINARY_20 then
         rbind (read_u20_be d) (\<lambda>(sz, d). rmap (\<lambda>(s, d). (Some s, d)) (read_string (unat sz) d))
       else if t = BINARY_32 then
         rbind (read_u32_be d) (\<lambda>(sz, d). rmap (\<lambda>(s, d). (Some s, d)) (read_string (unat sz) d))
       else if t = JID_PAIR then
         rmap (\<lambda>(j, d). (Some (jid_to_string j), d)) (read_jid_pair (read_value_as_string_fuel tk n) d)
       else if t = AD_JID then
         rmap (\<lambda>(j, d). (Some (jid_to_string j), d)) (read_ad_jid (read_value_as_string_fuel tk n) d)
       else if t = INTEROP_JID then
         rmap (\<lambda>(j, d). (Some (jid_to_string j), d)) (read_interop_jid (read_value_as_string_fuel tk n) d)
       else if t = FB_JID then
         rmap (\<lambda>(j, d). (Some (jid_to_string j), d)) (read_fb_jid (read_value_as_string_fuel tk n) d)
       else if t = NIBBLE_8 \<or> t = HEX_8 then
         rmap (\<lambda>(s, d). (Some s, d)) (read_packed t d)
       else if DICTIONARY_0 \<le> t \<and> t \<le> DICTIONARY_3 then
         rbind (read_u8 d) (\<lambda>(index, d).
           rmap (\<lambda>s. (Some s, d))
             (ok_or (get_double_token tk (t - DICTIONARY_0) index) (InvalidToken t)))
       else rmap (\<lambda>s. (Some s, d)) (ok_or (get_single_token tk t) (InvalidToken t)))"

declare read_value_as_string_fuel.simps [simp del]

definition read_value_as_string :: "tokens \<Rightarrow> string option reader" where
  "read_value_as_string tk d = read_value_as_string_fuel tk (Suc (bytes_left d)) d"

definition read_value :: "tokens \<Rightarrow> value_ref option reader" where
  "read_value tk d = read_value_with tk (read_value_as_string tk) d"

section \<open>Nodes\<close>

fun read_attributes :: "tokens \<Rightarrow> nat \<Rightarrow> attrs_ref reader" where
  "read_attributes tk 0 d = Inr ([], d)"
| "read_attributes tk (Suc sz) d =
     rbind (read_value_as_string tk d) (\<lambda>(k, d).
       rbind (ok_or k NonStringKey) (\<lambda>key.
         rbind (read_value tk d) (\<lambda>(v, d).
           rmap (\<lambda>(as, d). ((key, unwrap_or (VString []) v) # as, d)) (read_attributes tk sz d))))"

fun read_nodes :: "node_ref reader \<Rightarrow> nat \<Rightarrow> node_ref list reader" where
  "read_nodes rn 0 d = Inr ([], d)"
| "read_nodes rn (Suc sz) d =
     rbind (rn d) (\<lambda>(n, d). rmap (\<lambda>(ns, d). (n # ns, d)) (read_nodes rn sz d))"

definition read_content :: "tokens \<Rightarrow> node_ref reader \<Rightarrow> content_ref option reader" where
  "read_content tk rn d0 =
     rbind (read_u8 d0) (\<lambda>(t, d).
       if t = LIST_EMPTY then Inr (None, d)
       else if t = LIST_8 \<or> t = LIST_16 then
         rbind (read_list_size t d) (\<lambda>(sz, d).
           rmap (\<lambda>(ns, d). (Some (RNodes ns), d)) (read_nodes rn sz d))
       else if t = BINARY_8 then
         rbind (read_u8 d) (\<lambda>(len, d).
           rmap (\<lambda>(bs, d). (Some (RBytes bs), d)) (read_bytes (unat len) d))
       else if t = BINARY_20 then
         rbind (read_u20_be d) (\<lambda>(len, d).
           rmap (\<lambda>(bs, d). (Some (RBytes bs), d)) (read_bytes (unat len) d))
       else if t = BINARY_32 then
         rbind (read_u32_be d) (\<lambda>(len, d).
           rmap (\<lambda>(bs, d). (Some (RBytes bs), d)) (read_bytes (unat len) d))
       else
         let d = d\<lparr>position := position d - 1\<rparr> in
         rmap (\<lambda>(s, d). (map_option RString s, d)) (read_value_as_string tk d))"

fun read_node_fuel :: "tokens \<Rightarrow> nat \<Rightarrow> node_ref reader" where
  "read_node_fuel tk 0 d = Inl Diverge"
| "read_node_fuel tk (Suc n) d =
     rbind (read_u8 d) (\<lambda>(t, d).
       rbind (read_list_size t d) (\<lambda>(list_size, d).
         if list_size = 0 then Throw InvalidNode
         else rbind (read_value_as_string tk d) (\<lambda>(tg, d).
           rbind (ok_or tg InvalidNode) (\<lambda>tg.
             rbind (read_attributes tk ((list_size - 1) div 2) d) (\<lambda>(as, d).
               rbind (if list_size mod 2 = 0 then read_content tk (read_node_fuel tk n) d
                      else Inr (None, d)) (\<lambda>(c, d).
                 Inr (NodeRef tg as c, d)))))))"

declare read_node_fuel.simps [simp del]

definition read_node_ref :: "tokens \<Rightarrow> node_ref reader" where
  "read_node_ref tk d = read_node_fuel tk (Suc (bytes_left d)) d"

section \<open>Vector unpacking computes scalar unpacking\<close>

lemma nibble_cases: "v < (16 :: byte) \<Longrightarrow> v \<in> {0, 1, 2, 3, 4, 5, 6, 7, 8, 9, 10, 11, 12, 13, 14, 15}"
proof -
  assume "v < 16"
  then have "unat v < 16"
    by (simp add: word_less_nat_alt)
  then have "unat v \<in> set [0..<16]"
    by simp
  then have "(of_nat (unat v) :: byte) \<in> of_nat ` set [0..<16]"
    by (rule imageI)
  then show ?thesis
    by (simp add: upt_rec)
qed

lemma and_15_less: "(b :: byte) AND 15 < 16"
proof -
  have "b AND 15 = take_bit 4 b"
    by (simp add: take_bit_eq_mask mask_eq_exp_minus_1)
  then show ?thesis
    using take_bit_nat_less_exp [of 4 "unat b"]
    by (simp add: word_less_nat_alt unsigned_take_bit_eq)
qed

lemma high_nibble: "drop_bit 4 ((b :: byte) AND 0xF0) = drop_bit 4 b AND 15"
proof -
  have "drop_bit 4 (b AND 0xF0) = drop_bit 4 b AND drop_bit 4 0xF0"
    by (rule bit_word_eqI) (simp add: bit_simps)
  then show ?thesis by simp
qed

definition nibble_valid :: "byte \<Rightarrow> byte \<Rightarrow> bool" where
  "nibble_valid t v \<longleftrightarrow> t = HEX_8 \<or> v \<le> 11 \<or> v = 15"

lemma unpack_table_nibbles:
  "unpack_table NIBBLE_8 = [48, 49, 50, 51, 52, 53, 54, 55, 56, 57, 45, 46, 0, 0, 0, 0]"
  "unpack_table HEX_8 = [48, 49, 50, 51, 52, 53, 54, 55, 56, 57, 65, 66, 67, 68, 69, 70]"
  by (simp_all add: unpack_table_def tag_defs byte_of_char_def)

lemma unpack_nibble:
  assumes "v < 16" and "t = NIBBLE_8 \<or> t = HEX_8"
  shows "unpack_byte t v =
     (if nibble_valid t v then Inr (unpack_table t ! unat v) else Throw (InvalidToken v))"
proof -
  let ?P = "\<lambda>t v. unpack_byte t v =
     (if nibble_valid t v then Inr (unpack_table t ! unat v) else Throw (InvalidToken v))"
  have "\<forall>v \<in> {0, 1, 2, 3, 4, 5, 6, 7, 8, 9, 10, 11, 12, 13, 14, 15}. ?P NIBBLE_8 v"
    unfolding unpack_table_nibbles unpack_byte_def nibble_valid_def by (simp add: tag_defs)
  moreover have "\<forall>v \<in> {0, 1, 2, 3, 4, 5, 6, 7, 8, 9, 10, 11, 12, 13, 14, 15}. ?P HEX_8 v"
    unfolding unpack_table_nibbles unpack_byte_def nibble_valid_def by (simp add: tag_defs)
  ultimately show ?thesis
    using nibble_cases [OF assms(1)] assms(2) by blast
qed

lemma length_unpack_table [simp]: "length (unpack_table t) = 16"
  by (simp add: unpack_table_def)

definition unpacked_pair :: "byte \<Rightarrow> byte \<Rightarrow> bytes" where
  "unpacked_pair t b = [unpack_table t ! unat (drop_bit 4 b AND 15), unpack_table t ! unat (b AND 15)]"

definition pair_valid :: "byte \<Rightarrow> byte \<Rightarrow> bool" where
  "pair_valid t b \<longleftrightarrow> nibble_valid t (drop_bit 4 b AND 15) \<and> nibble_valid t (b AND 15)"

lemma unpack_bytes_valid:
  assumes "t = NIBBLE_8 \<or> t = HEX_8"
  shows "list_all (pair_valid t) bs \<Longrightarrow> unpack_bytes t bs = Inr (concat (map (unpacked_pair t) bs))"
  using assms
  by (induction bs) (simp_all add: unpack_nibble and_15_less high_nibble pair_valid_def unpacked_pair_def)

lemma check_chunk_invalid:
  assumes "t = NIBBLE_8 \<or> t = HEX_8"
  shows "\<not> list_all (pair_valid t) bs \<Longrightarrow> \<exists>e. check_chunk t bs = Throw e \<and> unpack_bytes t bs = Throw e"
  using assms
  by (induction bs) (auto simp: unpack_nibble and_15_less high_nibble pair_valid_def)

lemma interleave_map: "interleave (map f xs) (map g xs) = concat (map (\<lambda>x. [f x, g x]) xs)"
  by (induction xs) simp_all

lemma swizzle_nibbles:
  "swizzle_dyn (unpack_table t) (map (\<lambda>b. f b AND 15) bs) = map (\<lambda>b. unpack_table t ! unat (f b AND 15)) bs"
  using and_15_less by (simp add: swizzle_dyn_def word_less_nat_alt)

lemma simd_unpack_scalar:
  assumes "t = NIBBLE_8 \<or> t = HEX_8"
  shows "simd_unpack t bs = unpack_bytes t bs"
proof -
  have swz: "interleave (swizzle_dyn (unpack_table t) (map (\<lambda>b. drop_bit 4 b AND 15) bs))
      (swizzle_dyn (unpack_table t) (map (\<lambda>b. b AND 15) bs)) = concat (map (unpacked_pair t) bs)"
    using swizzle_nibbles [of t "drop_bit 4" bs] swizzle_nibbles [of t "\<lambda>b. b" bs]
    by (simp add: interleave_map unpacked_pair_def [abs_def])
  have zip: "list_all (\<lambda>(h, l). (h \<le> 11 \<or> h = 15) \<and> (l \<le> 11 \<or> l = 15))
      (zip (map (\<lambda>b. drop_bit 4 b AND 15) bs) (map (\<lambda>b. b AND 15) bs))
      \<longleftrightarrow> list_all (pair_valid t) bs" if "t = NIBBLE_8"
    using that by (induction bs) (auto simp: pair_valid_def nibble_valid_def tag_defs)
  show ?thesis
  proof (cases "list_all (pair_valid t) bs")
    case True
    then show ?thesis
      using zip swz unpack_bytes_valid [OF assms True]
      by (cases "t = NIBBLE_8") (simp_all add: simd_unpack_def Let_def)
  next
    case False
    then have "t = NIBBLE_8"
      using assms by (auto simp: list_all_iff pair_valid_def nibble_valid_def)
    with False show ?thesis
      using zip check_chunk_invalid [OF assms False] by (auto simp: simd_unpack_def)
  qed
qed

lemma unpack_bytes_append:
  "unpack_bytes t (a @ b) = rbind (unpack_bytes t a) (\<lambda>x. rmap ((@) x) (unpack_bytes t b))"
proof (induction a)
  case Nil
  then show ?case by (cases "unpack_bytes t b") simp_all
next
  case (Cons x a)
  then show ?case
    by (cases "unpack_byte t (drop_bit 4 (x AND 0xF0))"; cases "unpack_byte t (x AND 0x0F)";
        cases "unpack_bytes t a"; cases "unpack_bytes t b") simp_all
qed

lemma unpack_chunks_scalar:
  assumes "t = NIBBLE_8 \<or> t = HEX_8"
  shows "unpack_chunks t bs = unpack_bytes t bs"
proof (induction "length bs" arbitrary: bs rule: less_induct)
  case less
  show ?case
  proof (cases "length bs \<ge> 16")
    case True
    then have "unpack_chunks t (drop 16 bs) = unpack_bytes t (drop 16 bs)"
      by (intro less) simp
    with True show ?thesis
      using unpack_bytes_append [of t "take 16 bs" "drop 16 bs"]
      by (subst unpack_chunks.simps) (simp add: simd_unpack_scalar [OF assms])
  qed (subst unpack_chunks.simps, simp)
qed

section \<open>Decoding is total\<close>

definition tame :: "'a res \<Rightarrow> bool" where
  \<comment> \<open>a value or an error of the program\<close>
  "tame r \<longleftrightarrow> r \<noteq> Inl Panic \<and> r \<noteq> Inl Diverge"

definition decoder_wf :: "decoder \<Rightarrow> bool" where
  "decoder_wf d \<longleftrightarrow> position d \<le> length (data d)"

definition good :: "nat \<Rightarrow> 'a reader \<Rightarrow> bool" where
  \<comment> \<open>on a decoder with fewer than n bytes left: tame, forward only and within the data\<close>
  "good n rd \<longleftrightarrow> (\<forall>d. decoder_wf d \<and> bytes_left d < n \<longrightarrow>
     tame (rd d) \<and> (\<forall>x d'. rd d = Inr (x, d') \<longrightarrow>
       data d' = data d \<and> position d \<le> position d' \<and> decoder_wf d'))"

named_theorems good_intros

lemma goodI:
  assumes "\<And>d. decoder_wf d \<Longrightarrow> bytes_left d < n \<Longrightarrow> tame (rd d)"
    and "\<And>d x d'. decoder_wf d \<Longrightarrow> bytes_left d < n \<Longrightarrow> rd d = Inr (x, d') \<Longrightarrow>
      data d' = data d \<and> position d \<le> position d' \<and> decoder_wf d'"
  shows "good n rd"
  unfolding good_def using assms by blast

lemma goodD:
  assumes "good n rd" and "decoder_wf d" and "bytes_left d < n"
  shows "tame (rd d)"
    and "rd d = Inr (x, d') \<Longrightarrow> data d' = data d \<and> position d \<le> position d' \<and> decoder_wf d'"
    and "rd d = Inr (x, d') \<Longrightarrow> bytes_left d' < n"
proof -
  show "tame (rd d)" and step: "rd d = Inr (x, d') \<Longrightarrow>
      data d' = data d \<and> position d \<le> position d' \<and> decoder_wf d'"
    using assms unfolding good_def by blast+
  then show "rd d = Inr (x, d') \<Longrightarrow> bytes_left d' < n"
    using assms(3) unfolding bytes_left_def by fastforce
qed

lemma tame_simps [simp]: "tame (Inr x)" "tame (Throw e)" "tame (ok_or o' e)"
  by (auto simp: tame_def ok_or_def split: option.split)

lemma tame_rbind: "tame r \<Longrightarrow> (\<And>x. r = Inr x \<Longrightarrow> tame (f x)) \<Longrightarrow> tame (rbind r f)"
  by (cases r) (auto simp: tame_def)

lemma tame_rmap [simp]: "tame (rmap f r) \<longleftrightarrow> tame r"
  by (cases r) (auto simp: tame_def)

lemma good_mono: "good m rd \<Longrightarrow> n \<le> m \<Longrightarrow> good n rd"
  unfolding good_def by (meson less_le_trans)

lemma good_rbind [good_intros]:
  assumes "good n r" and "\<And>x. good n (f x)"
  shows "good n (\<lambda>d. rbind (r d) (\<lambda>(x, d). f x d))"
proof (rule goodI)
  fix d assume d: "decoder_wf d" "bytes_left d < n"
  have tame: "tame (f x d')" if "r d = Inr (x, d')" for x d'
    using goodD [OF assms(1) d] goodD(1) [OF assms(2)] that by blast
  show "tame (rbind (r d) (\<lambda>(x, d). f x d))"
    using goodD(1) [OF assms(1) d] tame by (intro tame_rbind) (simp_all split: prod.split)
  show "data d' = data d \<and> position d \<le> position d' \<and> decoder_wf d'"
    if "rbind (r d) (\<lambda>(x, d). f x d) = Inr (x, d')" for x d'
  proof -
    from that obtain y d1 where y: "r d = Inr (y, d1)" and f: "f y d1 = Inr (x, d')"
      by (cases "r d") auto
    note d1 = goodD(2,3) [OF assms(1) d y]
    show ?thesis
      using goodD(2) [OF assms(2) [of y] _ d1(2) f] d1(1) by simp
  qed
qed

lemma good_pure [good_intros]:
  assumes "tame r" and "\<And>x. good n (f x)"
  shows "good n (\<lambda>d. rbind r (\<lambda>x. f x d))"
  using assms by (cases r) (simp_all add: good_def tame_def)

lemma good_Inr [good_intros]: "good n (\<lambda>d. Inr (x, d))"
  by (rule goodI) simp_all

lemma good_Throw [good_intros]: "good n (\<lambda>d. Throw e)"
  by (rule goodI) simp_all

lemma good_rmap [good_intros]:
  assumes "good n r"
  shows "good n (\<lambda>d. rmap (\<lambda>(x, d). (g x, d)) (r d))"
proof (rule goodI)
  fix d assume d: "decoder_wf d" "bytes_left d < n"
  show "tame (rmap (\<lambda>(x, d). (g x, d)) (r d))"
    using goodD(1) [OF assms d] by simp
  show "data d' = data d \<and> position d \<le> position d' \<and> decoder_wf d'"
    if "rmap (\<lambda>(x, d). (g x, d)) (r d) = Inr (x, d')" for x d'
  proof -
    from that obtain y where "r d = Inr (y, d')"
      by (cases "r d") auto
    then show ?thesis by (rule goodD(2) [OF assms d])
  qed
qed

lemma good_rmap_pure [good_intros]: "tame r \<Longrightarrow> good n (\<lambda>d. rmap (\<lambda>x. (g x, d)) r)"
  by (rule goodI) (simp, cases r, simp_all)

lemma good_if [good_intros]: "good n f \<Longrightarrow> good n g \<Longrightarrow> good n (\<lambda>d. if P then f d else g d)"
  by (cases P) simp_all

lemma good_option [good_intros]:
  "(\<And>x. good n (f x)) \<Longrightarrow> good n g \<Longrightarrow> good n (\<lambda>d. case v of Some x \<Rightarrow> f x d | None \<Rightarrow> g d)"
  by (cases v) simp_all

lemma good_eos:
  assumes "\<And>d. rd d = rbind (check_eos k d) (\<lambda>_. Inr (f d, advance k d))"
  shows "good n rd"
proof (rule goodI)
  fix d assume d: "decoder_wf d"
  show "tame (rd d)"
    by (simp add: assms check_eos_def)
  show "data d' = data d \<and> position d \<le> position d' \<and> decoder_wf d'" if "rd d = Inr (x, d')" for x d'
  proof -
    from that have "k \<le> bytes_left d" "d' = advance k d"
      by (simp_all add: assms check_eos_def split: if_splits)
    with d show ?thesis by (simp add: decoder_wf_def bytes_left_def advance_def)
  qed
qed

lemma good_numbers [good_intros]:
  "good n read_u8" "good n read_u16_be" "good n read_u20_be" "good n read_u32_be" "good n (read_bytes k)"
  by (rule good_eos, simp add: read_u8_def read_u16_be_def read_u20_be_def read_u32_be_def
      read_bytes_def Let_def; fail)+

lemma good_tag:
  assumes "\<And>t. good n (f t)"
  shows "good (Suc n) (\<lambda>d. rbind (read_u8 d) (\<lambda>(t, d). f t d))"
proof (rule goodI)
  fix d assume d: "decoder_wf d" "bytes_left d < Suc n"
  show "tame (rbind (read_u8 d) (\<lambda>(t, d). f t d))"
  proof (cases "bytes_left d = 0")
    case False
    with d have "decoder_wf (advance 1 d)" "bytes_left (advance 1 d) < n"
      by (auto simp: decoder_wf_def bytes_left_def advance_def)
    with False assms show ?thesis
      by (simp add: read_u8_def check_eos_def good_def)
  qed (simp add: read_u8_def check_eos_def)
  show "data d' = data d \<and> position d \<le> position d' \<and> decoder_wf d'"
    if "rbind (read_u8 d) (\<lambda>(t, d). f t d) = Inr (x, d')" for x d'
  proof -
    from that have ne: "bytes_left d \<ge> 1" and eq: "f (data d ! position d) (advance 1 d) = Inr (x, d')"
      by (auto simp: read_u8_def check_eos_def split: if_splits)
    with d have "decoder_wf (advance 1 d)" "bytes_left (advance 1 d) < n"
      by (auto simp: decoder_wf_def bytes_left_def advance_def)
    with assms eq have "data d' = data (advance 1 d) \<and> position (advance 1 d) \<le> position d' \<and> decoder_wf d'"
      by (simp add: good_def)
    then show ?thesis by (simp add: advance_def)
  qed
qed

lemma good_read_string [good_intros]: "good n (read_string k)"
  unfolding read_string_def [abs_def] by (intro good_intros)

lemma good_list_size [good_intros]: "good n (read_list_size t)"
  unfolding read_list_size_def [abs_def] by (intro good_intros)

lemma tame_unpack: "tame (unpack_byte t v)" "tame (unpack_bytes t bs)"
  by (simp add: unpack_byte_def)
     (induction bs; auto simp: unpack_byte_def intro!: tame_rbind)

lemma good_read_packed:
  assumes "t = NIBBLE_8 \<or> t = HEX_8"
  shows "good n (read_packed t)"
  unfolding read_packed_def [abs_def] Let_def unpack_chunks_scalar [OF assms]
  by (intro good_intros tame_unpack)

lemma good_jids [good_intros]:
  assumes "good n rv"
  shows "good n (read_jid_pair rv)" "good n (read_ad_jid rv)" "good n (read_interop_jid rv)"
    "good n (read_fb_jid rv)"
  unfolding read_jid_pair_def [abs_def] read_ad_jid_def [abs_def] read_interop_jid_def [abs_def]
    read_fb_jid_def [abs_def] Let_def
  by (intro good_intros assms tame_simps)+

lemma good_packed_if [good_intros]:
  "good n g \<Longrightarrow> good n (\<lambda>d. if t = NIBBLE_8 \<or> t = HEX_8 then rmap (\<lambda>(s, d). (h s, d)) (read_packed t d) else g d)"
  by (cases "t = NIBBLE_8 \<or> t = HEX_8") (auto intro: good_rmap good_read_packed)

lemma good_value_as_string_fuel: "good n (read_value_as_string_fuel tk n)"
proof (induction n)
  case 0
  then show ?case by (simp add: good_def)
next
  case (Suc n)
  show ?case
    unfolding read_value_as_string_fuel.simps [abs_def]
    by (rule good_tag) (intro good_intros Suc tame_simps)
qed

lemma good_at_fuel:
  assumes "\<And>n. good n (r n)"
  shows "good m (\<lambda>d. r (Suc (bytes_left d)) d)"
  by (rule goodI) (rule goodD(1) [OF assms], simp_all, rule goodD(2) [OF assms], simp_all)

lemma good_value_as_string [good_intros]: "good m (read_value_as_string tk)"
  unfolding read_value_as_string_def [abs_def]
  by (rule good_at_fuel) (rule good_value_as_string_fuel)

lemma good_value [good_intros]: "good m (read_value tk)"
  unfolding read_value_def [abs_def] read_value_with_def [abs_def]
  by (intro good_intros tame_simps)

lemma good_attributes [good_intros]: "good m (read_attributes tk k)"
proof (induction k)
  case 0
  show ?case unfolding read_attributes.simps [abs_def] by (intro good_intros)
next
  case (Suc k)
  show ?case
    unfolding read_attributes.simps [abs_def]
    by (intro good_intros tame_simps Suc)
qed

lemma good_nodes [good_intros]: "good n rn \<Longrightarrow> good n (read_nodes rn k)"
proof (induction k)
  case 0
  show ?case unfolding read_nodes.simps [abs_def] by (intro good_intros)
next
  case (Suc k)
  then show ?case
    unfolding read_nodes.simps [abs_def] by (intro good_intros) simp
qed

lemma good_peek:
  assumes "\<And>t. good n (f t)" and "good n g"
  shows "good n (\<lambda>d0. rbind (read_u8 d0) (\<lambda>(t, d). if P t then f t d else g d0))"
proof (rule goodI)
  have bind: "good n (\<lambda>d. rbind (read_u8 d) (\<lambda>(t, d). f t d))"
    using assms(1) by (intro good_intros)
  fix d assume d: "decoder_wf d" "bytes_left d < n"
  let ?r = "rbind (read_u8 d) (\<lambda>(t, d'). if P t then f t d' else g d)"
  consider e where "read_u8 d = Inl e" "?r = Inl e" | "?r = rbind (read_u8 d) (\<lambda>(t, d). f t d)"
    | "?r = g d"
  proof (cases "read_u8 d")
    case (Inr td)
    then show ?thesis using that by (cases td; cases "P (fst td)") simp_all
  qed (use that in simp)
  note r = this
  show "tame ?r"
    using goodD(1) [OF good_numbers(1) d] goodD(1) [OF bind d] goodD(1) [OF assms(2) d]
    by (cases rule: r) simp_all
  show "data d' = data d \<and> position d \<le> position d' \<and> decoder_wf d'" if eq: "?r = Inr (x, d')" for x d'
  proof (cases rule: r)
    case 2
    with eq show ?thesis by (intro goodD(2) [OF bind d]) simp
  next
    case 3
    with eq show ?thesis by (intro goodD(2) [OF assms(2) d]) simp
  qed (use eq in simp)
qed

lemma good_content:
  assumes "good n rn"
  shows "good n (read_content tk rn)"
proof -
  have eq: "read_content tk rn = (\<lambda>d0. rbind (read_u8 d0) (\<lambda>(t, d).
      if t = LIST_EMPTY \<or> t = LIST_8 \<or> t = LIST_16 \<or> t = BINARY_8 \<or> t = BINARY_20 \<or> t = BINARY_32
      then (if t = LIST_EMPTY then Inr (None, d)
       else if t = LIST_8 \<or> t = LIST_16 then
         rbind (read_list_size t d) (\<lambda>(sz, d).
           rmap (\<lambda>(ns, d). (Some (RNodes ns), d)) (read_nodes rn sz d))
       else if t = BINARY_8 then
         rbind (read_u8 d) (\<lambda>(len, d).
           rmap (\<lambda>(bs, d). (Some (RBytes bs), d)) (read_bytes (unat len) d))
       else if t = BINARY_20 then
         rbind (read_u20_be d) (\<lambda>(len, d).
           rmap (\<lambda>(bs, d). (Some (RBytes bs), d)) (read_bytes (unat len) d))
       else
         rbind (read_u32_be d) (\<lambda>(len, d).
           rmap (\<lambda>(bs, d). (Some (RBytes bs), d)) (read_bytes (unat len) d)))
      else rmap (\<lambda>(s, d). (map_option RString s, d)) (read_value_as_string tk d0)))"
    by (rule ext) (simp add: read_content_def read_u8_def check_eos_def advance_def Let_def)
  show ?thesis
    unfolding eq by (rule good_peek) (intro good_intros assms)+
qed

lemma good_node_fuel: "good n (read_node_fuel tk n)"
proof (induction n)
  case 0
  then show ?case by (simp add: good_def)
next
  case (Suc n)
  show ?case
    unfolding read_node_fuel.simps [abs_def]
    by (rule good_tag) (intro good_intros good_content Suc tame_simps)
qed

lemma good_node: "good m (read_node_ref tk)"
  unfolding read_node_ref_def [abs_def]
  by (rule good_at_fuel) (rule good_node_fuel)

end
