(* ===== verification/Marshal.thy ===== *)
theory Marshal
  imports Decoder Token_Data
begin

text \<open>
  Marshalling (\<^verbatim>\<open>marshal.rs\<close> and \<^verbatim>\<open>util.rs\<close> of \<^verbatim>\<open>warp_core/binary/src\<close>) and the round trip
  through the encoder and the decoder. The decompressor of a packed payload is a parameter: it
  belongs to a library.
\<close>

section \<open>Operations\<close>

definition unmarshal_ref :: "tokens \<Rightarrow> bytes \<Rightarrow> node_ref res" where
  "unmarshal_ref tk bs =
     rbind (read_node_ref tk (decoder_new bs)) (\<lambda>(n, d).
       if is_finished d then Inr n else Throw (LeftoverData (bytes_left d)))"

definition encoder_new :: bytes where
  "encoder_new = write_u8 0"

definition marshal_to :: "tokens \<Rightarrow> node \<Rightarrow> bytes res" where
  "marshal_to tk n = seqw (Inr encoder_new) (write_node tk n)"

definition marshal :: "tokens \<Rightarrow> node \<Rightarrow> bytes res" where
  "marshal tk n = rbind (marshal_to tk n) (\<lambda>payload. Inr payload)"

definition marshal_ref_to :: "tokens \<Rightarrow> node_ref \<Rightarrow> bytes res" where
  "marshal_ref_to tk n = seqw (Inr encoder_new) (write_node_ref tk n)"

definition marshal_ref :: "tokens \<Rightarrow> node_ref \<Rightarrow> bytes res" where
  "marshal_ref tk n = rbind (marshal_ref_to tk n) (\<lambda>payload. Inr payload)"

definition unpack :: "(bytes \<Rightarrow> string + bytes) \<Rightarrow> bytes \<Rightarrow> bytes res" where
  "unpack inflate bs =
     (case bs of
        [] \<Rightarrow> Throw EmptyData
      | data_type # payload \<Rightarrow>
          if data_type AND 2 > 0
          then (case inflate payload of Inr out \<Rightarrow> Inr out | Inl e \<Rightarrow> Throw (Zlib e))
          else Inr payload)"

section \<open>Reading from a known position\<close>

definition dec :: "bytes \<Rightarrow> bytes \<Rightarrow> decoder" where
  \<comment> \<open>the decoder that has read \<open>pre\<close> and has \<open>r\<close> left\<close>
  "dec pre r = \<lparr>data = pre @ r, position = length pre\<rparr>"

lemma decoder_new_dec: "decoder_new bs = dec [] bs"
  by (simp add: decoder_new_def dec_def)

lemma bytes_left_dec [simp]: "bytes_left (dec pre r) = length r"
  by (simp add: bytes_left_def dec_def)

lemma is_finished_dec [simp]: "is_finished (dec pre r) \<longleftrightarrow> r = []"
  by (simp add: is_finished_def dec_def)

lemma check_eos_dec [simp]: "k \<le> length r \<Longrightarrow> check_eos k (dec pre r) = Inr ()"
  by (simp add: check_eos_def)

lemma advance_dec: "advance (length a) (dec pre (a @ r)) = dec (pre @ a) r"
  by (simp add: advance_def dec_def)

lemma data_dec: "data (dec pre r) ! (position (dec pre r) + k) = r ! k"
  "data (dec pre r) ! position (dec pre r) = r ! 0"
  by (simp_all add: dec_def nth_append)

lemma read_numbers_dec [simp]:
  "read_u8 (dec pre (b # r)) = Inr (b, dec (pre @ [b]) r)"
  "read_u16_be (dec pre (b # b1 # r)) = Inr (u16_from_be b b1, dec (pre @ [b, b1]) r)"
  "read_u32_be (dec pre (b # b1 # b2 # b3 # r)) = Inr (u32_from_be b b1 b2 b3, dec (pre @ [b, b1, b2, b3]) r)"
  by (simp_all add: read_u8_def read_u16_be_def read_u32_be_def) (simp_all add: dec_def advance_def nth_append)

lemma read_u20_dec [simp]:
  "read_u20_be (dec pre (b # b1 # b2 # r)) =
     Inr (push_bit 16 (ucast b AND 0x0F) OR push_bit 8 (ucast b1) OR ucast b2, dec (pre @ [b, b1, b2]) r)"
  by (simp add: read_u20_be_def) (simp add: dec_def advance_def nth_append)

lemma read_bytes_dec [simp]:
  "n = length bs \<Longrightarrow> read_bytes n (dec pre (bs @ r)) = Inr (bs, dec (pre @ bs) r)"
  using advance_dec [of bs pre r] by (simp add: read_bytes_def) (simp add: dec_def)

lemma read_string_dec [simp]:
  "n = length s \<Longrightarrow> str_ok s \<Longrightarrow>
   read_string n (dec pre (as_bytes s @ r)) = Inr (s, dec (pre @ as_bytes s) r)"
  by (simp add: read_string_def)

lemma u20_roundtrip:
  assumes "v < (2 :: u32) ^ 20"
  shows "(push_bit 16 (ucast (ucast (drop_bit 16 v AND 0x0F) :: byte) AND 0x0F)
     OR push_bit 8 (ucast (ucast (drop_bit 8 v AND 0xFF) :: byte))
     OR ucast (ucast (v AND 0xFF) :: byte) :: u32) = v" (is "?l = v")
proof -
  have m: "(15 :: u32) = mask 4" "(255 :: u32) = mask 8"
    by (simp_all add: mask_eq_exp_minus_1)
  have hi: "\<not> bit v n" if "20 \<le> n" for n
    using that assms bit_less_exp [of v 20 n] by (auto simp: word_less_nat_alt)
  show ?thesis
    unfolding m
  proof (rule bit_word_eqI)
    fix n assume "n < LENGTH(32)"
    then consider "n < 8" | "8 \<le> n" "n < 16" | "16 \<le> n" "n < 20" | "20 \<le> n"
      by linarith
    then show "bit (push_bit 16 (ucast (ucast (drop_bit 16 v AND mask 4) :: byte) AND mask 4)
       OR push_bit 8 (ucast (ucast (drop_bit 8 v AND mask 8) :: byte))
       OR ucast (ucast (v AND mask 8) :: byte) :: u32) n = bit v n"
      by cases (auto simp: bit_simps hi)
  qed
qed

section \<open>Packed strings\<close>

lemma unpack_alphabet:
  assumes "t = NIBBLE_8 \<or> t = HEX_8" and "c \<in> set (pack_alphabet t)"
  shows "nibble_valid t (nibble_value t c) \<and> unpack_table t ! unat (nibble_value t c) = byte_of_char c"
proof -
  have "\<forall>c \<in> set nibble_chars. nibble_valid NIBBLE_8 (nibble_value NIBBLE_8 c)
      \<and> unpack_table NIBBLE_8 ! unat (nibble_value NIBBLE_8 c) = byte_of_char c"
    unfolding unpack_table_nibbles nibble_chars_def
    by (simp add: nibble_value_def packer_of_def pack_nibble_def is_digit_def nibble_valid_def
        byte_of_char_def)
  moreover have "\<forall>c \<in> set hex_chars. nibble_valid HEX_8 (nibble_value HEX_8 c)
      \<and> unpack_table HEX_8 ! unat (nibble_value HEX_8 c) = byte_of_char c"
    unfolding unpack_table_nibbles hex_chars_def
    by (simp add: nibble_value_def packer_of_def pack_hex_def is_digit_def is_hex_upper_def
        nibble_valid_def byte_of_char_def tag_defs)
  ultimately show ?thesis
    using assms by (auto simp: pack_alphabet_def tag_defs)
qed

lemma pair_nibbles:
  assumes "x < 16" and "y < (16 :: byte)"
  shows "drop_bit 4 (push_bit 4 x OR y) AND 15 = x" "(push_bit 4 x OR y) AND 15 = y"
proof -
  have m: "(15 :: byte) = mask 4" by (simp add: mask_eq_exp_minus_1)
  have hi: "bit x n \<Longrightarrow> n < 4" "bit y n \<Longrightarrow> n < 4" for n
    using assms bit_less_exp [of x 4 n] bit_less_exp [of y 4 n] by (simp_all add: word_less_nat_alt)
  show "drop_bit 4 (push_bit 4 x OR y) AND 15 = x" "(push_bit 4 x OR y) AND 15 = y"
    unfolding m by (rule bit_word_eqI, auto simp: bit_simps dest: hi)+
qed

definition pad_byte :: "byte \<Rightarrow> byte" where
  "pad_byte t = unpack_table t ! 15"

lemma unpack_pair:
  assumes t: "t = NIBBLE_8 \<or> t = HEX_8" and xy: "x < 16" "y < 16" "nibble_valid t x" "nibble_valid t y"
  shows "unpack_bytes t ((push_bit 4 x OR y) # bs)
    = rmap (\<lambda>r. unpack_table t ! unat x # unpack_table t ! unat y # r) (unpack_bytes t bs)"
  unfolding unpack_bytes.simps high_nibble pair_nibbles [OF xy(1,2)]
  by (simp add: unpack_nibble xy t)

lemma unpack_pack:
  assumes t: "t = NIBBLE_8 \<or> t = HEX_8"
  shows "set s \<subseteq> set (pack_alphabet t) \<Longrightarrow>
    unpack_bytes t (pack_pairs (map (nibble_value t) s))
      = Inr (as_bytes s @ (if odd (length s) then [pad_byte t] else []))"
proof (induction s rule: evens.induct)
  case (2 c)
  then have "nibble_value t c < 16" and "nibble_valid t 15"
    using packer_alphabet(2) by (auto simp: nibble_valid_def)
  with 2 t unpack_alphabet [OF t, of c] show ?case
    by (simp add: unpack_pair pad_byte_def del: unpack_bytes.simps(2))
next
  case (3 c1 c2 s)
  then have "nibble_value t c1 < 16" "nibble_value t c2 < 16"
    using packer_alphabet(2) by auto
  with 3 t unpack_alphabet [OF t, of c1] unpack_alphabet [OF t, of c2] show ?case
    by (simp add: unpack_pair del: unpack_bytes.simps(2))
qed simp

lemma packed_len_byte_bits:
  assumes "n \<le> 127"
  shows "packed_len_byte n AND 0x80 \<noteq> 0 \<longleftrightarrow> odd n"
    and "unat (packed_len_byte n AND 0x7F) = (n + 1) div 2"
proof -
  define l :: byte where "l = of_nat ((n + 1) div 2)"
  have ul: "unat l = (n + 1) div 2"
    using assms unfolding l_def by (subst unat_of_nat_byte) simp_all
  then have hi: "bit l i \<Longrightarrow> i < 7" for i
    using assms bit_less_exp [of l 7 i] by simp
  have m: "(0x7F :: byte) = mask 7"
    by (simp add: mask_eq_exp_minus_1)
  have b7: "bit (0x80 :: int) i \<longleftrightarrow> i = 7" for i
    using bit_exp_iff [where 'a = int, of 7 i] by simp
  have "l AND 0x80 = 0" "(l OR 0x80) AND 0x80 = 0x80" "l AND 0x7F = l" "(l OR 0x80) AND 0x7F = l"
    unfolding m by (rule bit_word_eqI, auto simp: bit_simps b7 dest: hi)+
  moreover have "packed_len_byte n = (if odd n then l OR 0x80 else l)"
    unfolding packed_len_byte_def Let_def l_def by (simp only: odd_iff_mod_2_eq_one mod2_eq_if) simp
  ultimately show "packed_len_byte n AND 0x80 \<noteq> 0 \<longleftrightarrow> odd n"
    "unat (packed_len_byte n AND 0x7F) = (n + 1) div 2"
    using ul by simp_all
qed

lemma read_packed_dec:
  assumes t: "t = NIBBLE_8 \<or> t = HEX_8" and s: "set s \<subseteq> set (pack_alphabet t)" "length s \<le> PACKED_MAX" "s \<noteq> []"
  shows "read_packed t (dec pre (packed_len_byte (length s) # pack_pairs (map (nibble_value t) s) @ r))
    = Inr (s, dec (pre @ packed_len_byte (length s) # pack_pairs (map (nibble_value t) s)) r)"
proof -
  have len: "length s \<le> 127"
    using s(2) by (simp add: PACKED_MAX_def)
  have "length s \<noteq> 0"
    using s(3) by simp
  then have "(length s + 1) div 2 \<noteq> 0"
    by presburger
  then show ?thesis
    using packed_len_byte_bits [OF len] unpack_pack [OF t s(1)] alphabet_utf8 [OF s(1)]
    by (simp add: read_packed_def unpack_chunks_scalar [OF t] length_pack_pairs)
qed

section \<open>Strings\<close>

text \<open>The value the decoder reads back from a written string.\<close>

function wire_value :: "tokens \<Rightarrow> string \<Rightarrow> value_ref" where
  "wire_value tk s =
     (if s = [] \<or> index_of_single_token tk s \<noteq> None \<or> index_of_double_byte_token tk s \<noteq> None
         \<or> validate_nibble s \<or> validate_hex s
      then VString s
      else case parse_jid s of
        None \<Rightarrow> VString s
      | Some j \<Rightarrow>
          (case pj_device j of
             Some dev \<Rightarrow>
               VJid \<lparr>user = pj_user j, server = ad_server (pj_domain_type j),
                 agent = pj_domain_type j, device = ucast (ucast dev :: byte), integrator = 0\<rparr>
           | None \<Rightarrow>
               VJid \<lparr>user = pj_user j, server = value_to_string (wire_value tk (pj_server j)),
                 agent = 0, device = 0, integrator = 0\<rparr>))"
  by pat_completeness auto
termination
  by (relation "measure (\<lambda>(_, s). length s)") (auto dest!: parse_jid_length)

declare wire_value.simps [simp del]

lemma value_to_string_simps [simp]: "value_to_string (VString s) = s" "value_to_string (VJid j) = jid_to_string j"
  by (simp_all add: value_to_string_def)

lemma rmap_rbind: "rmap f (rbind r g) = rbind r (\<lambda>x. rmap f (g x))"
  by (cases r) simp_all

lemma rmap_rmap: "rmap f (rmap g r) = rmap (\<lambda>x. f (g x)) r"
  by (cases r) simp_all

lemma read_value_string:
  "read_value_as_string_fuel tk (Suc n) d =
     rmap (\<lambda>(v, d). (map_option value_to_string v, d))
       (read_value_with tk (read_value_as_string_fuel tk n) d)"
  unfolding read_value_as_string_fuel.simps read_value_with_def
  by (simp only: rmap_rbind rmap_rmap if_distrib [of "rmap _"] split_def fst_conv snd_conv
      option.map value_to_string_simps rmap_simps)

lemma read_value_tags:
  "read_value_with tk rv (dec pre (BINARY_8 # r)) =
     rbind (read_u8 (dec (pre @ [BINARY_8]) r)) (\<lambda>(sz, d).
       rmap (\<lambda>(s, d). (Some (VString s), d)) (read_string (unat sz) d))"
  "read_value_with tk rv (dec pre (BINARY_20 # r)) =
     rbind (read_u20_be (dec (pre @ [BINARY_20]) r)) (\<lambda>(sz, d).
       rmap (\<lambda>(s, d). (Some (VString s), d)) (read_string (unat sz) d))"
  "read_value_with tk rv (dec pre (BINARY_32 # r)) =
     rbind (read_u32_be (dec (pre @ [BINARY_32]) r)) (\<lambda>(sz, d).
       rmap (\<lambda>(s, d). (Some (VString s), d)) (read_string (unat sz) d))"
  "read_value_with tk rv (dec pre (JID_PAIR # r)) =
     rmap (\<lambda>(j, d). (Some (VJid j), d)) (read_jid_pair rv (dec (pre @ [JID_PAIR]) r))"
  "read_value_with tk rv (dec pre (AD_JID # r)) =
     rmap (\<lambda>(j, d). (Some (VJid j), d)) (read_ad_jid rv (dec (pre @ [AD_JID]) r))"
  "read_value_with tk rv (dec pre (NIBBLE_8 # r)) =
     rmap (\<lambda>(s, d). (Some (VString s), d)) (read_packed NIBBLE_8 (dec (pre @ [NIBBLE_8]) r))"
  "read_value_with tk rv (dec pre (HEX_8 # r)) =
     rmap (\<lambda>(s, d). (Some (VString s), d)) (read_packed HEX_8 (dec (pre @ [HEX_8]) r))"
  by (simp_all add: read_value_with_def tag_defs)

lemma write_bytes_cases:
  assumes "length bs < 2 ^ 32"
  obtains (len8) l where "write_bytes_with_len bs = BINARY_8 # l # bs" "unat l = length bs"
  | (len20) b0 b1 b2 where "write_bytes_with_len bs = BINARY_20 # b0 # b1 # b2 # bs"
      "unat (push_bit 16 (ucast b0 AND 0x0F) OR push_bit 8 (ucast b1) OR ucast b2 :: u32) = length bs"
  | (len32) b0 b1 b2 b3 where "write_bytes_with_len bs = BINARY_32 # b0 # b1 # b2 # b3 # bs"
      "unat (u32_from_be b0 b1 b2 b3) = length bs"
proof -
  have u8: "unat (of_nat (length bs) :: byte) = length bs" if "length bs < 256"
    using that by (simp add: unat_of_nat)
  have u32: "unat (of_nat (length bs) :: u32) = length bs"
    using assms by (simp add: unat_of_nat)
  have u20: "(of_nat (length bs) :: u32) < 2 ^ 20" if "length bs < 2 ^ 20"
    using that u32 by (simp add: word_less_nat_alt)
  consider "length bs < 256" | "\<not> length bs < 256" "length bs < 2 ^ 20" | "\<not> length bs < 256" "\<not> length bs < 2 ^ 20"
    by blast
  then show ?thesis
  proof cases
    case 1
    then show ?thesis
      using len8 u8 by (simp add: write_bytes_with_len_def write_u8_def)
  next
    case 2
    then have "write_bytes_with_len bs = BINARY_20 # ucast (drop_bit 16 (of_nat (length bs) :: u32) AND 0x0F)
        # ucast (drop_bit 8 (of_nat (length bs) :: u32) AND 0xFF) # ucast ((of_nat (length bs) :: u32) AND 0xFF) # bs"
      by (simp add: write_bytes_with_len_def Let_def write_u8_def write_u20_be_def)
    from this u20_roundtrip [OF u20 [OF 2(2)]] u32 show ?thesis
      by (rule len20 [OF _ trans [OF arg_cong [where f = unat]]])
  next
    case 3
    then have "write_bytes_with_len bs = BINARY_32 # ucast (drop_bit 24 (of_nat (length bs) :: u32))
        # ucast (drop_bit 16 (of_nat (length bs) :: u32)) # ucast (drop_bit 8 (of_nat (length bs) :: u32))
        # ucast (of_nat (length bs) :: u32) # bs"
      by (simp add: write_bytes_with_len_def Let_def write_u8_def write_u32_be_def u32_to_be_def)
    from this u32_be_roundtrip u32 show ?thesis
      by (rule len32 [OF _ trans [OF arg_cong [where f = unat]]])
  qed
qed

lemma write_read_bytes:
  assumes "str_ok s" and "length s < 2 ^ 32"
  shows "read_value_with tk rv (dec pre (write_bytes_with_len (as_bytes s) @ r))
    = Inr (Some (VString s), dec (pre @ write_bytes_with_len (as_bytes s)) r)"
proof -
  have "length (as_bytes s) < 2 ^ 32"
    using assms(2) by simp
  then show ?thesis
    by (rule write_bytes_cases) (simp_all add: read_value_tags assms(1))
qed

lemma parse_jid_user:
  assumes "parse_jid s = Some j"
  shows "CHR ''@'' \<notin> set (pj_user j)"
  using assms
  by (auto simp: parse_jid_def Let_def split_once_Some split: option.splits prod.splits)

lemma parse_jid_str_ok:
  assumes "parse_jid s = Some j" and "str_ok s"
  shows "str_ok (pj_user j) \<and> str_ok (pj_server j)"
  using assms
  by (auto simp: parse_jid_def Let_def split_once_Some str_ok_split_ascii split: option.splits prod.splits)

lemma wire_value_no_at: "CHR ''@'' \<notin> set s \<Longrightarrow> wire_value tk s = VString s"
  by (simp add: wire_value.simps parse_jid_def)

context token_table
begin

lemma write_read_single:
  assumes "index_of_single_token tk s = Some i"
  shows "read_value_with tk rv (dec pre (i # r)) = Inr (Some (VString s), dec (pre @ [i]) r)"
proof -
  have "unat i \<noteq> 0" "unat i < 236"
    using single_range [OF assms] by simp_all
  then have "i \<noteq> LIST_EMPTY" "\<not> DICTIONARY_0 \<le> i" "i \<noteq> BINARY_8" "i \<noteq> BINARY_20" "i \<noteq> BINARY_32"
    "i \<noteq> JID_PAIR" "i \<noteq> AD_JID" "i \<noteq> INTEROP_JID" "i \<noteq> FB_JID" "i \<noteq> NIBBLE_8" "i \<noteq> HEX_8"
    by (auto simp: tag_defs word_le_nat_alt unat_eq_zero)
  then show ?thesis
    using single_sound [OF assms] by (simp add: read_value_with_def ok_or_def)
qed

lemma write_read_double:
  assumes "index_of_double_byte_token tk s = Some (d, i)"
  shows "read_value_with tk rv (dec pre ((DICTIONARY_0 + d) # i # r))
    = Inr (Some (VString s), dec (pre @ [DICTIONARY_0 + d, i]) r)"
proof -
  have "unat d < 4"
    using double_range [OF assms] .
  then have "d \<in> {0, 1, 2, 3}"
    using nibble_cases [of d] by (auto simp: word_less_nat_alt)
  then show ?thesis
    using double_sound [OF assms]
    by (elim insertE emptyE) (simp_all add: read_value_with_def tag_defs ok_or_def)
qed

lemma read_value_step:
  assumes hyp: "write_string tk s = Inr enc" "str_ok s" "length s < 2 ^ 32"
    and IH: "\<And>u e p q. length u < length s \<Longrightarrow> write_string tk u = Inr e \<Longrightarrow> str_ok u \<Longrightarrow>
      length e < length enc \<Longrightarrow>
      rv (dec p (e @ q)) = Inr (Some (value_to_string (wire_value tk u)), dec (p @ e) q)"
    and empty_rv: "\<And>p q. 1 < length enc \<Longrightarrow> rv (dec p (LIST_EMPTY # q)) = Inr (None, dec (p @ [LIST_EMPTY]) q)"
  shows "read_value_with tk rv (dec pre (enc @ r)) = Inr (Some (wire_value tk s), dec (pre @ enc) r)"
proof -
  consider (empty) "s = []"
    | (single) i where "s \<noteq> []" "index_of_single_token tk s = Some i"
    | (double) d i where "s \<noteq> []" "index_of_single_token tk s = None" "index_of_double_byte_token tk s = Some (d, i)"
    | (packed) t where "s \<noteq> []" "index_of_single_token tk s = None" "index_of_double_byte_token tk s = None"
        "t = NIBBLE_8 \<and> validate_nibble s \<or> t = HEX_8 \<and> \<not> validate_nibble s \<and> validate_hex s"
    | (other) "s \<noteq> []" "index_of_single_token tk s = None" "index_of_double_byte_token tk s = None"
        "\<not> validate_nibble s" "\<not> validate_hex s"
  proof (cases "index_of_single_token tk s")
    case None
    then show ?thesis
    proof (cases "index_of_double_byte_token tk s")
      case (Some di)
      with None that(1,3) show ?thesis by (cases di) blast
    qed (use that(1,4,5) in blast)
  qed (use that(1,2) in blast)
  then show ?thesis
  proof cases
    case empty
    then show ?thesis
      using hyp(1) read_string_dec [of 0 "[]"]
      by (auto simp: write_string.simps wire_value.simps write_u8_def read_value_tags)
  next
    case single
    then show ?thesis
      using hyp(1) write_read_single
      by (auto simp: write_string.simps [of tk s] wire_value.simps [of tk s] write_u8_def)
  next
    case double
    then show ?thesis
      using hyp(1) write_read_double
      by (auto simp: write_string.simps [of tk s] wire_value.simps [of tk s] write_u8_def)
  next
    case packed
    then have al: "set s \<subseteq> set (pack_alphabet t)" "length s \<le> PACKED_MAX" and t: "t = NIBBLE_8 \<or> t = HEX_8"
      by (auto simp: validate_nibble_alt validate_hex_alt)
    have "write_string tk s = write_packed_bytes s t" "wire_value tk s = VString s"
      using packed by (auto simp: write_string.simps [of tk s] wire_value.simps [of tk s])
    then have "enc = t # packed_len_byte (length s) # pack_pairs (map (nibble_value t) s)"
      using hyp(1) write_packed_ref [OF al] by simp
    then show ?thesis
      using read_packed_dec [OF t al packed(1)] t \<open>wire_value tk s = VString s\<close>
      by (auto simp: read_value_tags)
  next
    case other
    show ?thesis
    proof (cases "parse_jid s")
      case None
      with other hyp show ?thesis
        using write_read_bytes by (auto simp: write_string.simps [of tk s] wire_value.simps [of tk s])
    next
      case (Some j)
      have w: "write_string tk s = write_jid tk j"
        using other Some by (simp add: write_string.simps [of tk s])
      note len = parse_jid_length [OF Some] and ok = parse_jid_str_ok [OF Some hyp(2)]
      have user: "value_to_string (wire_value tk (pj_user j)) = pj_user j"
        by (simp add: wire_value_no_at parse_jid_user [OF Some])
      show ?thesis
      proof (cases "pj_device j")
        case dev: (Some dev)
        then obtain e where e: "write_string tk (pj_user j) = Inr e"
          "enc = AD_JID # pj_domain_type j # ucast dev # e"
          using hyp(1) w by (auto simp: write_jid.simps seqw_eq_Inr write_u8_def)
        with IH [OF _ e(1)] len ok user other Some dev show ?thesis
          by (simp add: read_value_tags read_ad_jid_def ok_or_def wire_value.simps [of tk s])
      next
        case None
        then obtain eu es where e: "write_string tk (pj_server j) = Inr es" "enc = JID_PAIR # eu @ es"
          and eu: "if pj_user j = [] then eu = [LIST_EMPTY] else write_string tk (pj_user j) = Inr eu"
          using hyp(1) w by (auto simp: write_jid.simps seqw_eq_Inr write_u8_def split: if_splits)
        have "rv (dec p (eu @ q))
            = Inr (if pj_user j = [] then None else Some (pj_user j), dec (p @ eu) q)" for p q
        proof (cases "pj_user j = []")
          case True
          then show ?thesis
            using eu empty_rv e(2) by simp
        next
          case False
          then show ?thesis
            using IH [of "pj_user j" eu p q] eu len ok user e(2) by simp
        qed
        with IH [OF _ e(1)] len ok e(2) other Some None show ?thesis
          by (simp add: read_value_tags read_jid_pair_def unwrap_or_def wire_value.simps [of tk s])
      qed
    qed
  qed
qed

lemma read_list_empty: "read_value_as_string_fuel tk (Suc n) (dec p (LIST_EMPTY # q)) = Inr (None, dec (p @ [LIST_EMPTY]) q)"
  by (simp add: read_value_as_string_fuel.simps)

lemma write_read_value:
  assumes "write_string tk s = Inr enc" and "str_ok s" and "length s < 2 ^ 32" and "length enc \<le> n"
  shows "read_value_with tk (read_value_as_string_fuel tk n) (dec pre (enc @ r))
    = Inr (Some (wire_value tk s), dec (pre @ enc) r)"
  using assms
proof (induction "length s" arbitrary: s enc n pre r rule: less_induct)
  case less
  show ?case
  proof (rule read_value_step [OF less.prems(1,2,3)])
    fix u e p q
    assume u: "length u < length s" "write_string tk u = Inr e" "str_ok u" "length e < length enc"
    then obtain k where "n = Suc k" "length e \<le> k"
      using less.prems(4) by (cases n) simp_all
    then show "read_value_as_string_fuel tk n (dec p (e @ q))
        = Inr (Some (value_to_string (wire_value tk u)), dec (p @ e) q)"
      using less.hyps [OF u(1,2,3), of k] u(1) less.prems(3) by (simp add: read_value_string)
  next
    fix p q
    assume "1 < length enc"
    then obtain k where "n = Suc k"
      using less.prems(4) by (cases n) simp_all
    then show "read_value_as_string_fuel tk n (dec p (LIST_EMPTY # q)) = Inr (None, dec (p @ [LIST_EMPTY]) q)"
      by (simp add: read_list_empty)
  qed
qed

lemma write_read_string:
  assumes "write_string tk s = Inr enc" and "str_ok s" and "length s < 2 ^ 32"
  shows "read_value_as_string tk (dec pre (enc @ r))
      = Inr (Some (value_to_string (wire_value tk s)), dec (pre @ enc) r)"
  using write_read_value [OF assms, of "length (enc @ r)" pre r]
  by (simp add: read_value_as_string_def read_value_string)

end

text \<open>Strings that come back unchanged.\<close>

definition wire_ok :: "string \<Rightarrow> bool" where
  "wire_ok s \<longleftrightarrow>
     (case split_once CHR ''@'' s of
        None \<Rightarrow> True
      | Some (uc, srv) \<Rightarrow>
          CHR ''@'' \<notin> set srv
          \<and> (case split_once CHR '':'' uc of
               None \<Rightarrow> uc \<noteq> [] \<and> CHR ''_'' \<notin> set uc
             | Some (u, ds) \<Rightarrow> u \<noteq> [] \<and> CHR ''_'' \<notin> set u
                 \<and> (srv = DEFAULT_USER_SERVER \<or> srv = HIDDEN_USER_SERVER \<or> srv = HOSTED_SERVER)
                 \<and> (case parse_u16 ds of
                      None \<Rightarrow> False
                    | Some d \<Rightarrow> 0 < d \<and> d < 256 \<and> ds = show_word d)))"

lemma ucast_byte_u16:
  assumes "d < 256"
  shows "ucast (ucast (d :: u16) :: byte) = d"
proof -
  have "bit d n \<Longrightarrow> n < 8" for n
    using assms bit_less_exp [of d 8 n] by (simp add: word_less_nat_alt)
  then show ?thesis
    by (intro bit_word_eqI) (auto simp: bit_simps)
qed

lemma wire_ok_pair:
  assumes "CHR ''@'' \<notin> set u" "CHR '':'' \<notin> set u" "CHR ''_'' \<notin> set u" "u \<noteq> []" "CHR ''@'' \<notin> set srv"
  shows "value_to_string (wire_value tk (u @ CHR ''@'' # srv)) = u @ CHR ''@'' # srv"
proof -
  have "parse_jid (u @ CHR ''@'' # srv) = Some \<lparr>pj_user = u, pj_server = srv,
      pj_domain_type = (if srv = HIDDEN_USER_SERVER then 1 else if srv = HOSTED_SERVER then 128
        else if srv = ''hosted.lid'' then 129 else 0), pj_device = None\<rparr>"
    using assms by (simp add: parse_jid_def unwrap_or_def)
  then show ?thesis
    using assms by (subst wire_value.simps) (simp add: wire_value_no_at jid_to_string_def)
qed

lemma parse_jid_device:
  assumes "CHR ''@'' \<notin> set u" "CHR '':'' \<notin> set u" "CHR ''_'' \<notin> set u"
  shows "parse_jid (u @ CHR '':'' # show_word (d :: u16) @ CHR ''@'' # srv) = Some \<lparr>pj_user = u, pj_server = srv,
      pj_domain_type = (if srv = HIDDEN_USER_SERVER then 1 else if srv = HOSTED_SERVER then 128
        else if srv = ''hosted.lid'' then 129 else 0), pj_device = Some d\<rparr>"
proof -
  let ?s = "(u @ CHR '':'' # show_word d) @ CHR ''@'' # srv"
  have at: "CHR ''@'' \<notin> set (u @ CHR '':'' # show_word d)"
    using assms(1) by (simp add: is_digit_def)
  have ne: "show_word d \<noteq> []"
    by (simp add: show_word_def)
  have "parse_jid ?s = Some \<lparr>pj_user = u, pj_server = srv,
      pj_domain_type = (if srv = HIDDEN_USER_SERVER then 1 else if srv = HOSTED_SERVER then 128
        else if srv = ''hosted.lid'' then 129 else 0), pj_device = Some d\<rparr>"
    unfolding parse_jid_def split_once_append [OF at]
    using assms(2,3) ne by (simp add: unwrap_or_def)
  then show ?thesis by simp
qed

lemma wire_ok_device:
  assumes "CHR ''@'' \<notin> set u" "CHR '':'' \<notin> set u" "CHR ''_'' \<notin> set u" "u \<noteq> []" "0 < d" "d < (256 :: u16)"
    and srv: "srv = DEFAULT_USER_SERVER \<or> srv = HIDDEN_USER_SERVER \<or> srv = HOSTED_SERVER"
  shows "value_to_string (wire_value tk (u @ CHR '':'' # show_word d @ CHR ''@'' # srv))
    = u @ CHR '':'' # show_word d @ CHR ''@'' # srv"
  using assms parse_jid_device [OF assms(1-3), of d srv]
  by (subst wire_value.simps)
     (auto simp: jid_to_string_def ucast_byte_u16 ad_server_def server_defs)

lemma wire_ok_identity:
  assumes "wire_ok s"
  shows "value_to_string (wire_value tk s) = s"
proof (cases "split_once CHR ''@'' s")
  case None
  then show ?thesis by (simp add: split_once_None_iff wire_value_no_at)
next
  case (Some p)
  obtain uc srv where p: "split_once CHR ''@'' s = Some (uc, srv)"
    using Some by (cases p) simp
  then have s: "s = uc @ CHR ''@'' # srv" and at: "CHR ''@'' \<notin> set uc"
    by (simp_all add: split_once_Some)
  show ?thesis
  proof (cases "split_once CHR '':'' uc")
    case None
    then show ?thesis
      using assms p at wire_ok_pair [of uc srv tk]
      by (simp add: wire_ok_def s split_once_None_iff)
  next
    case (Some q)
    then obtain u and d :: u16 where q: "split_once CHR '':'' uc = Some (u, show_word d)" "0 < d" "d < 256"
      "u \<noteq> []" "CHR ''_'' \<notin> set u"
      "srv = DEFAULT_USER_SERVER \<or> srv = HIDDEN_USER_SERVER \<or> srv = HOSTED_SERVER"
      using assms p by (cases q) (auto simp: wire_ok_def split: option.splits)
    then have "uc = u @ CHR '':'' # show_word d" "CHR '':'' \<notin> set u"
      by (simp_all add: split_once_Some)
    then show ?thesis
      using q at wire_ok_device [of u d srv tk] by (simp add: s)
  qed
qed

section \<open>Nodes\<close>

definition raw_string :: "tokens \<Rightarrow> string \<Rightarrow> bool" where
  \<comment> \<open>written as a length and the bytes\<close>
  "raw_string tk s \<longleftrightarrow> s = [] \<or> (index_of_single_token tk s = None \<and> index_of_double_byte_token tk s = None
     \<and> \<not> validate_nibble s \<and> \<not> validate_hex s \<and> parse_jid s = None)"

abbreviation wire_string :: "tokens \<Rightarrow> string \<Rightarrow> string" where
  "wire_string tk s \<equiv> value_to_string (wire_value tk s)"

text \<open>The node the decoder reads back from a written node.\<close>

fun wire_ref :: "tokens \<Rightarrow> node \<Rightarrow> node_ref"
and wire_content :: "tokens \<Rightarrow> node_content \<Rightarrow> content_ref option" where
  "wire_ref tk (Node t as c) =
     NodeRef (wire_string tk t) (map (\<lambda>(k, v). (wire_string tk k, wire_value tk v)) as)
       (case c of None \<Rightarrow> None | Some x \<Rightarrow> wire_content tk x)"
| "wire_content tk (NBytes bs) = Some (RBytes bs)"
| "wire_content tk (NString s) =
     Some (if raw_string tk s then RBytes (as_bytes s) else RString (wire_string tk s))"
| "wire_content tk (NNodes ns) = (if ns = [] then None else Some (RNodes (map (wire_ref tk) ns)))"

definition string_fits :: "string \<Rightarrow> bool" where
  "string_fits s \<longleftrightarrow> str_ok s \<and> length s < 2 ^ 32"

text \<open>Sizes that the length fields of the format can carry.\<close>

fun node_fits :: "node \<Rightarrow> bool"
and content_fits :: "node_content \<Rightarrow> bool" where
  "node_fits (Node t as c) \<longleftrightarrow> string_fits t \<and> length as < 32767
     \<and> list_all (\<lambda>(k, v). string_fits k \<and> string_fits v) as
     \<and> (case c of None \<Rightarrow> True | Some x \<Rightarrow> content_fits x)"
| "content_fits (NBytes bs) \<longleftrightarrow> length bs < 2 ^ 32"
| "content_fits (NString s) \<longleftrightarrow> string_fits s"
| "content_fits (NNodes ns) \<longleftrightarrow> length ns < 65536 \<and> list_all node_fits ns"

lemma list_start_dec:
  assumes "0 < n" and "n < 65536"
  shows "rbind (read_u8 (dec pre (write_list_start n @ r))) (\<lambda>(t, d). rbind (read_list_size t d) f)
    = f (n, dec (pre @ write_list_start n) r)"
proof -
  have "unat (of_nat n :: byte) = n" if "n < 256"
    using that by (simp add: unat_of_nat)
  moreover have "unat (of_nat n :: u16) = n"
    using assms by (simp add: unat_of_nat)
  ultimately show ?thesis
    using assms u16_be_roundtrip [of "of_nat n"]
    by (simp add: write_list_start_def write_u8_def write_u16_be_def u16_to_be_def read_list_size_def
        tag_defs)
qed

lemma list_start_tag:
  assumes "0 < n" and "n < 65536"
  obtains t e where "write_list_start n = t # e" "t = LIST_8 \<or> t = LIST_16" 
  using assms that by (cases "n < 256") (simp_all add: write_list_start_def write_u8_def tag_defs)

lemma content_tags:
  "read_content tk rn (dec pre (LIST_EMPTY # r)) = Inr (None, dec (pre @ [LIST_EMPTY]) r)"
  "t = LIST_8 \<or> t = LIST_16 \<Longrightarrow> read_content tk rn (dec pre (t # r)) =
     rbind (read_u8 (dec pre (t # r))) (\<lambda>(t, d). rbind (read_list_size t d) (\<lambda>(sz, d).
       rmap (\<lambda>(ns, d). (Some (RNodes ns), d)) (read_nodes rn sz d)))"
  "read_content tk rn (dec pre (BINARY_8 # r)) =
     rbind (read_u8 (dec (pre @ [BINARY_8]) r)) (\<lambda>(len, d).
       rmap (\<lambda>(bs, d). (Some (RBytes bs), d)) (read_bytes (unat len) d))"
  "read_content tk rn (dec pre (BINARY_20 # r)) =
     rbind (read_u20_be (dec (pre @ [BINARY_20]) r)) (\<lambda>(len, d).
       rmap (\<lambda>(bs, d). (Some (RBytes bs), d)) (read_bytes (unat len) d))"
  "read_content tk rn (dec pre (BINARY_32 # r)) =
     rbind (read_u32_be (dec (pre @ [BINARY_32]) r)) (\<lambda>(len, d).
       rmap (\<lambda>(bs, d). (Some (RBytes bs), d)) (read_bytes (unat len) d))"
  "t \<notin> {LIST_EMPTY, LIST_8, LIST_16, BINARY_8, BINARY_20, BINARY_32} \<Longrightarrow>
     read_content tk rn (dec pre (t # r)) =
       rmap (\<lambda>(s, d). (map_option RString s, d)) (read_value_as_string tk (dec pre (t # r)))"
proof -
  have unread: "(dec (pre @ [t]) r)\<lparr>position := position (dec (pre @ [t]) r) - 1\<rparr> = dec pre (t # r)" for t
    by (simp add: dec_def)
  show "t \<notin> {LIST_EMPTY, LIST_8, LIST_16, BINARY_8, BINARY_20, BINARY_32} \<Longrightarrow>
     read_content tk rn (dec pre (t # r)) =
       rmap (\<lambda>(s, d). (map_option RString s, d)) (read_value_as_string tk (dec pre (t # r)))"
    using unread [of t] by (simp add: read_content_def Let_def)
qed (auto simp: read_content_def tag_defs)

lemma write_read_bytes_content:
  assumes "length bs < 2 ^ 32"
  shows "read_content tk rn (dec pre (write_bytes_with_len bs @ r))
    = Inr (Some (RBytes bs), dec (pre @ write_bytes_with_len bs) r)"
  using assms by (rule write_bytes_cases) (simp_all add: content_tags)

context token_table
begin

lemma write_read_value_top:
  assumes "write_string tk s = Inr enc" and "string_fits s"
  shows "read_value tk (dec pre (enc @ r)) = Inr (Some (wire_value tk s), dec (pre @ enc) r)"
  unfolding read_value_def
proof (rule read_value_step [OF assms(1)])
  show "read_value_as_string tk (dec p (LIST_EMPTY # q)) = Inr (None, dec (p @ [LIST_EMPTY]) q)" for p q
    by (simp add: read_value_as_string_def read_list_empty)
qed (use assms(2) write_read_string in \<open>auto simp: string_fits_def\<close>)

lemma write_string_head:
  assumes "write_string tk s = Inr enc" and "\<not> raw_string tk s"
  obtains t e where "enc = t # e" "t \<notin> {LIST_EMPTY, LIST_8, LIST_16, BINARY_8, BINARY_20, BINARY_32}"
proof (cases "index_of_single_token tk s")
  case (Some i)
  then have "unat i \<noteq> 0" "unat i < 236"
    using single_range by auto
  then have "i \<notin> {LIST_EMPTY, LIST_8, LIST_16, BINARY_8, BINARY_20, BINARY_32}"
    by (auto simp: tag_defs)
  with Some assms that show ?thesis
    by (auto simp: write_string.simps [of tk s] raw_string_def write_u8_def)
next
  case None
  show ?thesis
  proof (cases "index_of_double_byte_token tk s")
    case (Some di)
    obtain d i where di: "di = (d, i)" by (cases di)
    then have "unat d < 4"
      using Some double_range by simp
    then have "d \<in> {0, 1, 2, 3}"
      using nibble_cases [of d] by (auto simp: word_less_nat_alt)
    then have "DICTIONARY_0 + d \<notin> {LIST_EMPTY, LIST_8, LIST_16, BINARY_8, BINARY_20, BINARY_32}"
      by (auto simp: tag_defs)
    moreover have "enc = [DICTIONARY_0 + d, i]"
      using Some None di assms by (auto simp: write_string.simps [of tk s] raw_string_def write_u8_def)
    ultimately show ?thesis
      using that by blast
  next
    case no_double: None
    note eq = write_string.simps [of tk s]
    show ?thesis
    proof (cases "validate_nibble s \<or> validate_hex s")
      case True
      define t where "t = (if validate_nibble s then NIBBLE_8 else HEX_8)"
      have "write_string tk s = write_packed_bytes s t"
        using True None no_double assms(2) by (auto simp: eq raw_string_def t_def)
      moreover have "set s \<subseteq> set (pack_alphabet t)" "length s \<le> PACKED_MAX"
        using True by (auto simp: t_def validate_nibble_alt validate_hex_alt)
      moreover have "t = NIBBLE_8 \<or> t = HEX_8"
        by (simp add: t_def)
      ultimately show ?thesis
        using that assms(1) write_packed_ref [of s t] by (auto simp: tag_defs)
    next
      case False
      with None no_double assms obtain j where "write_jid tk j = Inr enc"
        by (auto simp: eq raw_string_def)
      then show ?thesis
        using that by (auto simp: write_jid.simps seqw_eq_Inr write_u8_def tag_defs split: option.splits)
    qed
  qed
qed

lemma write_read_string_content:
  assumes "write_string tk s = Inr enc" and "string_fits s"
  shows "read_content tk rn (dec pre (enc @ r)) = Inr (wire_content tk (NString s), dec (pre @ enc) r)"
proof (cases "raw_string tk s")
  case True
  show ?thesis
  proof (cases "s = []")
    case True
    then have "enc = write_bytes_with_len []"
      using assms(1) by (simp add: write_string.simps write_bytes_with_len_def write_u8_def)
    with True show ?thesis
      using write_read_bytes_content [of "[]"] by (simp add: raw_string_def)
  next
    case False
    then have "enc = write_bytes_with_len (as_bytes s)"
      using assms(1) True by (simp add: write_string.simps [of tk s] raw_string_def)
    with True assms(2) show ?thesis
      using write_read_bytes_content [of "as_bytes s"] by (simp add: string_fits_def)
  qed
next
  case False
  with assms(1) obtain t e where t: "enc = t # e"
    "t \<notin> {LIST_EMPTY, LIST_8, LIST_16, BINARY_8, BINARY_20, BINARY_32}"
    by (rule write_string_head)
  have "read_value_as_string tk (dec pre (enc @ r)) = Inr (Some (wire_string tk s), dec (pre @ enc) r)"
    using assms write_read_string by (simp add: string_fits_def)
  with False show ?thesis
    unfolding t(1) append_Cons content_tags(6) [OF t(2)] by simp
qed

lemma write_read_attributes:
  assumes "write_attributes tk as = Inr enc" and "list_all (\<lambda>(k, v). string_fits k \<and> string_fits v) as"
  shows "read_attributes tk (length as) (dec pre (enc @ r))
    = Inr (map (\<lambda>(k, v). (wire_string tk k, wire_value tk v)) as, dec (pre @ enc) r)"
  using assms
proof (induction as arbitrary: enc pre)
  case (Cons kv as)
  obtain k v where kv: "kv = (k, v)" by (cases kv)
  with Cons.prems obtain ek ev es where e: "write_string tk k = Inr ek" "write_string tk v = Inr ev"
    "write_attributes tk as = Inr es" "enc = ek @ ev @ es"
    by (auto simp: write_attributes_def seqw_eq_Inr)
  have fits: "string_fits k" "string_fits v"
    using Cons.prems kv by simp_all
  have "read_value_as_string tk (dec p (ek @ q)) = Inr (Some (wire_string tk k), dec (p @ ek) q)" for p q
    using write_read_string [OF e(1)] fits by (simp add: string_fits_def)
  moreover note write_read_value_top [OF e(2) fits(2)]
  ultimately show ?case
    using Cons e kv by (simp add: ok_or_def unwrap_or_def)
qed (simp add: write_attributes_def)

lemma write_read_nodes:
  assumes "\<And>n e m p q. n \<in> set ns \<Longrightarrow> write_node tk n = Inr e \<Longrightarrow> length e \<le> m \<Longrightarrow>
      read_node_fuel tk m (dec p (e @ q)) = Inr (wire_ref tk n, dec (p @ e) q)"
    and "seqws (map (write_node tk) ns) = Inr es" and "length es \<le> m"
  shows "read_nodes (read_node_fuel tk m) (length ns) (dec p (es @ q))
    = Inr (map (wire_ref tk) ns, dec (p @ es) q)"
  using assms
proof (induction ns arbitrary: es p)
  case (Cons n ns)
  obtain e es' where e: "write_node tk n = Inr e" "seqws (map (write_node tk) ns) = Inr es'" "es = e @ es'"
    using Cons.prems(2) by (auto simp: seqw_eq_Inr)
  have "read_nodes (read_node_fuel tk m) (length ns) (dec (p @ e) (es' @ q))
      = Inr (map (wire_ref tk) ns, dec ((p @ e) @ es') q)"
    using Cons.prems e by (intro Cons.IH) simp_all
  with Cons.prems(1) [of n e m p "es' @ q"] Cons.prems(3) e show ?case
    by simp
qed simp

lemma write_read_node:
  "write_node tk n = Inr enc \<Longrightarrow> node_fits n \<Longrightarrow> length enc \<le> m \<Longrightarrow>
     read_node_fuel tk m (dec pre (enc @ r)) = Inr (wire_ref tk n, dec (pre @ enc) r)"
  "write_content tk c = Inr enc' \<Longrightarrow> content_fits c \<Longrightarrow> length enc' \<le> m \<Longrightarrow>
     read_content tk (read_node_fuel tk m) (dec pre (enc' @ r)) = Inr (wire_content tk c, dec (pre @ enc') r)"
proof (induction n and c arbitrary: enc m pre r and enc' m pre r rule: node_fits_content_fits.induct)
  case (1 t as c)
  define n where "n = 1 + length as * 2 + (if c \<noteq> None then 1 else 0)"
  obtain et ea ec where e: "write_string tk t = Inr et" "write_attributes tk as = Inr ea"
    "(case c of Some x \<Rightarrow> write_content tk x | None \<Rightarrow> Inr []) = Inr ec"
    "enc = write_list_start n @ et @ ea @ ec"
    using 1(2) by (auto simp: seqw_eq_Inr n_def)
  have n: "0 < n" "n < 65536" "(n - 1) div 2 = length as" "n mod 2 = 0 \<longleftrightarrow> c \<noteq> None"
    using 1(3) by (simp_all add: n_def)
  obtain k where m: "m = Suc k" "length ec \<le> k"
    using 1(4) e(4) n by (cases m) (simp_all add: write_list_start_def write_u8_def split: if_splits)
  have fits: "string_fits t" "list_all (\<lambda>(k, v). string_fits k \<and> string_fits v) as"
    using 1(3) by simp_all
  have content: "(if n mod 2 = 0 then read_content tk (read_node_fuel tk k) (dec p (ec @ r)) else Inr (None, dec p (ec @ r)))
      = Inr (case c of None \<Rightarrow> None | Some x \<Rightarrow> wire_content tk x, dec (p @ ec) r)" for p
  proof (cases c)
    case None
    then show ?thesis using e(3) n(4) by simp
  next
    case (Some x)
    then show ?thesis
      using 1(1) [OF Some _ _ m(2)] 1(3) e(3) n(4) by simp
  qed
  have "read_value_as_string tk (dec p (et @ q)) = Inr (Some (wire_string tk t), dec (p @ et) q)" for p q
    using write_read_string [OF e(1)] fits(1) by (simp add: string_fits_def)
  moreover note write_read_attributes [OF e(2) fits(2)]
  ultimately show ?case
    unfolding m(1) e(4) read_node_fuel.simps append_assoc list_start_dec [OF n(1,2)]
    using n(1,3) content by (simp add: ok_or_def)
next
  case (2 bs)
  then show ?case using write_read_bytes_content by auto
next
  case (3 s)
  then show ?case using write_read_string_content by simp
next
  case (4 ns)
  show ?case
  proof (cases "ns = []")
    case True
    with 4 show ?thesis
      by (auto simp: write_list_start_def write_u8_def content_tags)
  next
    case False
    obtain es where e: "seqws (map (write_node tk) ns) = Inr es" "enc' = write_list_start (length ns) @ es"
      using 4(2) by (auto simp: seqw_eq_Inr)
    have n: "0 < length ns" "length ns < 65536"
      using False 4(3) by simp_all
    obtain t e' where t: "write_list_start (length ns) = t # e'" "t = LIST_8 \<or> t = LIST_16"
      using n by (rule list_start_tag)
    have "length es \<le> m"
      using 4(4) e(2) by simp
    then have "read_nodes (read_node_fuel tk m) (length ns) (dec p (es @ r))
        = Inr (map (wire_ref tk) ns, dec (p @ es) r)" for p
      using 4(1,3) e(1) write_read_nodes by (auto simp: list_all_iff)
    moreover have "read_content tk (read_node_fuel tk m) (dec pre (write_list_start (length ns) @ es @ r)) =
        rbind (read_u8 (dec pre (write_list_start (length ns) @ es @ r))) (\<lambda>(t, d). rbind (read_list_size t d)
          (\<lambda>(sz, d). rmap (\<lambda>(ns, d). (Some (RNodes ns), d)) (read_nodes (read_node_fuel tk m) sz d)))"
      unfolding t(1) append_Cons by (rule content_tags(2) [OF t(2)])
    ultimately show ?thesis
      using False by (simp add: e(2) list_start_dec [OF n])
  qed
qed

lemma marshal_unmarshal:
  assumes "node_fits n"
  shows "\<exists>bs. marshal tk n = Inr (0 # bs) \<and> unmarshal_ref tk bs = Inr (wire_ref tk n)"
proof -
  obtain bs where bs: "write_node tk n = Inr bs"
    using write_node_total(1) by blast
  then have "read_node_ref tk (dec [] bs) = Inr (wire_ref tk n, dec bs [])"
    using write_read_node(1) [OF bs assms, of "Suc (length bs)" "[]" "[]"] by (simp add: read_node_ref_def)
  with bs show ?thesis
    by (simp add: marshal_def marshal_to_def encoder_new_def write_u8_def unmarshal_ref_def decoder_new_dec)
qed

end

text \<open>Trees that come back unchanged.\<close>

fun node_stable :: "tokens \<Rightarrow> node \<Rightarrow> bool"
and content_stable :: "tokens \<Rightarrow> node_content \<Rightarrow> bool" where
  "node_stable tk (Node t as c) \<longleftrightarrow> wire_ok t \<and> attrs_ok as
     \<and> list_all (\<lambda>(k, v). wire_ok k \<and> wire_ok v) as
     \<and> (case c of None \<Rightarrow> True | Some x \<Rightarrow> content_stable tk x)"
| "content_stable tk (NBytes bs) \<longleftrightarrow> True"
| "content_stable tk (NString s) \<longleftrightarrow> \<not> raw_string tk s \<and> wire_ok s"
| "content_stable tk (NNodes ns) \<longleftrightarrow> ns \<noteq> [] \<and> list_all (node_stable tk) ns"

lemma wire_ref_stable:
  "node_stable tk n \<Longrightarrow> node_to_owned (wire_ref tk n) = n"
  "content_stable tk c \<Longrightarrow> map_option content_to_owned (wire_content tk c) = Some c"
proof (induction tk n and tk c rule: node_stable_content_stable.induct)
  case (1 tk t as c)
  have "map (\<lambda>(k, v). (k, value_to_string v)) (map (\<lambda>(k, v). (wire_string tk k, wire_value tk v)) as) = as"
    using 1(2) by (auto simp: list_all_iff wire_ok_identity intro!: map_idI)
  with 1 show ?case
    by (auto simp: wire_ok_identity split: option.splits)
next
  case (4 tk ns)
  then show ?case
    by (auto simp: list_all_iff intro: map_idI)
qed (simp_all add: wire_ok_identity)

lemma unmarshal_tame: "tame (unmarshal_ref tk bs)"
proof -
  have "decoder_wf (decoder_new bs)"
    by (simp add: decoder_wf_def decoder_new_def)
  then have "tame (read_node_ref tk (decoder_new bs))"
    by (rule goodD(1) [OF good_node]) (rule lessI)
  then show ?thesis
    unfolding unmarshal_ref_def by (intro tame_rbind) (auto split: prod.splits)
qed

section \<open>Properties\<close>

text \<open>C12: Every node whose sizes fit the length fields of the format is marshalled without
  error, and unpacking and unmarshalling the result, with any decompressor, consumes every byte and
  returns the node \<open>wire_ref\<close>: the same tree, in which JID texts have become structured JIDs, text
  content that is neither a token, packed nor a JID has become bytes, and an empty list of children
  has become no content.\<close>

theorem marshal_roundtrip:
  assumes "node_fits n"
  shows "rbind (marshal wa_tokens n) (\<lambda>payload.
           rbind (unpack inflate payload) (unmarshal_ref wa_tokens)) = Inr (wire_ref wa_tokens n)"
  using wa.marshal_unmarshal [OF assms] by (auto simp: unpack_def)

theorem marshal_roundtrip_witness:
  "rbind (marshal wa_tokens (Node ''iq'' [(''to'', ''15551234:7@s.whatsapp.net'')] (Some (NBytes [1, 2]))))
     (\<lambda>payload. rbind (unpack (\<lambda>_. Inl ''corrupt'') payload) (unmarshal_ref wa_tokens))
   = Inr (wire_ref wa_tokens (Node ''iq'' [(''to'', ''15551234:7@s.whatsapp.net'')] (Some (NBytes [1, 2]))))"
  by (rule marshal_roundtrip) (simp add: string_fits_def str_ok_ascii)

text \<open>C13: For trees in which attribute names are distinct, every text is free of \<open>@\<close> or is a
  JID without agent (with a device only from 1 to 255 and only on the user, hidden and hosted
  servers), text content is not written as raw bytes and no list of children is empty, the
  round trip returns the node itself.\<close>

theorem marshal_identity:
  assumes "node_fits n" and "node_stable wa_tokens n"
  shows "rbind (marshal wa_tokens n) (\<lambda>payload.
           rbind (unpack inflate payload) (\<lambda>bs. rmap node_to_owned (unmarshal_ref wa_tokens bs))) = Inr n"
  using wa.marshal_unmarshal [OF assms(1)] wire_ref_stable(1) [OF assms(2)] by (auto simp: unpack_def)

theorem marshal_identity_witness:
  "let n = Node ''iq'' [(''to'', ''15551234:7@s.whatsapp.net''), (''id'', ''3EB0'')]
             (Some (NNodes [Node ''ping'' [] None, Node ''enc'' [] (Some (NBytes [7]))]))
   in rbind (marshal wa_tokens n) (\<lambda>payload.
        rbind (unpack (\<lambda>_. Inl ''corrupt'') payload) (\<lambda>bs. rmap node_to_owned (unmarshal_ref wa_tokens bs)))
      = Inr n"
  unfolding Let_def
  by (rule marshal_identity)
     (simp_all add: string_fits_def str_ok_ascii wire_ok_def attrs_ok_def server_defs text_eval
        show_word_def show_nat.simps digit_char_def char_of_def bit_0)


text \<open>C16: Unpacking sixteen bytes at a time with vector lanes, falling back to a
  scalar scan when a lane is invalid, gives the same characters or the same first error as unpacking
  every byte with the scalar routine.\<close>

theorem unpacking_vector_scalar:
  assumes "t = NIBBLE_8 \<or> t = HEX_8"
  shows "unpack_chunks t bs = unpack_bytes t bs"
  using assms by (rule unpack_chunks_scalar)

theorem unpacking_vector_scalar_witness:
  "unpack_chunks NIBBLE_8 (replicate 16 0x12 @ [0xD0]) = unpack_bytes NIBBLE_8 (replicate 16 0x12 @ [0xD0])
   \<and> unpack_bytes NIBBLE_8 [0xD0] = Throw (InvalidToken 13)"
  using unpacking_vector_scalar [of NIBBLE_8 "replicate 16 0x12 @ [0xD0]"]
  by (simp add: unpack_byte_def)

text \<open>C33: Serialising a borrowed tree directly writes the same bytes as converting it to an
  owned tree and serialising that, for trees whose attribute names are distinct.\<close>

theorem marshal_ref_agrees:
  assumes "ref_attrs_ok r"
  shows "marshal_ref tk r = marshal tk (node_to_owned r)"
  using write_node_ref_owned(1) [OF assms]
  by (simp add: marshal_ref_def marshal_def marshal_ref_to_def marshal_to_def)

theorem marshal_ref_agrees_witness:
  "marshal_ref wa_tokens (NodeRef ''a'' [(''to'', VJid (pn ''1''))] None)
   = marshal wa_tokens (node_to_owned (NodeRef ''a'' [(''to'', VJid (pn ''1''))] None))"
  by (rule marshal_ref_agrees) (simp add: attrs_ok_def)

lemma no_at_in_tokens:
  assumes "CHR ''@'' \<in> set s"
  shows "\<not> validate_nibble s" "\<not> validate_hex s"
  using assms
  by (auto simp: validate_nibble_def validate_hex_def list_all_iff is_digit_def is_hex_upper_def
      intro!: bexI [of _ "CHR ''@''"])



end
