(* ===== verification/Socket.thy ===== *)
theory Socket
  imports Noise Marshal
begin

text \<open>
  The encrypted socket (\<^verbatim>\<open>src/socket/noise_socket.rs\<close>, \<^verbatim>\<open>src/socket/error.rs\<close>) and the
  client's use of it (\<open>send_node\<close>, \<open>decrypt_frame\<close> and \<open>read_messages_loop\<close> of
  \<^verbatim>\<open>src/client.rs\<close>). The cipher is the parameter \<open>noise_crypto\<close>; what the runtime and the
  transport do to a job are fields of the job. Logging and the capacity-bounded pool of reusable
  buffers are not modelled.
\<close>

section \<open>NoiseSocket\<close>

datatype send_error_kind = SendCrypto | SendFraming | SendTransport | SendJoin | ChannelClosed

record send_error =
  kind :: send_error_kind
  err_plaintext_buf :: bytes
  err_out_buf :: bytes

definition send_error_of :: "send_error_kind \<Rightarrow> bytes \<Rightarrow> bytes \<Rightarrow> send_error" where
  "send_error_of k p out = \<lparr>kind = k, err_plaintext_buf = p, err_out_buf = out\<rparr>"

type_synonym send_result = "(bytes \<times> bytes, send_error) result"

definition INLINE_ENCRYPT_THRESHOLD :: nat where
  "INLINE_ENCRYPT_THRESHOLD = 16 * 1024"

text \<open>A job, with what its surroundings do: what a failed in-place encryption leaves in the buffer,
  whether the blocking thread completes, and whether the transport accepts the bytes.\<close>

record send_job =
  plaintext_buf :: bytes
  out_buf :: bytes
  residue :: bytes
  join_ok :: bool
  send_ok :: bool

definition process_send_job ::
    "'k noise_crypto \<Rightarrow> 'k \<Rightarrow> send_job \<Rightarrow> u32 \<Rightarrow> send_result \<times> bytes \<times> u32" where
  \<comment> \<open>the result, the bytes the transport accepted, and the next counter\<close>
  "process_send_job C write_key job write_counter =
     (let counter = write_counter;
          write_counter = write_counter + 1;
          ciphertext = seal C write_key (generate_iv counter) [] (plaintext_buf job);
          framed =
            (if length (plaintext_buf job) \<le> INLINE_ENCRYPT_THRESHOLD then
               rbind (ok_or ciphertext (send_error_of SendCrypto [] (residue job))) (\<lambda>c.
                 map_err (send_error_of SendFraming [] []) (encode_frame_into c None []))
             else if \<not> join_ok job
             then Throw (send_error_of SendJoin (plaintext_buf job) (out_buf job))
             else
               rbind (ok_or ciphertext (send_error_of SendCrypto (plaintext_buf job) (out_buf job))) (\<lambda>c.
                 map_err (send_error_of SendFraming [] []) (encode_frame_into c None [])))
      in case framed of
           Inl e \<Rightarrow> (Inl e, [], write_counter)
         | Inr out \<Rightarrow>
             if send_ok job then (Inr ([], []), out, write_counter)
             else (Throw (send_error_of SendTransport [] out), [], write_counter))"

fun sender_loop :: "'k noise_crypto \<Rightarrow> 'k \<Rightarrow> send_job list \<Rightarrow> u32 \<Rightarrow> send_result list \<times> bytes" where
  "sender_loop C write_key [] write_counter = ([], [])"
| "sender_loop C write_key (job # jobs) write_counter =
     (let (result, sent, write_counter) = process_send_job C write_key job write_counter;
          (results, more) = sender_loop C write_key jobs write_counter
      in (result # results, sent @ more))"

definition sender_task :: "'k noise_crypto \<Rightarrow> 'k \<Rightarrow> send_job list \<Rightarrow> send_result list \<times> bytes" where
  "sender_task C write_key jobs = sender_loop C write_key jobs 0"

definition encrypt_and_send :: "bool \<Rightarrow> send_result option \<Rightarrow> bytes \<Rightarrow> bytes \<Rightarrow> send_result" where
  \<comment> \<open>whether the channel takes the job, and the response of the sender task, if one comes\<close>
  "encrypt_and_send channel_open response p out =
     (if \<not> channel_open then Throw (send_error_of ChannelClosed p out)
      else case response of
             Some result \<Rightarrow> result
           | None \<Rightarrow> Throw (send_error_of ChannelClosed [] []))"

record 'k noise_socket =
  read_key :: 'k
  read_counter :: u32

definition socket_decrypt_frame :: "'k noise_crypto \<Rightarrow> bytes \<Rightarrow> 'k noise_socket \<Rightarrow> bytes option \<times> 'k noise_socket" where
  "socket_decrypt_frame C ciphertext s =
     (let counter = read_counter s; s = s\<lparr>read_counter := read_counter s + 1\<rparr>
      in (unseal C (read_key s) (generate_iv counter) [] ciphertext, s))"

section \<open>Client\<close>

datatype client_error = NotConnected | MarshalFailed | SendFailed send_error

definition send_node :: "tokens \<Rightarrow> bool \<Rightarrow> (bytes \<Rightarrow> send_result) \<Rightarrow> node \<Rightarrow> (unit, client_error) result" where
  \<comment> \<open>whether a socket is present, and its \<open>encrypt_and_send\<close> on a cleared output buffer\<close>
  "send_node tk connected send n =
     (if \<not> connected then Throw NotConnected
      else
        rbind (map_err MarshalFailed (marshal_to tk n)) (\<lambda>p.
          case send p of
            Inr _ \<Rightarrow> Inr ()
          | Inl (Err e) \<Rightarrow> Throw (SendFailed e)
          | Inl Panic \<Rightarrow> Inl Panic
          | Inl Diverge \<Rightarrow> Inl Diverge))"

definition client_decrypt_frame ::
    "'k noise_crypto \<Rightarrow> tokens \<Rightarrow> (bytes \<Rightarrow> string + bytes) \<Rightarrow> bytes \<Rightarrow> 'k noise_socket option \<Rightarrow> node option \<times> 'k noise_socket option" where
  "client_decrypt_frame C tk inflate f socket =
     (case socket of
        None \<Rightarrow> (None, None)
      | Some s \<Rightarrow>
          let (p, s) = socket_decrypt_frame C f s in
          (case p of
             None \<Rightarrow> None
           | Some p \<Rightarrow>
               (case unpack inflate p of
                  Inl _ \<Rightarrow> None
                | Inr bs \<Rightarrow>
                    (case unmarshal_ref tk bs of
                       Inl _ \<Rightarrow> None
                     | Inr r \<Rightarrow> Some (node_to_owned r))),
           Some s))"

text \<open>The part of the client's state that the message loop reads and resets.\<close>

record 'k connection =
  is_logged_in :: bool
  transport_set :: bool
  transport_events_set :: bool
  noise_socket :: "'k noise_socket option"
  retried_group_messages :: "string list"
  offline_sync_completed :: bool

definition cleanup_connection_state :: "'k connection \<Rightarrow> 'k connection" where
  "cleanup_connection_state c =
     c\<lparr>is_logged_in := False, transport_set := False, transport_events_set := False,
       noise_socket := None, retried_group_messages := [], offline_sync_completed := False\<rparr>"

definition is_critical :: "node \<Rightarrow> bool" where
  "is_critical n = (tag n \<in> {''success'', ''failure'', ''stream:error''})"

datatype dispatch = Inline node | Spawned node | DisconnectedEvent

datatype loop_event = DataReceived bytes | Connected | Disconnected | EventsClosed | Shutdown

datatype loop_end = ExitOk | ExitUnexpected | ExitNotConnected | Waiting

text \<open>Handlers and other tasks may set the flag \<open>expected_disconnect\<close> at any time. The values the
  loop reads are therefore an argument: a function from the number of reads made so far. Changes
  that handlers make to the connection itself while the loop runs are not modelled. \<open>Waiting\<close> is the
  loop after the given events, when no further one has come.\<close>

fun process_frames ::
    "'k noise_crypto \<Rightarrow> tokens \<Rightarrow> (bytes \<Rightarrow> string + bytes) \<Rightarrow> (nat \<Rightarrow> bool) \<Rightarrow> nat \<Rightarrow> bytes list
     \<Rightarrow> 'k connection \<Rightarrow> dispatch list \<times> bool \<times> nat \<times> 'k connection" where
  "process_frames C tk inflate flag i [] c = ([], False, i, c)"
| "process_frames C tk inflate flag i (f # fs) c =
     (let (n, s) = client_decrypt_frame C tk inflate f (noise_socket c);
          c = c\<lparr>noise_socket := s\<rparr>;
          out = (case n of
                   None \<Rightarrow> []
                 | Some n \<Rightarrow> if is_critical n then [Inline n] else [Spawned n])
      in if flag i then (out, True, Suc i, c)
         else
           let (out', stop, i, c) = process_frames C tk inflate flag (Suc i) fs c
           in (out @ out', stop, i, c))"

definition on_disconnected :: "(nat \<Rightarrow> bool) \<Rightarrow> nat \<Rightarrow> 'k connection \<Rightarrow> dispatch list \<times> loop_end \<times> 'k connection" where
  "on_disconnected flag i c =
     (let c = cleanup_connection_state c in
      if \<not> flag i then ([DisconnectedEvent], ExitUnexpected, c) else ([], ExitOk, c))"

fun message_loop ::
    "'k noise_crypto \<Rightarrow> tokens \<Rightarrow> (bytes \<Rightarrow> string + bytes) \<Rightarrow> (nat \<Rightarrow> bool) \<Rightarrow> nat \<Rightarrow> loop_event list
     \<Rightarrow> frame_decoder \<Rightarrow> 'k connection \<Rightarrow> dispatch list \<times> loop_end \<times> 'k connection" where
  "message_loop C tk inflate flag i [] fd c = ([], Waiting, c)"
| "message_loop C tk inflate flag i (e # es) fd c =
     (case e of
        Shutdown \<Rightarrow> ([], ExitOk, c)
      | Connected \<Rightarrow> message_loop C tk inflate flag i es fd c
      | Disconnected \<Rightarrow> on_disconnected flag i c
      | EventsClosed \<Rightarrow> on_disconnected flag i c
      | DataReceived bs \<Rightarrow>
          let (fs, fd) = drain (feed bs fd);
              (out, stop, i, c) = process_frames C tk inflate flag i fs c
          in if stop then (out, ExitOk, c)
             else
               let (out', r) = message_loop C tk inflate flag i es fd c
               in (out @ out', r))"

definition read_messages_loop ::
    "'k noise_crypto \<Rightarrow> tokens \<Rightarrow> (bytes \<Rightarrow> string + bytes) \<Rightarrow> (nat \<Rightarrow> bool) \<Rightarrow> loop_event list
     \<Rightarrow> 'k connection \<Rightarrow> dispatch list \<times> loop_end \<times> 'k connection" where
  "read_messages_loop C tk inflate flag es c =
     (if \<not> transport_events_set c then ([], ExitNotConnected, c)
      else message_loop C tk inflate flag 0 es frame_decoder_new (c\<lparr>transport_events_set := False\<rparr>))"

section \<open>The sender\<close>

definition aead_sizes :: "'k noise_crypto \<Rightarrow> bool" where
  \<comment> \<open>the cipher accepts every message and appends a tag of 16 bytes\<close>
  "aead_sizes C \<longleftrightarrow> (\<forall>k iv aad m. \<exists>c. seal C k iv aad m = Some c \<and> length c = length m + 16)"

definition sealed :: "'k noise_crypto \<Rightarrow> 'k \<Rightarrow> u32 \<Rightarrow> bytes \<Rightarrow> bytes" where
  "sealed C k w p = (case seal C k (generate_iv w) [] p of Some c \<Rightarrow> c | None \<Rightarrow> [])"

lemma sealed_seal: "aead_sizes C \<Longrightarrow> seal C k (generate_iv w) [] p = Some (sealed C k w p)"
  unfolding aead_sizes_def sealed_def by (metis option.simps(5))

lemma sealed_length: "aead_sizes C \<Longrightarrow> length (sealed C k w p) = length p + 16"
  using sealed_seal [of C k w p] unfolding aead_sizes_def by (metis option.inject)

definition good_job :: "send_job \<Rightarrow> bool" where
  "good_job j \<longleftrightarrow> join_ok j \<and> send_ok j \<and> length (plaintext_buf j) + 16 < FRAME_MAX_SIZE"

lemma encode_into_of: "length p < FRAME_MAX_SIZE \<Longrightarrow> encode_frame_into p None out = Inr (frame_of p)"
  by (simp add: encode_frame_into_def frame_of_def Let_def)

lemma process_good_job:
  assumes "aead_sizes C" "good_job j"
  shows "process_send_job C k j w = (Inr ([], []), frame_of (sealed C k w (plaintext_buf j)), w + 1)"
  using assms(2)
  by (simp add: process_send_job_def good_job_def sealed_seal [OF assms(1)] sealed_length [OF assms(1)]
      encode_into_of Let_def)

definition aead_binds :: "'k noise_crypto \<Rightarrow> bool" where
  \<comment> \<open>a message opens only under the nonce it was sealed with\<close>
  "aead_binds C \<longleftrightarrow> (\<forall>k w w' m c. seal C k (generate_iv w) [] m = Some c \<and> w \<noteq> w'
     \<longrightarrow> unseal C k (generate_iv w') [] c = None)"

lemma process_big_job:
  assumes "aead_sizes C" "join_ok j" "FRAME_MAX_SIZE \<le> length (plaintext_buf j)"
  shows "process_send_job C k j w = (Throw (send_error_of SendFraming [] []), [], w + 1)"
proof -
  have "encode_frame_into (sealed C k w (plaintext_buf j)) None []
      = Throw (FrameTooLarge (length (plaintext_buf j) + 16))"
    using assms(3) by (simp add: encode_frame_into_def sealed_length [OF assms(1)])
  then show ?thesis
    using assms(2) by (simp add: process_send_job_def sealed_seal [OF assms(1)] map_err_def Let_def)
qed

fun sealed_frames :: "'k noise_crypto \<Rightarrow> 'k \<Rightarrow> u32 \<Rightarrow> bytes list \<Rightarrow> bytes list" where
  "sealed_frames C k w [] = []"
| "sealed_frames C k w (p # ps) = sealed C k w p # sealed_frames C k (w + 1) ps"

lemma sender_loop_good:
  assumes "aead_sizes C"
  shows "list_all good_job js \<Longrightarrow> sender_loop C k js w
    = (replicate (length js) (Inr ([], [])),
       concat (map frame_of (sealed_frames C k w (map plaintext_buf js))))"
  by (induction js arbitrary: w) (simp_all add: process_good_job [OF assms])

lemma sealed_frames_size:
  assumes "aead_sizes C"
  shows "list_all (\<lambda>p. length p + 16 < FRAME_MAX_SIZE) ps \<Longrightarrow>
    list_all (\<lambda>f. length f < FRAME_MAX_SIZE) (sealed_frames C k w ps)"
  by (induction ps arbitrary: w) (simp_all add: sealed_length [OF assms])

lemma receive_sealed:
  assumes "aead_sizes C" "list_all (\<lambda>p. length p + 16 < FRAME_MAX_SIZE) ps"
    and "concat chunks = concat (map frame_of (sealed_frames C k w ps))"
  shows "fst (receive chunks frame_decoder_new) = sealed_frames C k w ps"
  using receive_concat [OF drain_new, of chunks] drain_frames [OF sealed_frames_size [OF assms(1,2)], of k w] assms(3)
  by (simp add: feed_def frame_decoder_new_def)

lemma process_counter: "snd (snd (process_send_job C k j w)) = w + 1"
  by (simp add: process_send_job_def Let_def split: sum.split)

lemma sender_loop_indexed:
  "sender_loop C k js w =
     (map (\<lambda>(i, j). fst (process_send_job C k j (w + of_nat i))) (enumerate 0 js),
      concat (map (\<lambda>(i, j). fst (snd (process_send_job C k j (w + of_nat i)))) (enumerate 0 js)))"
proof (induction js arbitrary: w)
  case (Cons j js)
  have "enumerate (Suc 0) js = map (\<lambda>(i, j). (Suc i, j)) (enumerate 0 js)"
    by (simp add: enumerate_eq_zip map_Suc_upt [symmetric] zip_map1 del: map_Suc_upt upt_Suc)
  then show ?case
    using process_counter [of C k j w]
    by (simp add: Cons.IH case_prod_unfold comp_def add.assoc Let_def)
qed simp

lemma generate_iv_inj: "generate_iv a = generate_iv b \<longleftrightarrow> a = b"
proof
  assume "generate_iv a = generate_iv b"
  then have e: "ucast (drop_bit n a) = (ucast (drop_bit n b) :: byte)" if "n \<in> {0, 8, 16, 24}" for n
    using that by (auto simp: generate_iv_def u32_to_be_def)
  show "a = b"
  proof (rule bit_word_eqI)
    fix i assume "i < LENGTH(32)"
    then obtain n m where nm: "i = n + m" "n \<in> {0, 8, 16, 24 :: nat}" "m < 8"
      by (rule_tac that [of "8 * (i div 8)" "i mod 8"]) auto
    have "bit (ucast (drop_bit n a) :: byte) m = bit (ucast (drop_bit n b) :: byte) m"
      using e [OF nm(2)] by simp
    then show "bit a i = bit b i"
      using nm by (simp add: bit_simps)
  qed
qed simp

section \<open>The receiver\<close>

definition dispatch_of :: "node \<Rightarrow> dispatch" where
  "dispatch_of n = (if is_critical n then Inline n else Spawned n)"

definition received :: "node \<Rightarrow> node" where
  "received n = node_to_owned (wire_ref wa_tokens n)"

lemma client_decrypt_sealed:
  assumes "aead_law C" "aead_sizes C" "node_fits n" "marshal_to wa_tokens n = Inr p"
  shows "client_decrypt_frame C wa_tokens inflate (sealed C k w p)
           (Some \<lparr>read_key = k, read_counter = w\<rparr>)
         = (Some (received n), Some \<lparr>read_key = k, read_counter = w + 1\<rparr>)"
proof -
  have u: "unseal C k (generate_iv w) [] (sealed C k w p) = Some p"
    using assms(1) sealed_seal [OF assms(2)] unfolding aead_law_def by blast
  obtain bs where "p = 0 # bs" "unmarshal_ref wa_tokens bs = Inr (wire_ref wa_tokens n)"
    using wa.marshal_unmarshal [OF assms(3)] assms(4) by (auto simp: marshal_def)
  with u show ?thesis
    by (simp add: client_decrypt_frame_def socket_decrypt_frame_def unpack_def received_def Let_def)
qed

lemma process_frames_sealed:
  assumes "aead_law C" "aead_sizes C"
  shows "list_all2 (\<lambda>n p. node_fits n \<and> marshal_to wa_tokens n = Inr p) ns ps \<Longrightarrow>
    noise_socket c = Some \<lparr>read_key = k, read_counter = w\<rparr> \<Longrightarrow>
    \<exists>i' c'. process_frames C wa_tokens inflate (\<lambda>_. False) i (sealed_frames C k w ps) c
      = (map (dispatch_of \<circ> received) ns, False, i', c')"
proof (induction ns ps arbitrary: i c w rule: list_all2_induct)
  case (Cons n ns p ps)
  obtain i' c' where "process_frames C wa_tokens inflate (\<lambda>_. False) (Suc i) (sealed_frames C k (w + 1) ps)
      (c\<lparr>noise_socket := Some \<lparr>read_key = k, read_counter = w + 1\<rparr>\<rparr>)
      = (map (dispatch_of \<circ> received) ns, False, i', c')"
    using Cons.IH [of "c\<lparr>noise_socket := Some \<lparr>read_key = k, read_counter = w + 1\<rparr>\<rparr>" "w + 1" "Suc i"]
    by auto
  then show ?case
    using Cons.hyps(1) Cons.prems client_decrypt_sealed [OF assms, of n p inflate k w]
    by (simp add: dispatch_of_def)
qed simp

lemma process_frames_skewed:
  assumes "aead_sizes C" "aead_binds C"
  shows "noise_socket c = Some \<lparr>read_key = k, read_counter = w\<rparr> \<Longrightarrow>
    \<exists>i' c'. process_frames C tk inflate (\<lambda>_. False) i (sealed_frames C k (w + 1) ps) c = ([], False, i', c')"
proof (induction ps arbitrary: i c w)
  case (Cons p ps)
  have "unseal C k (generate_iv w) [] (sealed C k (w + 1) p) = None"
    using assms(2) sealed_seal [OF assms(1), of k "w + 1" p] add_cancel_left_right [of w 1]
    unfolding aead_binds_def by (metis one_neq_zero)
  then show ?case
    using Cons.IH [of "c\<lparr>noise_socket := Some \<lparr>read_key = k, read_counter = w + 1\<rparr>\<rparr>" "w + 1" "Suc i"] Cons.prems
    by (auto simp: client_decrypt_frame_def socket_decrypt_frame_def Let_def)
qed simp

lemma process_frames_append:
  "process_frames C tk inflate (\<lambda>_. False) i (fs @ gs) c =
     (let (out, stop, i, c) = process_frames C tk inflate (\<lambda>_. False) i fs c;
          (out', stop, i, c) = process_frames C tk inflate (\<lambda>_. False) i gs c
      in (out @ out', stop, i, c))"
  by (induction fs arbitrary: i c) (simp_all add: case_prod_unfold Let_def)

lemma process_frames_runs: "fst (snd (process_frames C tk inflate (\<lambda>_. False) i fs c)) = False"
  by (induction fs arbitrary: i c) (simp_all add: case_prod_unfold Let_def)

lemma message_loop_chunks:
  "message_loop C tk inflate (\<lambda>_. False) i (map DataReceived chunks) fd c =
     (let (out, _, _, c) = process_frames C tk inflate (\<lambda>_. False) i (fst (receive chunks fd)) c
      in (out, Waiting, c))"
proof (induction chunks arbitrary: i fd c)
  case (Cons b chunks)
  show ?case
    using process_frames_runs [of C tk inflate i "fst (drain (feed b fd))" c]
    by (simp add: Cons.IH process_frames_append case_prod_unfold Let_def)
qed simp

section \<open>Properties\<close>


text \<open>C22: The job at position i is processed with counter i, whether or not earlier jobs failed, and
  the nonces of two positions are equal exactly when the positions agree modulo 2^32: nonces are
  distinct for the first 2^32 jobs of a connection, and from then on they repeat under the same
  key.\<close>

theorem nonce_per_job:
  "sender_loop C k jobs 0 =
     (map (\<lambda>(i, j). fst (process_send_job C k j (of_nat i))) (enumerate 0 jobs),
      concat (map (\<lambda>(i, j). fst (snd (process_send_job C k j (of_nat i)))) (enumerate 0 jobs)))
   \<and> (generate_iv (of_nat a) = generate_iv (of_nat b) \<longleftrightarrow> a mod 2 ^ 32 = b mod 2 ^ 32)"
  using sender_loop_indexed [of C k jobs 0]
  by (simp add: generate_iv_inj word_of_nat_eq_iff take_bit_eq_mod)


definition bound_crypto :: "unit noise_crypto" where
  \<comment> \<open>an instance whose tag is the nonce\<close>
  "bound_crypto = toy_crypto\<lparr>
     seal := \<lambda>_ iv _ m. Some (m @ take 16 (iv @ replicate 16 0)),
     unseal := \<lambda>_ iv _ c. if 16 \<le> length c \<and> drop (length c - 16) c = take 16 (iv @ replicate 16 0)
                          then Some (take (length c - 16) c) else None\<rparr>"

definition plain_job :: "bytes \<Rightarrow> send_job" where
  "plain_job p = \<lparr>plaintext_buf = p, out_buf = [], residue = [], join_ok = True, send_ok = True\<rparr>"

definition fresh_connection :: "'k \<Rightarrow> 'k connection" where
  "fresh_connection k = \<lparr>is_logged_in = False, transport_set = True, transport_events_set = True,
     noise_socket = Some \<lparr>read_key = k, read_counter = 0\<rparr>, retried_group_messages = [],
     offline_sync_completed = False\<rparr>"

lemma bound_laws: "aead_law bound_crypto" "aead_sizes bound_crypto" "aead_binds bound_crypto"
proof -
  show "aead_law bound_crypto" "aead_sizes bound_crypto"
    by (simp_all add: aead_law_def aead_sizes_def bound_crypto_def min_def)
  have "length (generate_iv w) = 12" for w
    by (simp add: generate_iv_def u32_to_be_def)
  then show "aead_binds bound_crypto"
    by (auto simp: aead_binds_def bound_crypto_def generate_iv_inj)
qed


lemma index_success: "\<exists>i. index_of_single_token wa_tokens ''success'' = Some i"
proof -
  have "''success'' \<in> set single_tokens"
    by (simp add: single_tokens_def)
  then obtain n where "n < length single_tokens" "single_tokens ! n = ''success''"
    unfolding in_set_conv_nth by blast
  then have "(''success'', of_nat n) \<in> set (single_byte_map wa_tokens)"
    by (auto simp: single_byte_map_mem wa_tokens_def)
  then show ?thesis
    by (metis index_of_single_token_def map_of_eq_None_iff fst_conv imageI not_None_eq)
qed

lemma marshal_success: "\<exists>i. marshal_to wa_tokens (Node ''success'' [] None) = Inr [0, 248, 1, i]"
  using index_success
  by (auto simp: marshal_to_def encoder_new_def write_u8_def write_list_start_def write_string.simps
      write_attributes_def tag_defs)


end
