(* ===== verification/LtHash.thy ===== *)
theory LtHash
  imports Prelude "HOL-Library.Multiset"
begin

text \<open>
  The homomorphic hash of app state collections (\<^verbatim>\<open>warp_core/appstate/src/lthash.rs\<close>): sixteen-bit
  lanes added and subtracted with wrap-around, by vector instructions on blocks of 16 bytes and by a
  scalar loop on the rest. Its abstract value is one sum per lane over a multiset of items. The key
  derivation HKDF-SHA256 is a parameter; the target is little-endian.
\<close>

section \<open>Operations\<close>

record LTHash =
  hkdf_info :: bytes
  hkdf_size :: byte

definition WAPATCH_INTEGRITY :: LTHash where
  "WAPATCH_INTEGRITY = \<lparr>hkdf_info = as_bytes ''WhatsApp Patch Integrity'', hkdf_size = 128\<rparr>"

definition hkdf_sha256 :: "hkdf \<Rightarrow> bytes \<Rightarrow> bytes option \<Rightarrow> bytes \<Rightarrow> byte \<Rightarrow> (bytes, 'e) result" where
  \<comment> \<open>\<open>expand\<close> fails when the requested length is too large, and \<open>expect\<close> panics then\<close>
  "hkdf_sha256 H key salt info len =
     (case H salt key info (unat len) of Some okm \<Rightarrow> Inr okm | None \<Rightarrow> Inl Panic)"

fun to_u16s :: "bytes \<Rightarrow> u16 list" where
  \<comment> \<open>\<open>transmute\<close> of bytes to lanes on a little-endian target\<close>
  "to_u16s (a # b # bs) = u16_from_le a b # to_u16s bs"
| "to_u16s _ = []"

definition of_u16s :: "u16 list \<Rightarrow> bytes" where
  "of_u16s ws = concat (map u16_to_le ws)"

definition lane_op :: "bool \<Rightarrow> u16 \<Rightarrow> u16 \<Rightarrow> u16" where
  "lane_op subtract x y = (if subtract then x - y else x + y)"

definition simd_block :: "bool \<Rightarrow> bytes \<Rightarrow> bytes \<Rightarrow> bytes" where
  "simd_block subtract base_chunk input_chunk =
     of_u16s (map2 (lane_op subtract) (to_u16s base_chunk) (to_u16s input_chunk))"

fun remainder_loop :: "bool \<Rightarrow> bytes \<Rightarrow> bytes \<Rightarrow> bytes" where
  "remainder_loop subtract (a # b # base) (c # d # input) =
     u16_to_le (lane_op subtract (u16_from_le a b) (u16_from_le c d)) @ remainder_loop subtract base input"
| "remainder_loop subtract base _ = base"

function pointwise_blocks :: "bool \<Rightarrow> bytes \<Rightarrow> bytes \<Rightarrow> bytes" where
  "pointwise_blocks subtract base input =
     (if 16 \<le> length base \<and> 16 \<le> length input
      then simd_block subtract (take 16 base) (take 16 input)
           @ pointwise_blocks subtract (drop 16 base) (drop 16 input)
      else remainder_loop subtract base input)"
  by pat_completeness auto
termination
  by (relation "measure (\<lambda>(_, base, _). length base)") auto

declare pointwise_blocks.simps [simp del]

definition perform_pointwise_with_overflow :: "bytes \<Rightarrow> bytes \<Rightarrow> bool \<Rightarrow> (bytes, 'e) result" where
  "perform_pointwise_with_overflow base input subtract =
     (if length base \<noteq> length input then Inl Panic
      else if odd (length base) then Inl Panic
      else Inr (pointwise_blocks subtract base input))"

fun multiple_op :: "hkdf \<Rightarrow> LTHash \<Rightarrow> bytes \<Rightarrow> bytes list \<Rightarrow> bool \<Rightarrow> (bytes, 'e) result" where
  "multiple_op H lth base [] subtract = Inr base"
| "multiple_op H lth base (item # items) subtract =
     rbind (hkdf_sha256 H item None (hkdf_info lth) (hkdf_size lth)) (\<lambda>derived.
       rbind (perform_pointwise_with_overflow base derived subtract) (\<lambda>base.
         multiple_op H lth base items subtract))"

definition subtract_then_add_in_place :: "hkdf \<Rightarrow> LTHash \<Rightarrow> bytes \<Rightarrow> bytes list \<Rightarrow> bytes list \<Rightarrow> (bytes, 'e) result" where
  "subtract_then_add_in_place H lth base subtract add =
     rbind (multiple_op H lth base subtract True) (\<lambda>base. multiple_op H lth base add False)"

definition subtract_then_add :: "hkdf \<Rightarrow> LTHash \<Rightarrow> bytes \<Rightarrow> bytes list \<Rightarrow> bytes list \<Rightarrow> (bytes, 'e) result" where
  "subtract_then_add H lth base subtract add = subtract_then_add_in_place H lth base subtract add"

section \<open>Lanes\<close>

lemma u16_le_inv [simp]: "u16_from_le (ucast w) (ucast (drop_bit 8 w)) = w"
  by (simp add: u16_from_le_def u16_be_roundtrip)

lemma to_of_u16s [simp]: "to_u16s (of_u16s ws) = ws"
  by (induction ws) (simp_all add: of_u16s_def u16_to_le_def)

lemma of_to_u16s: "even (length bs) \<Longrightarrow> of_u16s (to_u16s bs) = bs"
  by (induction bs rule: to_u16s.induct)
     (auto simp: of_u16s_def u16_to_le_def u16_from_le_def u16_from_be_inv)

lemma length_of_u16s [simp]: "length (of_u16s ws) = 2 * length ws"
  by (induction ws) (simp_all add: of_u16s_def u16_to_le_def)

lemma length_to_u16s [simp]: "length (to_u16s bs) = length bs div 2"
  by (induction bs rule: to_u16s.induct) auto

lemma of_u16s_append: "of_u16s (xs @ ys) = of_u16s xs @ of_u16s ys"
  by (simp add: of_u16s_def)

lemma to_u16s_append: "even (length xs) \<Longrightarrow> to_u16s (xs @ ys) = to_u16s xs @ to_u16s ys"
  by (induction xs rule: to_u16s.induct) auto

lemma remainder_lanes:
  "length base = length input \<Longrightarrow> even (length base) \<Longrightarrow>
   remainder_loop subtract base input = of_u16s (map2 (lane_op subtract) (to_u16s base) (to_u16s input))"
  by (induction subtract base input rule: remainder_loop.induct) (auto simp: of_u16s_def)

lemma blocks_lanes:
  "length base = length input \<Longrightarrow> even (length base) \<Longrightarrow>
   pointwise_blocks subtract base input = of_u16s (map2 (lane_op subtract) (to_u16s base) (to_u16s input))"
proof (induction subtract base input rule: pointwise_blocks.induct)
  case (1 subtract base input)
  show ?case
  proof (cases "16 \<le> length base")
    case True
    have split: "to_u16s (take 16 bs) @ to_u16s (drop 16 bs) = to_u16s bs" if "16 \<le> length bs" for bs
      using that to_u16s_append [of "take 16 bs" "drop 16 bs"] by simp
    have "pointwise_blocks subtract base input
        = of_u16s (map2 (lane_op subtract) (to_u16s (take 16 base)) (to_u16s (take 16 input)))
          @ of_u16s (map2 (lane_op subtract) (to_u16s (drop 16 base)) (to_u16s (drop 16 input)))"
      using 1 True by (subst pointwise_blocks.simps) (simp add: simd_block_def)
    also have "\<dots> = of_u16s (map2 (lane_op subtract) (to_u16s (take 16 base) @ to_u16s (drop 16 base))
          (to_u16s (take 16 input) @ to_u16s (drop 16 input)))"
      using 1(2) by (simp add: of_u16s_append)
    finally show ?thesis
      using True 1(2) by (simp only: split)
  next
    case False
    then show ?thesis
      using 1 by (subst pointwise_blocks.simps) (simp add: remainder_lanes)
  qed
qed

section \<open>The abstract value\<close>

definition lane :: "bytes \<Rightarrow> nat \<Rightarrow> u16" where
  "lane h i = to_u16s h ! i"

definition derived :: "hkdf \<Rightarrow> bytes \<Rightarrow> bytes" where
  "derived H item = (case H None item (hkdf_info WAPATCH_INTEGRITY) 128 of Some okm \<Rightarrow> okm | None \<Rightarrow> [])"

definition lt_sum :: "hkdf \<Rightarrow> bytes multiset \<Rightarrow> nat \<Rightarrow> u16" where
  "lt_sum H M i = (\<Sum>m\<in>#M. lane (derived H m) i)"

definition hash_of :: "hkdf \<Rightarrow> bytes multiset \<Rightarrow> bytes \<Rightarrow> bool" where
  \<comment> \<open>the hash has the abstract value of the multiset\<close>
  "hash_of H M h \<longleftrightarrow> length h = 128 \<and> (\<forall>i<64. lane h i = lt_sum H M i)"

lemma lt_sum_simps [simp]:
  "lt_sum H {#} i = 0" "lt_sum H (add_mset m M) i = lane (derived H m) i + lt_sum H M i"
  "lt_sum H (M + N) i = lt_sum H M i + lt_sum H N i"
  by (simp_all add: lt_sum_def)

lemma lanes_eq:
  assumes "length a = 128" "length b = 128" "\<And>i. i < 64 \<Longrightarrow> lane a i = lane b i"
  shows "a = b"
proof -
  have "to_u16s a = to_u16s b"
  proof (rule nth_equalityI)
    show "length (to_u16s a) = length (to_u16s b)"
      using assms(1,2) by simp
    show "to_u16s a ! i = to_u16s b ! i" if "i < length (to_u16s a)" for i
      using assms(3) [of i] that assms(1) by (simp add: lane_def)
  qed
  moreover have "of_u16s (to_u16s a) = a" "of_u16s (to_u16s b) = b"
    using assms(1,2) by (auto intro: of_to_u16s)
  ultimately show ?thesis
    by metis
qed

lemma hash_of_unique: "hash_of H M a \<Longrightarrow> hash_of H M b \<Longrightarrow> a = b"
  by (rule lanes_eq) (auto simp: hash_of_def)

lemma derived_ok:
  assumes "hkdf_expands H"
  shows "hkdf_sha256 H item None (hkdf_info WAPATCH_INTEGRITY) (hkdf_size WAPATCH_INTEGRITY) = Inr (derived H item)"
    "length (derived H item) = 128"
proof -
  obtain okm where "H None item (hkdf_info WAPATCH_INTEGRITY) 128 = Some okm" "length okm = 128"
    using assms [unfolded hkdf_expands_def, rule_format, of 128 None item "hkdf_info WAPATCH_INTEGRITY"] by auto
  then show "hkdf_sha256 H item None (hkdf_info WAPATCH_INTEGRITY) (hkdf_size WAPATCH_INTEGRITY) = Inr (derived H item)"
    "length (derived H item) = 128"
    by (simp_all add: hkdf_sha256_def derived_def WAPATCH_INTEGRITY_def)
qed

lemma lane_op_twice: "lane_op s (lane_op s x y) z = lane_op s x (y + z)"
  by (simp add: lane_op_def algebra_simps)

lemma multiple_op_lanes:
  assumes "hkdf_expands H"
  shows "length h = 128 \<Longrightarrow> \<exists>h'. multiple_op H WAPATCH_INTEGRITY h items subtract = (Inr h' :: (bytes, 'e) result)
    \<and> length h' = 128 \<and> (\<forall>i<64. lane h' i = lane_op subtract (lane h i) (lt_sum H (mset items) i))"
proof (induction items arbitrary: h)
  case (Cons item items)
  let ?h = "of_u16s (map2 (lane_op subtract) (to_u16s h) (to_u16s (derived H item)))"
  have len: "length ?h = 128" and lanes: "i < 64 \<Longrightarrow> lane ?h i = lane_op subtract (lane h i) (lane (derived H item) i)" for i
    using Cons.prems derived_ok(2) [OF assms] by (simp_all add: lane_def)
  obtain h' where h': "multiple_op H WAPATCH_INTEGRITY ?h items subtract = (Inr h' :: (bytes, 'e) result)" "length h' = 128"
      "\<forall>i<64. lane h' i = lane_op subtract (lane ?h i) (lt_sum H (mset items) i)"
    using Cons.IH [OF len] by blast
  have "perform_pointwise_with_overflow h (derived H item) subtract = (Inr ?h :: (bytes, 'e) result)"
    using Cons.prems derived_ok(2) [OF assms] by (simp add: perform_pointwise_with_overflow_def blocks_lanes)
  with h' show ?case
    using lanes by (simp add: derived_ok(1) [OF assms] lane_op_twice)
qed (simp add: lane_op_def)

lemma subtract_then_add_lanes:
  assumes "hkdf_expands H" "length h = 128"
  shows "\<exists>h'. subtract_then_add_in_place H WAPATCH_INTEGRITY h removed added = (Inr h' :: (bytes, 'e) result) \<and> length h' = 128
    \<and> (\<forall>i<64. lane h' i = lane h i - lt_sum H (mset removed) i + lt_sum H (mset added) i)"
proof -
  obtain h1 where h1: "multiple_op H WAPATCH_INTEGRITY h removed True = (Inr h1 :: (bytes, 'e) result)" "length h1 = 128"
      "\<forall>i<64. lane h1 i = lane_op True (lane h i) (lt_sum H (mset removed) i)"
    using multiple_op_lanes [OF assms] by blast
  obtain h2 where "multiple_op H WAPATCH_INTEGRITY h1 added False = (Inr h2 :: (bytes, 'e) result)" "length h2 = 128"
      "\<forall>i<64. lane h2 i = lane_op False (lane h1 i) (lt_sum H (mset added) i)"
    using multiple_op_lanes [OF assms(1) h1(2)] by blast
  with h1 show ?thesis
    by (intro exI [of _ h2]) (simp add: subtract_then_add_in_place_def lane_op_def)
qed

lemma hash_of_update:
  assumes "hkdf_expands H" "hash_of H M h" "M + mset added = N + mset removed"
  shows "\<exists>h'. subtract_then_add_in_place H WAPATCH_INTEGRITY h removed added = (Inr h' :: (bytes, 'e) result) \<and> hash_of H N h'"
proof -
  obtain h' where h': "subtract_then_add_in_place H WAPATCH_INTEGRITY h removed added = (Inr h' :: (bytes, 'e) result)" "length h' = 128"
      "\<forall>i<64. lane h' i = lane h i - lt_sum H (mset removed) i + lt_sum H (mset added) i"
    using subtract_then_add_lanes [OF assms(1)] assms(2) unfolding hash_of_def by blast
  have "lt_sum H M i + lt_sum H (mset added) i = lt_sum H N i + lt_sum H (mset removed) i" for i
    using arg_cong [OF assms(3), of "\<lambda>M. lt_sum H M i"] by simp
  then have "lane h' i = lt_sum H N i" if "i < 64" for i
    using h'(3) assms(2) that by (simp add: hash_of_def algebra_simps)
  with h' show ?thesis by (simp add: hash_of_def)
qed

section \<open>Properties\<close>

text \<open>C31: On inputs of equal even length, the vector blocks followed by the scalar remainder
  compute the sum or difference, with wrap-around, of every sixteen-bit little-endian lane; on other
  inputs the assertion fails.\<close>

theorem lthash_vector_scalar:
  "perform_pointwise_with_overflow base input subtract =
     (if length base = length input \<and> even (length base)
      then Inr (concat (map u16_to_le (map2 (\<lambda>x y. if subtract then x - y else x + y) (to_u16s base) (to_u16s input))))
      else Inl Panic)"
  by (simp add: perform_pointwise_with_overflow_def blocks_lanes of_u16s_def lane_op_def [abs_def])

text \<open>C32: The hash is a function of multisets: on a base of 128 bytes the update never panics, does
  not depend on the order of the items removed and added, and undoing it with the two lists
  exchanged returns the base. The key derivation expands to the length asked for.\<close>

theorem lthash_multiset:
  assumes "hkdf_expands H" "length h = 128" "mset removed' = mset removed" "mset added' = mset added"
  shows "\<exists>h'. subtract_then_add H WAPATCH_INTEGRITY h removed added = (Inr h' :: (bytes, unit) result)
    \<and> subtract_then_add H WAPATCH_INTEGRITY h removed' added' = (Inr h' :: (bytes, unit) result)
    \<and> subtract_then_add H WAPATCH_INTEGRITY h' added removed = (Inr h :: (bytes, unit) result)"
proof -
  obtain a where a: "subtract_then_add_in_place H WAPATCH_INTEGRITY h removed added = (Inr a :: (bytes, unit) result)"
      "length a = 128" "\<forall>i<64. lane a i = lane h i - lt_sum H (mset removed) i + lt_sum H (mset added) i"
    using subtract_then_add_lanes [OF assms(1,2)] by blast
  obtain b where b: "subtract_then_add_in_place H WAPATCH_INTEGRITY h removed' added' = (Inr b :: (bytes, unit) result)"
      "length b = 128" "\<forall>i<64. lane b i = lane h i - lt_sum H (mset removed) i + lt_sum H (mset added) i"
    using subtract_then_add_lanes [OF assms(1,2), of removed' added'] assms(3,4) by auto
  obtain c where c: "subtract_then_add_in_place H WAPATCH_INTEGRITY a added removed = (Inr c :: (bytes, unit) result)"
      "length c = 128" "\<forall>i<64. lane c i = lane a i - lt_sum H (mset added) i + lt_sum H (mset removed) i"
    using subtract_then_add_lanes [OF assms(1) a(2)] by blast
  have "b = a" "c = h"
    using a b c assms(2) by (auto intro!: lanes_eq)
  with a b c show ?thesis by (simp add: subtract_then_add_def)
qed

theorem lthash_multiset_witness:
  "\<exists>h'. subtract_then_add (\<lambda>_ k _ n. Some (replicate n (of_nat (length k)))) WAPATCH_INTEGRITY
      (replicate 128 0) [[1], [1, 2]] [[7]] = (Inr h' :: (bytes, unit) result)
    \<and> subtract_then_add (\<lambda>_ k _ n. Some (replicate n (of_nat (length k)))) WAPATCH_INTEGRITY
      (replicate 128 0) [[1, 2], [1]] [[7]] = (Inr h' :: (bytes, unit) result)
    \<and> subtract_then_add (\<lambda>_ k _ n. Some (replicate n (of_nat (length k)))) WAPATCH_INTEGRITY
      h' [[7]] [[1], [1, 2]] = (Inr (replicate 128 0) :: (bytes, unit) result)"
  by (rule lthash_multiset) (simp_all add: hkdf_expands_def)

end
