(* ===== verification/Attrs.thy ===== *)
theory Attrs
  imports Node
begin

text \<open>
  The attribute parsers of \<^verbatim>\<open>warp_core/binary/src/attrs.rs\<close>: \<open>AttrParserRef\<close> over a
  borrowed node and \<open>AttrParser\<close> over an owned one. Both collect errors while the accessors are
  called and report them at the end; the accessors thread the parser explicitly. The text of an
  error keeps the arguments of its message, without the wording of the standard library's
  parse errors.
\<close>

section \<open>Parser state\<close>

record 'v attr_parser =
  ap_attrs :: "(string \<times> 'v) list"
  ap_errors :: "binary_error list"

definition push_error :: "binary_error \<Rightarrow> 'v attr_parser \<Rightarrow> 'v attr_parser" where
  "push_error e p = p\<lparr>ap_errors := ap_errors p @ [e]\<rparr>"

text \<open>\<open>Option::and_then\<close> with a fallible conversion whose error is recorded.\<close>

definition and_parse ::
    "('a \<Rightarrow> 'b option) \<Rightarrow> ('a \<Rightarrow> binary_error) \<Rightarrow> 'a option \<times> 'v attr_parser \<Rightarrow> 'b option \<times> 'v attr_parser"
  where
  "and_parse f e vp =
     (case vp of
        (None, p) \<Rightarrow> (None, p)
      | (Some v, p) \<Rightarrow> (case f v of Some x \<Rightarrow> (Some x, p) | None \<Rightarrow> (None, push_error (e v) p)))"

definition or_default :: "'b \<Rightarrow> 'b option \<times> 'p \<Rightarrow> 'b \<times> 'p" where
  "or_default d vp = (unwrap_or d (fst vp), snd vp)"

definition parse_bool :: "string \<Rightarrow> bool option" where
  "parse_bool s = (if s = ''true'' then Some True else if s = ''false'' then Some False else None)"

definition parse_u64 :: "string \<Rightarrow> u64 option" where
  "parse_u64 s = map_option of_nat (parse_uint (2 ^ 64 - 1) s)"

definition ap_ok :: "'v attr_parser \<Rightarrow> bool" where
  "ap_ok p \<longleftrightarrow> ap_errors p = []"

definition ap_finish :: "'v attr_parser \<Rightarrow> (unit, binary_error) result" where
  "ap_finish p = (if ap_ok p then Inr () else Throw (AttrList (ap_errors p)))"

section \<open>AttrParserRef\<close>

definition parser_ref :: "node_ref \<Rightarrow> value_ref attr_parser" where
  "parser_ref n = \<lparr>ap_attrs = rattrs n, ap_errors = []\<rparr>"

definition get_raw_ref ::
    "string \<Rightarrow> bool \<Rightarrow> value_ref attr_parser \<Rightarrow> value_ref option \<times> value_ref attr_parser" where
  "get_raw_ref key require p =
     (let val = map_option snd (find (\<lambda>(k, _). k = key) (ap_attrs p)) in
      (val, if require \<and> val = None then push_error (AttrParse (RequiredMissing key)) p else p))"

definition optional_string_ref where
  "optional_string_ref key p =
     (let (v, p) = get_raw_ref key False p in (Option.bind v value_as_str, p))"

definition string_ref where
  "string_ref key p =
     or_default [] (let (v, p) = get_raw_ref key True p in (map_option value_to_string v, p))"

definition optional_jid_ref ::
    "string \<Rightarrow> value_ref attr_parser \<Rightarrow> jid option \<times> value_ref attr_parser" where
  "optional_jid_ref key p =
     (let (v, p) = get_raw_ref key False p in
      case v of
        None \<Rightarrow> (None, p)
      | Some v \<Rightarrow>
          (case value_to_jid v of
             Some j \<Rightarrow> (Some j, p)
           | None \<Rightarrow>
               (None, case v of VString s \<Rightarrow> push_error (AttrParse (InvalidJidText s)) p | VJid _ \<Rightarrow> p)))"

definition jid_ref where
  "jid_ref key p = or_default default_jid (optional_jid_ref key (snd (get_raw_ref key True p)))"

definition non_ad_jid_ref where
  "non_ad_jid_ref key p = (let (j, p) = jid_ref key p in (to_non_ad j, p))"

definition get_string_value_ref where
  "get_string_value_ref key require p =
     (let (v, p) = get_raw_ref key require p in (map_option value_to_string v, p))"

definition get_bool_ref where
  "get_bool_ref key require p =
     and_parse parse_bool (\<lambda>s. AttrParse (BadBool s key)) (get_string_value_ref key require p)"

definition optional_bool_ref where
  "optional_bool_ref key p = or_default False (get_bool_ref key False p)"

definition bool_ref where
  "bool_ref key p = or_default False (get_bool_ref key True p)"

definition optional_u64_ref where
  "optional_u64_ref key p =
     and_parse parse_u64 (\<lambda>s. AttrParse (BadU64 s key)) (get_string_value_ref key False p)"

definition get_i64_ref where
  "get_i64_ref key require p =
     and_parse parse_i64 (\<lambda>s. AttrParse (BadI64 s key)) (get_string_value_ref key require p)"

definition optional_unix_time_ref where
  "optional_unix_time_ref key p = get_i64_ref key False p"

definition unix_time_ref where
  "unix_time_ref key p =
     or_default 0 (optional_unix_time_ref key (snd (get_raw_ref key True p)))"

definition optional_unix_milli_ref where
  "optional_unix_milli_ref key p = get_i64_ref key False p"

definition unix_milli_ref where
  "unix_milli_ref key p =
     or_default 0 (optional_unix_milli_ref key (snd (get_raw_ref key True p)))"

section \<open>AttrParser\<close>

definition parser_owned :: "node \<Rightarrow> string attr_parser" where
  "parser_owned n = \<lparr>ap_attrs = attrs n, ap_errors = []\<rparr>"

definition get_raw :: "string \<Rightarrow> bool \<Rightarrow> string attr_parser \<Rightarrow> string option \<times> string attr_parser" where
  "get_raw key require p =
     (let val = map_of (ap_attrs p) key in
      (val, if require \<and> val = None then push_error (AttrParse (RequiredMissing key)) p else p))"

definition optional_string where
  "optional_string key p = get_raw key False p"

definition ap_string where
  "ap_string key p = or_default [] (get_raw key True p)"

definition optional_jid :: "string \<Rightarrow> string attr_parser \<Rightarrow> jid option \<times> string attr_parser" where
  "optional_jid key p =
     (let (v, p) = get_raw key False p in
      case v of
        None \<Rightarrow> (None, p)
      | Some s \<Rightarrow>
          (case from_str s of
             Inr j \<Rightarrow> (Some j, p)
           | Inl (Err e) \<Rightarrow> (None, push_error (JidErr e) p)
           | Inl _ \<Rightarrow> (None, p)))"

definition ap_jid where
  "ap_jid key p = or_default default_jid (optional_jid key (snd (get_raw key True p)))"

definition non_ad_jid where
  "non_ad_jid key p = (let (j, p) = ap_jid key p in (to_non_ad j, p))"

definition get_bool where
  "get_bool key require p =
     and_parse parse_bool (\<lambda>s. AttrParse (BadBool s key)) (get_raw key require p)"

definition optional_bool where
  "optional_bool key p = or_default False (get_bool key False p)"

definition ap_bool where
  "ap_bool key p = or_default False (get_bool key True p)"

definition optional_u64 where
  "optional_u64 key p =
     and_parse parse_u64 (\<lambda>s. AttrParse (BadU64 s key)) (get_raw key False p)"

definition get_i64 where
  "get_i64 key require p =
     and_parse parse_i64 (\<lambda>s. AttrParse (BadI64 s key)) (get_raw key require p)"

definition optional_unix_time where
  "optional_unix_time key p = get_i64 key False p"

definition unix_time where
  "unix_time key p = or_default 0 (optional_unix_time key (snd (get_raw key True p)))"

definition optional_unix_milli where
  "optional_unix_milli key p = get_i64 key False p"

definition unix_milli where
  "unix_milli key p = or_default 0 (optional_unix_milli key (snd (get_raw key True p)))"

section \<open>The two parsers agree\<close>

text \<open>The owned parser that sees the attributes of a borrowed one as text.\<close>

definition owned_parser :: "value_ref attr_parser \<Rightarrow> string attr_parser" where
  "owned_parser p =
     \<lparr>ap_attrs = map (\<lambda>(k, v). (k, value_to_string v)) (ap_attrs p), ap_errors = ap_errors p\<rparr>"

definition attr_lookup :: "string \<Rightarrow> 'v attr_parser \<Rightarrow> 'v option" where
  "attr_lookup key p = map_of (ap_attrs p) key"

lemma find_map_of: "map_option snd (find (\<lambda>(k, _). k = key) xs) = map_of xs key"
  by (induction xs) auto

lemma map_of_map_snd: "map_of (map (\<lambda>(k, v). (k, f v)) xs) key = map_option f (map_of xs key)"
  by (induction xs) auto

lemma push_error_sel [simp]:
  "ap_errors (push_error e p) = ap_errors p @ [e]"
  "ap_attrs (push_error e p) = ap_attrs p"
  "attr_lookup k (push_error e p) = attr_lookup k p"
  by (simp_all add: push_error_def attr_lookup_def)

lemma owned_parser_push [simp]: "owned_parser (push_error e p) = push_error e (owned_parser p)"
  by (simp add: owned_parser_def push_error_def)

lemma lookup_owned [simp]: "attr_lookup k (owned_parser p) = map_option value_to_string (attr_lookup k p)"
  by (simp add: attr_lookup_def owned_parser_def map_of_map_snd)

lemma get_raw_ref_lookup:
  "get_raw_ref k r p = (attr_lookup k p,
     if r \<and> attr_lookup k p = None then push_error (AttrParse (RequiredMissing k)) p else p)"
  by (simp add: get_raw_ref_def find_map_of attr_lookup_def Let_def)

lemma get_raw_lookup:
  "get_raw k r p = (attr_lookup k p,
     if r \<and> attr_lookup k p = None then push_error (AttrParse (RequiredMissing k)) p else p)"
  by (simp add: get_raw_def attr_lookup_def Let_def)

lemma get_raw_owned:
  "get_raw k r (owned_parser p) = map_prod id owned_parser (get_string_value_ref k r p)"
  by (simp add: get_raw_lookup get_string_value_ref_def get_raw_ref_lookup)

lemma and_parse_owned:
  "and_parse f e (map_prod id owned_parser vp) = map_prod id owned_parser (and_parse f e vp)"
  by (cases vp) (auto simp: and_parse_def split: option.split)

lemma or_default_owned:
  "or_default d (map_prod id owned_parser vp) = map_prod id owned_parser (or_default d vp)"
  by (simp add: or_default_def)

lemma snd_get_string_value: "snd (get_string_value_ref k r p) = snd (get_raw_ref k r p)"
  by (simp add: get_string_value_ref_def get_raw_ref_lookup)

lemmas owned_sim = get_raw_owned and_parse_owned or_default_owned snd_get_string_value

lemma from_str_not_stuck: "from_str s \<noteq> Inl Panic" "from_str s \<noteq> Inl Diverge"
  by (auto simp: from_str_def from_str_slow_def Let_def rbind_eq_Inl
      split: option.splits if_splits prod.splits)

section \<open>Properties\<close>

text \<open>For a borrowed node with distinct attribute names, the owned parser of the
  converted node is the image of the borrowed parser, and on that image every accessor that reads
  text (required and optional booleans, numbers, timestamps, strings) returns the same value and
  records the same errors as the borrowed one.\<close>

theorem attr_parsers_agree:
  "(attrs_ok (rattrs n) \<longrightarrow> parser_owned (node_to_owned n) = owned_parser (parser_ref n))
   \<and> ap_string k (owned_parser p) = map_prod id owned_parser (string_ref k p)
   \<and> ap_bool k (owned_parser p) = map_prod id owned_parser (bool_ref k p)
   \<and> optional_bool k (owned_parser p) = map_prod id owned_parser (optional_bool_ref k p)
   \<and> optional_u64 k (owned_parser p) = map_prod id owned_parser (optional_u64_ref k p)
   \<and> unix_time k (owned_parser p) = map_prod id owned_parser (unix_time_ref k p)
   \<and> unix_milli k (owned_parser p) = map_prod id owned_parser (unix_milli_ref k p)"
proof (intro conjI impI)
  assume "attrs_ok (rattrs n)"
  then have "attrs_ok (map (\<lambda>(k, v). (k, value_to_string v)) (rattrs n))"
    by (simp add: attrs_ok_def comp_def case_prod_beta)
  then show "parser_owned (node_to_owned n) = owned_parser (parser_ref n)"
    by (cases n) (simp add: parser_owned_def parser_ref_def owned_parser_def)
next
  show "ap_string k (owned_parser p) = map_prod id owned_parser (string_ref k p)"
    by (simp add: ap_string_def string_ref_def owned_sim get_string_value_ref_def)
qed (simp_all add: ap_bool_def bool_ref_def optional_bool_def optional_bool_ref_def get_bool_def
  get_bool_ref_def optional_u64_def optional_u64_ref_def unix_time_def unix_time_ref_def
  unix_milli_def unix_milli_ref_def optional_unix_time_def optional_unix_time_ref_def
  optional_unix_milli_def optional_unix_milli_ref_def get_i64_def get_i64_ref_def owned_sim)

text \<open>Reading a required JID leaves a parser without errors exactly when there were
  none before and the attribute is present and parses to the value that was returned, in both
  parsers: a caller that checks \<open>finish\<close> never acts on a default JID.\<close>

theorem required_jid_reported:
  "(ap_finish (snd (jid_ref k p)) = Inr ()
     \<longleftrightarrow> ap_ok p \<and> (\<exists>v. attr_lookup k p = Some v \<and> value_to_jid v = Some (fst (jid_ref k p))))
   \<and> (ap_finish (snd (ap_jid k q)) = Inr ()
     \<longleftrightarrow> ap_ok q \<and> (\<exists>s. attr_lookup k q = Some s \<and> from_str s = Inr (fst (ap_jid k q))))"
proof
  show "ap_finish (snd (jid_ref k p)) = Inr ()
     \<longleftrightarrow> ap_ok p \<and> (\<exists>v. attr_lookup k p = Some v \<and> value_to_jid v = Some (fst (jid_ref k p)))"
    by (auto simp: ap_finish_def ap_ok_def jid_ref_def optional_jid_ref_def get_raw_ref_lookup
        or_default_def unwrap_or_def value_to_jid_def split: option.splits value_ref.splits)
  show "ap_finish (snd (ap_jid k q)) = Inr ()
     \<longleftrightarrow> ap_ok q \<and> (\<exists>s. attr_lookup k q = Some s \<and> from_str s = Inr (fst (ap_jid k q)))"
    using from_str_not_stuck
    by (auto simp: ap_finish_def ap_ok_def ap_jid_def optional_jid_def get_raw_lookup
        or_default_def unwrap_or_def split: option.splits sum.splits fail.splits)
qed

end
