(* ===== verification/AppState.thy ===== *)
theory AppState
  imports LtHash Attrs
begin

text \<open>
  Pure processing of app state patches and snapshots (\<^verbatim>\<open>hash.rs\<close>, \<^verbatim>\<open>keys.rs\<close>,
  \<^verbatim>\<open>decode.rs\<close>, \<^verbatim>\<open>processor.rs\<close> and \<^verbatim>\<open>patch_decode.rs\<close> of
  \<^verbatim>\<open>warp_core/appstate/src\<close>). Message authentication, the block cipher, key derivation, JSON
  and the protobuf codec are the parameter record \<open>appstate_env\<close>. A nested optional field of a
  protobuf message that the code reads only through \<open>and_then\<close> is one optional field here. The
  functions that update a state in place return it in their result; on an error both callers
  abandon it.
\<close>

section \<open>Messages\<close>

record 'v appstate_env =
  hkdf :: hkdf
  hmac_sha256 :: "bytes \<Rightarrow> bytes \<Rightarrow> bytes"
  hmac_sha512 :: "bytes \<Rightarrow> bytes \<Rightarrow> bytes"
  cbc_decrypt :: "bytes \<Rightarrow> bytes \<Rightarrow> bytes \<Rightarrow> bytes option"
  decode_action :: "bytes \<Rightarrow> (bytes option \<times> 'v option) option"
  parse_index :: "bytes \<Rightarrow> string list option"

datatype syncd_operation = OpSet | OpRemove

record syncd_record =
  rec_index :: "bytes option"
  rec_value :: "bytes option"
  rec_key_id :: "bytes option"

record syncd_mutation =
  mut_operation :: "int option"
  mut_record :: "syncd_record option"

record syncd_patch =
  patch_version :: "u64 option"
  patch_mutations :: "syncd_mutation list"
  patch_snapshot_mac :: "bytes option"
  patch_patch_mac :: "bytes option"
  patch_key_id :: "bytes option"

record syncd_snapshot =
  snap_version :: "u64 option"
  snap_records :: "syncd_record list"
  snap_mac :: "bytes option"
  snap_key_id :: "bytes option"

datatype appstate_error =
    MissingPreviousSetValueOperation
  | MismatchingLTHash
  | MismatchingPatchMAC
  | MismatchingContentMAC
  | MismatchingIndexMAC
  | KeyNotFound
  | MissingValueBlob
  | ValueBlobTooShort
  | DecryptionFailed
  | DecodeFailed
  | MissingIndexMAC
  | MissingKeyId
  | SnapshotMACMismatch
  | PatchSnapshotMACMismatch
  | PatchMACMismatch

type_synonym 'a ares = "('a, appstate_error) result"

section \<open>Keys\<close>

record app_keys =
  index_key :: bytes
  value_encryption_key :: bytes
  value_mac_key :: bytes
  snapshot_mac_key :: bytes
  patch_mac_key :: bytes

definition expand_app_state_keys :: "'v appstate_env \<Rightarrow> bytes \<Rightarrow> app_keys ares" where
  "expand_app_state_keys E key_data =
     (case hkdf E None key_data (as_bytes ''WhatsApp Mutation Keys'') 160 of
        None \<Rightarrow> Inl Panic
      | Some okm \<Rightarrow>
          let take32 = (\<lambda>start. take 32 (drop start okm)) in
          Inr \<lparr>index_key = take32 0, value_encryption_key = take32 32, value_mac_key = take32 64,
               snapshot_mac_key = take32 96, patch_mac_key = take32 128\<rparr>)"

section \<open>Hash state\<close>

record hash_state =
  version :: u64
  lthash :: bytes
  index_value_map :: "string \<rightharpoonup> bytes"

definition default_state :: hash_state where
  "default_state = \<lparr>version = 0, lthash = replicate 128 0, index_value_map = Map.empty\<rparr>"

definition last32 :: "bytes \<Rightarrow> bytes" where
  \<comment> \<open>\<open>blob[blob.len() - 32..]\<close>\<close>
  "last32 blob = drop (length blob - 32) blob"

definition value_tail :: "syncd_record \<Rightarrow> bytes option" where
  \<comment> \<open>the last 32 bytes of the value, if there is one of that length\<close>
  "value_tail r = (case rec_value r of
     Some blob \<Rightarrow> if length blob \<ge> 32 then Some (last32 blob) else None | None \<Rightarrow> None)"

definition operation_code :: "syncd_mutation \<Rightarrow> int" where
  "operation_code m = (case mut_operation m of Some c \<Rightarrow> c | None \<Rightarrow> 0)"

type_synonym prev_lookup = "bytes \<Rightarrow> nat \<Rightarrow> bytes option ares"

fun collect_changes ::
    "prev_lookup \<Rightarrow> nat \<Rightarrow> syncd_mutation list \<Rightarrow> bytes list \<Rightarrow> bytes list \<Rightarrow> appstate_error list
     \<Rightarrow> appstate_error list \<times> (bytes list \<times> bytes list) ares" where
  "collect_changes get_prev i [] added removed warnings = (warnings, Inr (added, removed))"
| "collect_changes get_prev i (m # ms) added removed warnings =
     (let op = operation_code m;
          added = (if op = 0
                   then (case mut_record m of
                           Some r \<Rightarrow> (case value_tail r of Some v \<Rightarrow> added @ [v] | None \<Rightarrow> added)
                         | None \<Rightarrow> added)
                   else added)
      in case Option.bind (mut_record m) rec_index of
           None \<Rightarrow> collect_changes get_prev (Suc i) ms added removed warnings
         | Some index_mac \<Rightarrow>
             (case get_prev index_mac i of
                Inl e \<Rightarrow> (warnings, Inl e)
              | Inr (Some prev) \<Rightarrow> collect_changes get_prev (Suc i) ms added (removed @ [prev]) warnings
              | Inr None \<Rightarrow>
                  collect_changes get_prev (Suc i) ms added removed
                    (if op = 1 then warnings @ [MissingPreviousSetValueOperation] else warnings)))"

definition update_hash ::
    "'v appstate_env \<Rightarrow> prev_lookup \<Rightarrow> syncd_mutation list \<Rightarrow> hash_state \<Rightarrow> appstate_error list \<times> hash_state ares" where
  "update_hash E get_prev ms s =
     (case collect_changes get_prev 0 ms [] [] [] of
        (warnings, r) \<Rightarrow>
          (warnings,
           rbind r (\<lambda>(added, removed).
             rmap (\<lambda>h. s\<lparr>lthash := h\<rparr>)
               (subtract_then_add_in_place (hkdf E) WAPATCH_INTEGRITY (lthash s) removed added))))"

definition update_hash_from_records :: "'v appstate_env \<Rightarrow> syncd_record list \<Rightarrow> hash_state \<Rightarrow> hash_state ares" where
  "update_hash_from_records E rs s =
     rmap (\<lambda>h. s\<lparr>lthash := h\<rparr>)
       (subtract_then_add_in_place (hkdf E) WAPATCH_INTEGRITY (lthash s) [] (List.map_filter value_tail rs))"

definition generate_snapshot_mac :: "'v appstate_env \<Rightarrow> string \<Rightarrow> bytes \<Rightarrow> hash_state \<Rightarrow> bytes" where
  "generate_snapshot_mac E name key s =
     hmac_sha256 E key (lthash s @ u64_to_be (version s) @ as_bytes name)"

definition generate_patch_mac :: "'v appstate_env \<Rightarrow> syncd_patch \<Rightarrow> string \<Rightarrow> bytes \<Rightarrow> u64 \<Rightarrow> bytes" where
  "generate_patch_mac E patch name key v =
     hmac_sha256 E key
       ((case patch_snapshot_mac patch of Some sm \<Rightarrow> sm | None \<Rightarrow> [])
        @ concat (List.map_filter (\<lambda>m. Option.bind (mut_record m) value_tail) (patch_mutations patch))
        @ u64_to_be v @ as_bytes name)"

definition generate_content_mac :: "'v appstate_env \<Rightarrow> syncd_operation \<Rightarrow> bytes \<Rightarrow> bytes \<Rightarrow> bytes \<Rightarrow> bytes ares" where
  \<comment> \<open>the slice of the first 32 bytes panics on a shorter code\<close>
  "generate_content_mac E operation bs key_id key =
     (let op_byte = (case operation of OpSet \<Rightarrow> 0 | OpRemove \<Rightarrow> 1) + 1;
          mac_full = hmac_sha512 E key ([op_byte] @ key_id @ bs @ u64_to_be (of_nat (length key_id + 1)))
      in if length mac_full < 32 then Inl Panic else Inr (take 32 mac_full))"

definition validate_index_mac :: "'v appstate_env \<Rightarrow> bytes \<Rightarrow> bytes \<Rightarrow> bytes \<Rightarrow> unit ares" where
  "validate_index_mac E index_json expected_mac key =
     (if hmac_sha256 E key index_json \<noteq> expected_mac then Throw MismatchingIndexMAC else Inr ())"

section \<open>Records\<close>

record 'v mutation =
  action_value :: "'v option"
  m_index_mac :: bytes
  m_value_mac :: bytes
  m_index :: "string list"
  m_operation :: syncd_operation

definition decode_record ::
    "'v appstate_env \<Rightarrow> syncd_operation \<Rightarrow> syncd_record \<Rightarrow> app_keys \<Rightarrow> bytes \<Rightarrow> bool \<Rightarrow> 'v mutation ares" where
  "decode_record E operation record keys key_id validate_macs =
     rbind (ok_or (rec_value record) MissingValueBlob) (\<lambda>value_blob.
     if length value_blob < 16 + 32 then Throw ValueBlobTooShort
     else
       let iv = take 16 value_blob;
           rest = drop 16 value_blob;
           ciphertext = take (length rest - 32) rest;
           value_mac = drop (length rest - 32) rest
       in
       rbind (if validate_macs
              then rbind (generate_content_mac E operation (take (length value_blob - 32) value_blob) key_id (value_mac_key keys))
                     (\<lambda>expected. if expected \<noteq> value_mac then Throw MismatchingContentMAC else Inr ())
              else Inr ()) (\<lambda>_.
       rbind (ok_or (cbc_decrypt E ciphertext (value_encryption_key keys) iv) DecryptionFailed) (\<lambda>plaintext.
       rbind (ok_or (decode_action E plaintext) DecodeFailed) (\<lambda>(action_index, action).
       rbind (case action_index of
                None \<Rightarrow> Inr []
              | Some idx_bytes \<Rightarrow>
                  rbind (if validate_macs
                         then rbind (ok_or (rec_index record) MissingIndexMAC) (\<lambda>stored.
                                validate_index_mac E idx_bytes stored (index_key keys))
                         else Inr ()) (\<lambda>_.
                  Inr (case parse_index E idx_bytes of Some parsed \<Rightarrow> parsed | None \<Rightarrow> []))) (\<lambda>index_list.
       Inr \<lparr>action_value = action,
            m_index_mac = (case rec_index record of Some i \<Rightarrow> i | None \<Rightarrow> []),
            m_value_mac = value_mac, m_index = index_list, m_operation = operation\<rparr>)))))"

definition check_key_id :: "bytes option \<Rightarrow> bytes list \<Rightarrow> bytes list" where
  \<comment> \<open>the closure \<open>check\<close>: the set of seen identifiers is the set of those already listed\<close>
  "check_key_id k key_ids =
     (case k of Some k \<Rightarrow> if k \<in> set key_ids then key_ids else key_ids @ [k] | None \<Rightarrow> key_ids)"

definition collect_key_ids_from_patch_list :: "syncd_snapshot option \<Rightarrow> syncd_patch list \<Rightarrow> bytes list" where
  "collect_key_ids_from_patch_list snapshot patches =
     (let key_ids = (case snapshot of
                       Some s \<Rightarrow> fold (check_key_id \<circ> rec_key_id) (snap_records s) (check_key_id (snap_key_id s) [])
                     | None \<Rightarrow> [])
      in fold (check_key_id \<circ> patch_key_id) patches key_ids)"

section \<open>Processor\<close>

record mutation_mac =
  mm_index_mac :: bytes
  mm_value_mac :: bytes

record 'v processed_snapshot =
  ps_state :: hash_state
  ps_mutations :: "'v mutation list"
  ps_mutation_macs :: "mutation_mac list"

record 'v patch_result =
  pr_state :: hash_state
  pr_mutations :: "'v mutation list"
  pr_added_macs :: "mutation_mac list"
  pr_removed_index_macs :: "bytes list"

definition mac_of :: "'v mutation \<Rightarrow> mutation_mac" where
  "mac_of m = \<lparr>mm_index_mac = m_index_mac m, mm_value_mac = m_value_mac m\<rparr>"

fun decode_records ::
    "'v appstate_env \<Rightarrow> (bytes \<Rightarrow> app_keys ares) \<Rightarrow> bool \<Rightarrow> syncd_record list \<Rightarrow> 'v mutation list ares" where
  "decode_records E get_keys validate_macs [] = Inr []"
| "decode_records E get_keys validate_macs (r # rs) =
     rbind (ok_or (rec_key_id r) MissingKeyId) (\<lambda>key_id.
     rbind (get_keys key_id) (\<lambda>keys.
     rbind (decode_record E OpSet r keys key_id validate_macs) (\<lambda>m.
     rmap ((#) m) (decode_records E get_keys validate_macs rs))))"

definition process_snapshot ::
    "'v appstate_env \<Rightarrow> syncd_snapshot \<Rightarrow> hash_state \<Rightarrow> (bytes \<Rightarrow> app_keys ares) \<Rightarrow> bool \<Rightarrow> string \<Rightarrow> 'v processed_snapshot ares" where
  "process_snapshot E snapshot initial_state get_keys validate_macs name =
     (let state = initial_state\<lparr>version := (case snap_version snapshot of Some v \<Rightarrow> v | None \<Rightarrow> 0)\<rparr> in
      rbind (update_hash_from_records E (snap_records snapshot) state) (\<lambda>state.
      rbind (case (validate_macs, snap_mac snapshot, snap_key_id snapshot) of
               (True, Some mac_expected, Some key_id) \<Rightarrow>
                 rbind (get_keys key_id) (\<lambda>keys.
                   if generate_snapshot_mac E name (snapshot_mac_key keys) state \<noteq> mac_expected
                   then Throw SnapshotMACMismatch else Inr ())
             | _ \<Rightarrow> Inr ()) (\<lambda>_.
      rmap (\<lambda>ms. \<lparr>ps_state = state, ps_mutations = ms, ps_mutation_macs = map mac_of ms\<rparr>)
        (decode_records E get_keys validate_macs (snap_records snapshot)))))"

definition validate_patch_macs ::
    "'v appstate_env \<Rightarrow> syncd_patch \<Rightarrow> hash_state \<Rightarrow> app_keys \<Rightarrow> string \<Rightarrow> bool \<Rightarrow> unit ares" where
  "validate_patch_macs E patch state keys name had_no_prior_state =
     (if had_no_prior_state then Inr ()
      else
        rbind (case patch_snapshot_mac patch of
                 Some expected \<Rightarrow>
                   if generate_snapshot_mac E name (snapshot_mac_key keys) state \<noteq> expected
                   then Throw PatchSnapshotMACMismatch else Inr ()
               | None \<Rightarrow> Inr ()) (\<lambda>_.
          case patch_patch_mac patch of
            Some patch_mac \<Rightarrow>
              (let v = (case patch_version patch of Some v \<Rightarrow> v | None \<Rightarrow> 0) in
               if generate_patch_mac E patch name (patch_mac_key keys) v \<noteq> patch_mac
               then Throw PatchMACMismatch else Inr ())
          | None \<Rightarrow> Inr ()))"

definition validate_snapshot_mac ::
    "'v appstate_env \<Rightarrow> syncd_snapshot \<Rightarrow> hash_state \<Rightarrow> app_keys \<Rightarrow> string \<Rightarrow> unit ares" where
  "validate_snapshot_mac E snapshot state keys name =
     (case snap_mac snapshot of
        Some mac_expected \<Rightarrow>
          if generate_snapshot_mac E name (snapshot_mac_key keys) state \<noteq> mac_expected
          then Throw SnapshotMACMismatch else Inr ()
      | None \<Rightarrow> Inr ())"

definition prev_value_mac :: "syncd_mutation list \<Rightarrow> (bytes \<Rightarrow> bytes option ares) \<Rightarrow> prev_lookup" where
  "prev_value_mac ms get_prev_value_mac index_mac idx =
     (case find (\<lambda>r. rec_index r = Some index_mac \<and> value_tail r \<noteq> None)
             (List.map_filter mut_record (rev (take idx ms))) of
        Some r \<Rightarrow> Inr (value_tail r)
      | None \<Rightarrow> get_prev_value_mac index_mac)"

definition operation_of :: "syncd_mutation \<Rightarrow> syncd_operation" where
  \<comment> \<open>\<open>try_from\<close> with an unknown code read as \<open>Set\<close>\<close>
  "operation_of m = (if operation_code m = 1 then OpRemove else OpSet)"

fun decode_mutations ::
    "'v appstate_env \<Rightarrow> (bytes \<Rightarrow> app_keys ares) \<Rightarrow> bool \<Rightarrow> syncd_mutation list \<Rightarrow> 'v mutation list ares" where
  "decode_mutations E get_keys validate_macs [] = Inr []"
| "decode_mutations E get_keys validate_macs (m # ms) =
     (case mut_record m of
        None \<Rightarrow> decode_mutations E get_keys validate_macs ms
      | Some r \<Rightarrow>
          rbind (ok_or (rec_key_id r) MissingKeyId) (\<lambda>key_id.
          rbind (get_keys key_id) (\<lambda>keys.
          rbind (decode_record E (operation_of m) r keys key_id validate_macs) (\<lambda>d.
          rmap ((#) d) (decode_mutations E get_keys validate_macs ms)))))"

definition process_patch ::
    "'v appstate_env \<Rightarrow> syncd_patch \<Rightarrow> hash_state \<Rightarrow> (bytes \<Rightarrow> app_keys ares) \<Rightarrow> (bytes \<Rightarrow> bytes option ares)
     \<Rightarrow> bool \<Rightarrow> string \<Rightarrow> 'v patch_result ares" where
  "process_patch E patch state get_keys get_prev_value_mac validate_macs name =
     (let had_no_prior_state = (version state = 0 \<and> lthash state = replicate 128 0);
          state = state\<lparr>version := (case patch_version patch of Some v \<Rightarrow> v | None \<Rightarrow> 0)\<rparr>;
          (_, r) = update_hash E (prev_value_mac (patch_mutations patch) get_prev_value_mac)
                     (patch_mutations patch) state
      in
      rbind (case r of Inl (Err _) \<Rightarrow> Throw MismatchingLTHash | r \<Rightarrow> r) (\<lambda>state.
      rbind (case (validate_macs, patch_key_id patch) of
               (True, Some key_id) \<Rightarrow>
                 rbind (get_keys key_id) (\<lambda>keys.
                   validate_patch_macs E patch state keys name had_no_prior_state)
             | _ \<Rightarrow> Inr ()) (\<lambda>_.
      rmap (\<lambda>ms. \<lparr>pr_state = state, pr_mutations = ms,
                   pr_added_macs = map mac_of (filter (\<lambda>m. m_operation m = OpSet) ms),
                   pr_removed_index_macs = map m_index_mac (filter (\<lambda>m. m_operation m = OpRemove) ms)\<rparr>)
        (decode_mutations E get_keys validate_macs (patch_mutations patch)))))"

section \<open>Patch lists\<close>

datatype wa_patch_name =
  CriticalBlock | CriticalUnblockLow | RegularLow | RegularHigh | Regular | UnknownName

definition patch_name_str :: "wa_patch_name \<Rightarrow> string" where
  "patch_name_str n = (case n of
     CriticalBlock \<Rightarrow> ''critical_block'' | CriticalUnblockLow \<Rightarrow> ''critical_unblock_low''
   | RegularLow \<Rightarrow> ''regular_low'' | RegularHigh \<Rightarrow> ''regular_high'' | Regular \<Rightarrow> ''regular''
   | UnknownName \<Rightarrow> ''unknown'')"

definition patch_name_of :: "string \<Rightarrow> wa_patch_name" where
  "patch_name_of s =
     (if s = ''critical_block'' then CriticalBlock
      else if s = ''critical_unblock_low'' then CriticalUnblockLow
      else if s = ''regular_low'' then RegularLow
      else if s = ''regular_high'' then RegularHigh
      else if s = ''regular'' then Regular
      else UnknownName)"

record 'x patch_list =
  pl_name :: wa_patch_name
  has_more_patches :: bool
  pl_patches :: "syncd_patch list"
  pl_snapshot :: "syncd_snapshot option"
  snapshot_ref :: "'x option"

datatype patch_list_error = MissingCollection | BadAttributes | BadPatch

fun parse_patches :: "(bytes \<Rightarrow> syncd_patch option) \<Rightarrow> node list \<Rightarrow> (syncd_patch list, patch_list_error) result" where
  "parse_patches decode_patch [] = Inr []"
| "parse_patches decode_patch (c # cs) =
     (case (tag c = ''patch'', content c) of
        (True, Some (NBytes raw)) \<Rightarrow>
          rbind (ok_or (decode_patch raw) BadPatch) (\<lambda>p. rmap ((#) p) (parse_patches decode_patch cs))
      | _ \<Rightarrow> parse_patches decode_patch cs)"

definition parse_patch_list ::
    "(bytes \<Rightarrow> syncd_patch option) \<Rightarrow> (bytes \<Rightarrow> 'x option) \<Rightarrow> node \<Rightarrow> ('x patch_list, patch_list_error) result" where
  "parse_patch_list decode_patch decode_ref n =
     rbind (ok_or (get_optional_child_by_tag n [''sync'', ''collection'']) MissingCollection) (\<lambda>collection.
     let (name_str, ag) = ap_string ''name'' (parser_owned collection);
         (has_more, ag) = optional_bool ''has_more_patches'' ag
     in
     rbind (case ap_finish ag of Inr _ \<Rightarrow> Inr () | Inl _ \<Rightarrow> Throw BadAttributes) (\<lambda>_.
     let ext = (case get_optional_child collection ''snapshot'' of
                  Some s \<Rightarrow> (case content s of Some (NBytes raw) \<Rightarrow> decode_ref raw | _ \<Rightarrow> None)
                | None \<Rightarrow> None)
     in
     rmap (\<lambda>ps. \<lparr>pl_name = patch_name_of name_str, has_more_patches = has_more, pl_patches = ps,
                  pl_snapshot = None, snapshot_ref = ext\<rparr>)
       (case Option.bind (get_optional_child collection ''patches'') children of
          Some cs \<Rightarrow> parse_patches decode_patch cs
        | None \<Rightarrow> Inr [])))"

end
