(* ===== verification/Sync.thy ===== *)
theory Sync
  imports AppState
begin

text \<open>
  The app state synchroniser (\<^verbatim>\<open>src/appstate_sync.rs\<close>) over its storage, the operations of the trait
  \<open>AppSyncStore\<close> (\<^verbatim>\<open>warp_core/src/store/traits.rs\<close>) on maps: what it relies on for one device,
  without failures. The theory \<open>Sqlite\<close> shows that the tables of the database implement it. The encoding of key identifiers in the cache is the parameter \<open>b64\<close>.
\<close>

section \<open>Storage\<close>

record app_store =
  sync_keys :: "bytes \<rightharpoonup> bytes"
  versions :: "string \<rightharpoonup> hash_state"
  mac_table :: "string \<Rightarrow> bytes \<rightharpoonup> bytes"

definition get_sync_key :: "bytes \<Rightarrow> app_store \<Rightarrow> bytes option" where
  "get_sync_key key_id st = sync_keys st key_id"

definition get_version :: "string \<Rightarrow> app_store \<Rightarrow> hash_state" where
  "get_version name st = (case versions st name of Some s \<Rightarrow> s | None \<Rightarrow> default_state)"

definition set_version :: "string \<Rightarrow> hash_state \<Rightarrow> app_store \<Rightarrow> app_store" where
  "set_version name s st = st\<lparr>versions := (versions st)(name \<mapsto> s)\<rparr>"

definition put_rows :: "mutation_mac list \<Rightarrow> (bytes \<rightharpoonup> bytes) \<Rightarrow> bytes \<rightharpoonup> bytes" where
  \<comment> \<open>insert, or update on conflict, row by row\<close>
  "put_rows ms t = foldl (\<lambda>t m. t(mm_index_mac m \<mapsto> mm_value_mac m)) t ms"

definition delete_rows :: "bytes list \<Rightarrow> (bytes \<rightharpoonup> bytes) \<Rightarrow> bytes \<rightharpoonup> bytes" where
  "delete_rows ks t = foldl (\<lambda>t k. t(k := None)) t ks"

definition put_mutation_macs :: "string \<Rightarrow> mutation_mac list \<Rightarrow> app_store \<Rightarrow> app_store" where
  "put_mutation_macs name ms st =
     st\<lparr>mac_table := (mac_table st)(name := put_rows ms (mac_table st name))\<rparr>"

definition delete_mutation_macs :: "string \<Rightarrow> bytes list \<Rightarrow> app_store \<Rightarrow> app_store" where
  "delete_mutation_macs name ks st =
     st\<lparr>mac_table := (mac_table st)(name := delete_rows ks (mac_table st name))\<rparr>"

definition get_mutation_mac :: "string \<Rightarrow> bytes \<Rightarrow> app_store \<Rightarrow> bytes option" where
  "get_mutation_mac name index_mac st = mac_table st name index_mac"

section \<open>AppStateProcessor\<close>

record app_processor =
  backend :: app_store
  key_cache :: "string \<rightharpoonup> app_keys"

definition processor_new :: "app_store \<Rightarrow> app_processor" where
  "processor_new st = \<lparr>backend = st, key_cache = Map.empty\<rparr>"

datatype sync_error = AppKeyNotFound | Processing appstate_error | BadList patch_list_error | FetchFailed

definition lift_err :: "('e \<Rightarrow> sync_error) \<Rightarrow> ('a, 'e) result \<Rightarrow> ('a, sync_error) result" where
  "lift_err f r = (case r of Inr x \<Rightarrow> Inr x | Inl (Err e) \<Rightarrow> Throw (f e) | Inl Panic \<Rightarrow> Inl Panic | Inl Diverge \<Rightarrow> Inl Diverge)"

definition get_app_state_key ::
    "'v appstate_env \<Rightarrow> (bytes \<Rightarrow> string) \<Rightarrow> bytes \<Rightarrow> app_processor \<Rightarrow> (app_keys, sync_error) result \<times> app_processor" where
  "get_app_state_key E b64 key_id p =
     (case key_cache p (b64 key_id) of
        Some cached \<Rightarrow> (Inr cached, p)
      | None \<Rightarrow>
          (case get_sync_key key_id (backend p) of
             None \<Rightarrow> (Throw AppKeyNotFound, p)
           | Some key_data \<Rightarrow>
               (case expand_app_state_keys E key_data of
                  Inl e \<Rightarrow> (lift_err Processing (Inl e), p)
                | Inr expanded \<Rightarrow> (Inr expanded, p\<lparr>key_cache := (key_cache p)(b64 key_id \<mapsto> expanded)\<rparr>))))"

definition prefetch_keys ::
    "'v appstate_env \<Rightarrow> (bytes \<Rightarrow> string) \<Rightarrow> 'x patch_list \<Rightarrow> app_processor \<Rightarrow> app_processor" where
  \<comment> \<open>errors are ignored; deriving 160 bytes does not fail\<close>
  "prefetch_keys E b64 pl p =
     fold (\<lambda>k p. snd (get_app_state_key E b64 k p))
       (collect_key_ids_from_patch_list (pl_snapshot pl) (pl_patches pl)) p"

definition cached_keys :: "(bytes \<Rightarrow> string) \<Rightarrow> app_processor \<Rightarrow> bytes \<Rightarrow> app_keys ares" where
  \<comment> \<open>the closure \<open>get_keys\<close>\<close>
  "cached_keys b64 p key_id = ok_or (key_cache p (b64 key_id)) KeyNotFound"

definition fetch_previous :: "string \<Rightarrow> syncd_patch \<Rightarrow> app_store \<Rightarrow> bytes \<rightharpoonup> bytes" where
  "fetch_previous name patch st =
     (let need = fold (\<lambda>k need. if k \<in> set need then need else need @ [k])
                   (List.map_filter (\<lambda>m. Option.bind (mut_record m) rec_index) (patch_mutations patch)) []
      in fold (\<lambda>k t. case get_mutation_mac name k st of Some mac \<Rightarrow> t(k \<mapsto> mac) | None \<Rightarrow> t) need Map.empty)"

definition apply_patch ::
    "'v appstate_env \<Rightarrow> (bytes \<Rightarrow> string) \<Rightarrow> bool \<Rightarrow> string \<Rightarrow> syncd_patch \<Rightarrow> hash_state \<Rightarrow> app_processor
     \<Rightarrow> ('v mutation list \<times> hash_state, sync_error) result \<times> app_processor" where
  "apply_patch E b64 validate_macs name patch state p =
     (let db_prev = fetch_previous name patch (backend p) in
      case process_patch E patch state (cached_keys b64 p) (\<lambda>k. Inr (db_prev k)) validate_macs name of
        Inl e \<Rightarrow> (lift_err Processing (Inl e), p)
      | Inr r \<Rightarrow>
          let st = set_version name (pr_state r) (backend p);
              st = (if pr_removed_index_macs r \<noteq> [] then delete_mutation_macs name (pr_removed_index_macs r) st else st);
              st = (if pr_added_macs r \<noteq> [] then put_mutation_macs name (pr_added_macs r) st else st)
          in (Inr (pr_mutations r, pr_state r), p\<lparr>backend := st\<rparr>))"

fun apply_patches ::
    "'v appstate_env \<Rightarrow> (bytes \<Rightarrow> string) \<Rightarrow> bool \<Rightarrow> string \<Rightarrow> syncd_patch list \<Rightarrow> hash_state \<Rightarrow> app_processor
     \<Rightarrow> ('v mutation list \<times> hash_state, sync_error) result \<times> app_processor" where
  "apply_patches E b64 validate_macs name [] state p = (Inr ([], state), p)"
| "apply_patches E b64 validate_macs name (patch # patches) state p =
     (case apply_patch E b64 validate_macs name patch state p of
        (Inl e, p) \<Rightarrow> (Inl e, p)
      | (Inr (ms, state), p) \<Rightarrow>
          (case apply_patches E b64 validate_macs name patches state p of
             (Inl e, p) \<Rightarrow> (Inl e, p)
           | (Inr (ms', state), p) \<Rightarrow> (Inr (ms @ ms', state), p)))"

definition apply_snapshot ::
    "'v appstate_env \<Rightarrow> (bytes \<Rightarrow> string) \<Rightarrow> bool \<Rightarrow> string \<Rightarrow> syncd_snapshot \<Rightarrow> app_processor
     \<Rightarrow> ('v mutation list \<times> hash_state, sync_error) result \<times> app_processor" where
  "apply_snapshot E b64 validate_macs name snapshot p =
     (case process_snapshot E snapshot default_state (cached_keys b64 p) validate_macs name of
        Inl e \<Rightarrow> (lift_err Processing (Inl e), p)
      | Inr r \<Rightarrow>
          let st = set_version name (ps_state r) (backend p);
              st = (if ps_mutation_macs r \<noteq> [] then put_mutation_macs name (ps_mutation_macs r) st else st)
          in (Inr (ps_mutations r, ps_state r), p\<lparr>backend := st\<rparr>))"

definition process_patch_list ::
    "'v appstate_env \<Rightarrow> (bytes \<Rightarrow> string) \<Rightarrow> bool \<Rightarrow> 'x patch_list \<Rightarrow> app_processor
     \<Rightarrow> ('v mutation list \<times> hash_state, sync_error) result \<times> app_processor" where
  "process_patch_list E b64 validate_macs pl p =
     (let p = prefetch_keys E b64 pl p;
          name = patch_name_str (pl_name pl);
          state = get_version name (backend p)
      in case (case pl_snapshot pl of
                 Some snapshot \<Rightarrow> apply_snapshot E b64 validate_macs name snapshot p
               | None \<Rightarrow> (Inr ([], state), p)) of
           (Inl e, p) \<Rightarrow> (Inl e, p)
         | (Inr (ms, state), p) \<Rightarrow>
             (case apply_patches E b64 validate_macs name (pl_patches pl) state p of
                (Inl e, p) \<Rightarrow> (Inl e, p)
              | (Inr (ms', state), p) \<Rightarrow>
                  (Inr (ms @ ms', state),
                   if pl_patches pl = [] \<and> pl_snapshot pl \<noteq> None
                   then p\<lparr>backend := set_version name state (backend p)\<rparr> else p)))"

definition decode_patch_list ::
    "'v appstate_env \<Rightarrow> (bytes \<Rightarrow> string) \<Rightarrow> (bytes \<Rightarrow> syncd_patch option) \<Rightarrow> (bytes \<Rightarrow> 'x option) \<Rightarrow> (bytes \<Rightarrow> syncd_snapshot option)
     \<Rightarrow> ('x \<Rightarrow> bytes option) \<Rightarrow> bool \<Rightarrow> node \<Rightarrow> app_processor
     \<Rightarrow> ('v mutation list \<times> hash_state \<times> 'x patch_list, sync_error) result \<times> app_processor" where
  "decode_patch_list E b64 decode_patch decode_ref decode_snapshot download validate_macs n p =
     (case lift_err BadList (parse_patch_list decode_patch decode_ref n) of
        Inl e \<Rightarrow> (Inl e, p)
      | Inr pl \<Rightarrow>
          let pl = (case (pl_snapshot pl, snapshot_ref pl) of
                      (None, Some ext) \<Rightarrow>
                        (case Option.bind (download ext) decode_snapshot of
                           Some s \<Rightarrow> pl\<lparr>pl_snapshot := Some s\<rparr>
                         | None \<Rightarrow> pl)
                    | _ \<Rightarrow> pl)
          in (case process_patch_list E b64 validate_macs pl p of
                (Inl e, p) \<Rightarrow> (Inl e, p)
              | (Inr (ms, state), p) \<Rightarrow> (Inr (ms, state, pl), p)))"

definition get_missing_key_ids :: "'x patch_list \<Rightarrow> app_processor \<Rightarrow> bytes list" where
  "get_missing_key_ids pl p =
     filter (\<lambda>k. get_sync_key k (backend p) = None)
       (collect_key_ids_from_patch_list (pl_snapshot pl) (pl_patches pl))"

text \<open>The loop of \<open>sync_collection\<close> ends only when the server says so: the model bounds the number of
  rounds, and \<open>None\<close> means that the bound was reached. The server's answer may depend on the round
  and on the version asked for.\<close>

fun sync_collection ::
    "(node \<Rightarrow> app_processor \<Rightarrow> ('v mutation list \<times> hash_state \<times> 'x patch_list, sync_error) result \<times> app_processor)
     \<Rightarrow> (nat \<Rightarrow> u64 \<Rightarrow> node option) \<Rightarrow> wa_patch_name \<Rightarrow> nat \<Rightarrow> nat \<Rightarrow> app_processor
     \<Rightarrow> (('v mutation list, sync_error) result \<times> app_processor) option" where
  "sync_collection decode fetch name 0 i p = None"
| "sync_collection decode fetch name (Suc fuel) i p =
     (let state = get_version (patch_name_str name) (backend p) in
      case fetch i (version state) of
        None \<Rightarrow> Some (Throw FetchFailed, p)
      | Some n \<Rightarrow>
          (case decode n p of
             (Inl e, p) \<Rightarrow> Some (Inl e, p)
           | (Inr (ms, _, pl), p) \<Rightarrow>
               if has_more_patches pl
               then map_option (\<lambda>(r, p). (rmap ((@) ms) r, p)) (sync_collection decode fetch name fuel (Suc i) p)
               else Some (Inr ms, p)))"

section \<open>The table of stored codes\<close>

definition macs :: "(bytes \<rightharpoonup> bytes) \<Rightarrow> bytes multiset" where
  \<comment> \<open>the stored value codes\<close>
  "macs t = image_mset (the \<circ> t) (mset_set (dom t))"

lemma macs_empty [simp]: "macs Map.empty = {#}"
  by (simp add: macs_def)

lemma macs_update: "finite (dom t) \<Longrightarrow> macs (t(k \<mapsto> v)) = add_mset v (macs (t(k := None)))"
proof -
  assume fin: "finite (dom t)"
  have "image_mset (the \<circ> t(k \<mapsto> v)) (mset_set (dom t - {k})) = image_mset (the \<circ> t(k := None)) (mset_set (dom t - {k}))"
    by (rule image_mset_cong) (use fin in auto)
  moreover have "mset_set (dom (t(k \<mapsto> v))) = add_mset k (mset_set (dom t - {k}))"
    using fin by (simp add: mset_set.insert_remove)
  ultimately show ?thesis
    by (simp add: macs_def)
qed

lemma macs_lookup: "finite (dom t) \<Longrightarrow> t k = Some p \<Longrightarrow> macs t = add_mset p (macs (t(k := None)))"
  using macs_update [of t k p] by (simp add: map_upd_triv)

definition wf_mutation :: "syncd_mutation \<Rightarrow> bool" where
  \<comment> \<open>a record with an index, and one of the two defined operations\<close>
  "wf_mutation m \<longleftrightarrow> (\<exists>r. mut_record m = Some r \<and> rec_index r \<noteq> None \<and> value_tail r \<noteq> None)
     \<and> operation_code m \<in> {0, 1}"

definition index_of :: "syncd_mutation \<Rightarrow> bytes" where
  "index_of m = the (Option.bind (mut_record m) rec_index)"

definition tail_of :: "syncd_mutation \<Rightarrow> bytes" where
  "tail_of m = the (Option.bind (mut_record m) value_tail)"

fun run_table :: "syncd_mutation list \<Rightarrow> (bytes \<rightharpoonup> bytes) \<Rightarrow> bytes \<rightharpoonup> bytes" where
  \<comment> \<open>the mutations applied one by one\<close>
  "run_table [] t = t"
| "run_table (m # ms) t =
     run_table ms (if operation_code m = 0 then t(index_of m \<mapsto> tail_of m) else t(index_of m := None))"

definition adds :: "syncd_mutation list \<Rightarrow> bytes list" where
  "adds ms = map tail_of (filter (\<lambda>m. operation_code m = 0) ms)"

definition removes :: "(bytes \<rightharpoonup> bytes) \<Rightarrow> syncd_mutation list \<Rightarrow> bytes list" where
  "removes t ms = List.map_filter (t \<circ> index_of) ms"

lemma removes_simps [simp]:
  "removes t [] = []"
  "removes t (m # ms) = (case t (index_of m) of Some p \<Rightarrow> p # removes t ms | None \<Rightarrow> removes t ms)"
  by (simp_all add: removes_def map_filter_simps split: option.split)

lemma removes_other: "k \<notin> index_of ` set ms \<Longrightarrow> removes (t(k := v)) ms = removes t ms"
  by (induction ms) (auto split: option.splits)

lemma mset_exchange:
  fixes a :: "'a multiset"
  assumes "a + x = b + y" "b + p = r + q"
  shows "a + (x + p) = r + (y + q)"
proof -
  have "a + (x + p) = (b + p) + y"
    using assms(1) by (simp add: union_assoc [symmetric])
  then show ?thesis
    unfolding assms(2) by (simp add: ac_simps)
qed

lemma macs_run:
  "finite (dom t) \<Longrightarrow> distinct (map index_of ms) \<Longrightarrow>
   finite (dom (run_table ms t)) \<and> macs t + mset (adds ms) = macs (run_table ms t) + mset (removes t ms)"
proof (induction ms arbitrary: t)
  case (Cons m ms)
  let ?k = "index_of m"
  let ?t = "if operation_code m = 0 then t(?k \<mapsto> tail_of m) else t(?k := None)"
  let ?X = "if operation_code m = 0 then {#tail_of m#} else {#}" and ?Y = "case t ?k of Some p \<Rightarrow> {#p#} | None \<Rightarrow> {#}"
  have "removes ?t ms = removes t ms"
    using Cons.prems(2) by (simp add: removes_other)
  then have IH: "finite (dom (run_table ms ?t))" "macs ?t + mset (adds ms) = macs (run_table ms ?t) + mset (removes t ms)"
    using Cons.IH [of ?t] Cons.prems by simp_all
  have "macs t + ?X = macs ?t + ?Y"
    using Cons.prems(1) macs_update [of t ?k "tail_of m"] macs_lookup [of t ?k]
    by (cases "t ?k") (simp_all add: fun_upd_idem)
  from mset_exchange [OF this IH(2)]
  have "macs t + (?X + mset (adds ms)) = macs (run_table ms ?t) + (?Y + mset (removes t ms))" .
  moreover have "mset (adds (m # ms)) = ?X + mset (adds ms)"
    by (simp add: adds_def)
  moreover have "mset (removes t (m # ms)) = ?Y + mset (removes t ms)"
    by (simp split: option.split)
  ultimately show ?case
    using IH(1) by (simp only: run_table.simps simp_thms)
qed (simp add: adds_def)

lemma collect_plain:
  "list_all wf_mutation ms \<Longrightarrow>
   \<exists>w'. collect_changes (\<lambda>k _. Inr (t k)) i ms a r w = (w', Inr (a @ adds ms, r @ removes t ms))"
proof (induction ms arbitrary: i a r w)
  case (Cons m ms)
  obtain rc k v where m: "mut_record m = Some rc" "rec_index rc = Some k" "value_tail rc = Some v"
    using Cons.prems by (auto simp: wf_mutation_def)
  then have km: "index_of m = k" "tail_of m = v"
    by (simp_all add: index_of_def tail_of_def)
  let ?w = "if t k = None \<and> operation_code m = 1 then w @ [MissingPreviousSetValueOperation] else w"
  obtain w' where "collect_changes (\<lambda>k _. Inr (t k)) (Suc i) ms (if operation_code m = 0 then a @ [v] else a)
      (case t k of Some p \<Rightarrow> r @ [p] | None \<Rightarrow> r) ?w
    = (w', Inr ((if operation_code m = 0 then a @ [v] else a) @ adds ms,
                (case t k of Some p \<Rightarrow> r @ [p] | None \<Rightarrow> r) @ removes t ms))"
    using Cons.IH Cons.prems by fastforce
  with m km show ?case
    by (cases "t k"; cases "operation_code m = 0") (simp_all add: adds_def Let_def)
qed (simp add: adds_def)

lemma wf_index: "wf_mutation m \<Longrightarrow> Option.bind (mut_record m) rec_index = Some (index_of m)"
  by (auto simp: wf_mutation_def index_of_def)

lemma prev_value_distinct:
  assumes "k \<notin> index_of ` set (take i ms)"
  shows "prev_value_mac ms g k i = g k"
proof -
  have "rec_index r \<noteq> Some k" if r: "r \<in> set (List.map_filter mut_record (rev (take i ms)))" for r
  proof
    assume "rec_index r = Some k"
    moreover obtain m where "m \<in> set (take i ms)" "mut_record m = Some r"
      using r by (auto simp: map_filter_def)
    ultimately show False
      using assms by (force simp: index_of_def)
  qed
  then have "find (\<lambda>r. rec_index r = Some k \<and> value_tail r \<noteq> None) (List.map_filter mut_record (rev (take i ms))) = None"
    by (auto simp: find_None_iff)
  then show ?thesis
    by (simp add: prev_value_mac_def)
qed

lemma collect_distinct:
  "list_all wf_mutation (pre @ ms) \<Longrightarrow> distinct (map index_of (pre @ ms)) \<Longrightarrow>
   collect_changes (prev_value_mac (pre @ ms) g) (length pre) ms a r w
   = collect_changes (\<lambda>k _. g k) (length pre) ms a r w"
proof (induction ms arbitrary: pre a r w)
  case (Cons m ms)
  have m: "Option.bind (mut_record m) rec_index = Some (index_of m)"
    using Cons.prems(1) by (intro wf_index) simp
  have "prev_value_mac (pre @ m # ms) g (index_of m) (length pre) = g (index_of m)"
    using Cons.prems by (intro prev_value_distinct) auto
  moreover have IH: "collect_changes (prev_value_mac (pre @ m # ms) g) (Suc (length pre)) ms a r w
      = collect_changes (\<lambda>k _. g k) (Suc (length pre)) ms a r w" for a r w
    using Cons.IH [of "pre @ [m]"] Cons.prems by simp
  ultimately show ?case
    by (simp add: m Let_def split: sum.split option.split)
qed simp

section \<open>One patch\<close>

definition keyed :: "syncd_mutation \<Rightarrow> bool" where
  \<comment> \<open>a record with an index, and one of the two defined operations\<close>
  "keyed m \<longleftrightarrow> (\<exists>r. mut_record m = Some r \<and> rec_index r \<noteq> None) \<and> operation_code m \<in> {0, 1}"

lemma collect_cong:
  "(\<And>k i. k \<in> index_of ` set ms \<Longrightarrow> g k i = g' k i) \<Longrightarrow> collect_changes g i ms a r w = collect_changes g' i ms a r w"
proof (induction ms arbitrary: i a r w)
  case (Cons m ms)
  have IH: "collect_changes g (Suc i) ms a r w = collect_changes g' (Suc i) ms a r w" for a r w
    using Cons by auto
  have "g k i = g' k i" if "Option.bind (mut_record m) rec_index = Some k" for k
    using Cons.prems [of k i] that by (simp add: index_of_def)
  then show ?case
    by (simp add: IH Let_def split: option.split sum.split)
qed simp

lemma decode_record_facts:
  assumes "decode_record E op r keys key_id v = Inr d"
  shows "value_tail r = Some (m_value_mac d)" "m_operation d = op"
    "m_index_mac d = (case rec_index r of Some i \<Rightarrow> i | None \<Rightarrow> [])"
proof -
  obtain blob where blob: "rec_value r = Some blob" "\<not> length blob < 48"
    using assms by (auto simp: decode_record_def rbind_eq_Inr split: if_splits)
  then have d: "m_value_mac d = drop (length blob - 48) (drop 16 blob)" "m_operation d = op"
    "m_index_mac d = (case rec_index r of Some i \<Rightarrow> i | None \<Rightarrow> [])"
    using assms by (auto simp: decode_record_def rbind_eq_Inr Let_def)
  then show "m_operation d = op" "m_index_mac d = (case rec_index r of Some i \<Rightarrow> i | None \<Rightarrow> [])"
    by simp_all
  show "value_tail r = Some (m_value_mac d)"
    using blob d(1) by (simp add: value_tail_def last32_def)
qed

definition decodes :: "syncd_mutation \<Rightarrow> 'v mutation \<Rightarrow> bool" where
  "decodes m d \<longleftrightarrow> wf_mutation m \<and> m_index_mac d = index_of m \<and> m_value_mac d = tail_of m
     \<and> m_operation d = (if operation_code m = 0 then OpSet else OpRemove)"

lemma decode_mutations_facts:
  "decode_mutations E gk v ms = Inr ds \<Longrightarrow> list_all keyed ms \<Longrightarrow> list_all2 decodes ms ds"
proof (induction ms arbitrary: ds)
  case (Cons m ms)
  obtain r k where m: "mut_record m = Some r" "rec_index r = Some k" "operation_code m \<in> {0, 1}"
    using Cons.prems(2) by (auto simp: keyed_def)
  with Cons.prems(1) obtain key_id keys d ds' where
    d: "decode_record E (operation_of m) r keys key_id v = Inr d" "ds = d # ds'"
      "decode_mutations E gk v ms = Inr ds'"
    by (auto simp: rbind_eq_Inr rmap_eq_Inr)
  have "decodes m d"
    using decode_record_facts [OF d(1)] m
    by (auto simp: decodes_def wf_mutation_def index_of_def tail_of_def operation_of_def)
  with Cons d show ?case by simp
qed simp

lemma delete_rows_simps [simp]:
  "delete_rows [] t = t" "delete_rows (k # ks) t = delete_rows ks (t(k := None))"
  by (simp_all add: delete_rows_def)

lemma put_rows_simps [simp]:
  "put_rows [] t = t" "put_rows (m # ms) t = put_rows ms (t(mm_index_mac m \<mapsto> mm_value_mac m))"
  by (simp_all add: put_rows_def)

lemma delete_rows_other: "k \<notin> set ks \<Longrightarrow> (delete_rows ks t)(k := v) = delete_rows ks (t(k := v))"
  by (induction ks arbitrary: t) (auto simp: fun_upd_twist)

lemma decodes_indices: "list_all2 decodes ms ds \<Longrightarrow> m_index_mac ` set ds = index_of ` set ms"
  by (induction rule: list_all2_induct) (auto simp: decodes_def)

lemma rows_run_table:
  "list_all2 decodes ms ds \<Longrightarrow> distinct (map index_of ms) \<Longrightarrow>
   put_rows (map mac_of (filter (\<lambda>d. m_operation d = OpSet) ds))
     (delete_rows (map m_index_mac (filter (\<lambda>d. m_operation d = OpRemove) ds)) t) = run_table ms t"
proof (induction ms ds arbitrary: t rule: list_all2_induct)
  case (Cons m ms d ds)
  have "index_of m \<notin> set (map m_index_mac (filter (\<lambda>d. m_operation d = OpRemove) ds))"
    using decodes_indices [OF Cons.hyps(2)] Cons.prems by auto
  from delete_rows_other [OF this] show ?case
    using Cons by (auto simp: decodes_def mac_of_def)
qed simp

lemma update_hash_table:
  assumes "hkdf_expands (hkdf E)" "finite (dom t)" "hash_of (hkdf E) (macs t) (lthash s)"
    and "list_all wf_mutation ms" "distinct (map index_of ms)"
    and "\<And>k. k \<in> index_of ` set ms \<Longrightarrow> db k = t k"
  shows "\<exists>h. snd (update_hash E (prev_value_mac ms (\<lambda>k. Inr (db k))) ms s) = Inr (s\<lparr>lthash := h\<rparr>)
    \<and> hash_of (hkdf E) (macs (run_table ms t)) h"
proof -
  obtain w where w: "collect_changes (\<lambda>k _. Inr (t k)) 0 ms [] [] [] = (w, Inr (adds ms, removes t ms))"
    using collect_plain [OF assms(4), of t 0 "[]" "[]" "[]"] by auto
  have "collect_changes (prev_value_mac ms (\<lambda>k. Inr (db k))) 0 ms [] [] []
      = collect_changes (\<lambda>k _. Inr (db k)) 0 ms [] [] []"
    using collect_distinct [of "[]" ms] assms(4,5) by simp
  also have "\<dots> = collect_changes (\<lambda>k _. Inr (t k)) 0 ms [] [] []"
    by (rule collect_cong) (simp add: assms(6))
  finally have "collect_changes (prev_value_mac ms (\<lambda>k. Inr (db k))) 0 ms [] [] [] = (w, Inr (adds ms, removes t ms))"
    using w by simp
  moreover obtain h where "subtract_then_add_in_place (hkdf E) WAPATCH_INTEGRITY (lthash s) (removes t ms) (adds ms)
      = (Inr h :: bytes ares)" "hash_of (hkdf E) (macs (run_table ms t)) h"
    using hash_of_update [OF assms(1,3), of "adds ms" "macs (run_table ms t)" "removes t ms"]
      macs_run [OF assms(2,5)] by blast
  ultimately show ?thesis
    by (intro exI [of _ h]) (simp add: update_hash_def)
qed

lemma process_patch_facts:
  assumes "process_patch E patch s gk gp v name = Inr r"
  shows "snd (update_hash E (prev_value_mac (patch_mutations patch) gp) (patch_mutations patch)
           (s\<lparr>version := (case patch_version patch of Some v \<Rightarrow> v | None \<Rightarrow> 0)\<rparr>)) = Inr (pr_state r)"
    "decode_mutations E gk v (patch_mutations patch) = Inr (pr_mutations r)"
    "pr_added_macs r = map mac_of (filter (\<lambda>d. m_operation d = OpSet) (pr_mutations r))"
    "pr_removed_index_macs r = map m_index_mac (filter (\<lambda>d. m_operation d = OpRemove) (pr_mutations r))"
    "v \<Longrightarrow> patch_key_id patch = Some key_id \<Longrightarrow> \<exists>keys. gk key_id = Inr keys
       \<and> validate_patch_macs E patch (pr_state r) keys name (version s = 0 \<and> lthash s = replicate 128 0) = Inr ()"
proof -
  obtain w u where u: "update_hash E (prev_value_mac (patch_mutations patch) gp) (patch_mutations patch)
           (s\<lparr>version := (case patch_version patch of Some v \<Rightarrow> v | None \<Rightarrow> 0)\<rparr>) = (w, u)"
    by fastforce
  obtain st where "u = Inr st"
    using assms by (cases u) (auto simp: process_patch_def u Let_def split: fail.splits)
  note r = assms [unfolded process_patch_def Let_def u prod.case \<open>u = Inr st\<close>, simplified]
  obtain ds where ds: "decode_mutations E gk v (patch_mutations patch) = Inr ds"
      "r = \<lparr>pr_state = st, pr_mutations = ds, pr_added_macs = map mac_of (filter (\<lambda>d. m_operation d = OpSet) ds),
            pr_removed_index_macs = map m_index_mac (filter (\<lambda>d. m_operation d = OpRemove) ds)\<rparr>"
    using r by (auto simp: rbind_eq_Inr rmap_eq_Inr)
  then show "snd (update_hash E (prev_value_mac (patch_mutations patch) gp) (patch_mutations patch)
           (s\<lparr>version := (case patch_version patch of Some v \<Rightarrow> v | None \<Rightarrow> 0)\<rparr>)) = Inr (pr_state r)"
    "decode_mutations E gk v (patch_mutations patch) = Inr (pr_mutations r)"
    "pr_added_macs r = map mac_of (filter (\<lambda>d. m_operation d = OpSet) (pr_mutations r))"
    "pr_removed_index_macs r = map m_index_mac (filter (\<lambda>d. m_operation d = OpRemove) (pr_mutations r))"
    by (simp_all add: u \<open>u = Inr st\<close>)
  show "\<exists>keys. gk key_id = Inr keys
       \<and> validate_patch_macs E patch (pr_state r) keys name (version s = 0 \<and> lthash s = replicate 128 0) = Inr ()"
    if "v" "patch_key_id patch = Some key_id"
    using r that ds(2) by (auto simp: rbind_eq_Inr)
qed

lemma process_patch_table:
  assumes "hkdf_expands (hkdf E)" "finite (dom t)" "hash_of (hkdf E) (macs t) (lthash s)"
    and "list_all keyed (patch_mutations patch)" "distinct (map index_of (patch_mutations patch))"
    and "\<And>k. k \<in> index_of ` set (patch_mutations patch) \<Longrightarrow> db k = t k"
    and "process_patch E patch s gk (\<lambda>k. Inr (db k)) v name = Inr r"
  shows "hash_of (hkdf E) (macs (run_table (patch_mutations patch) t)) (lthash (pr_state r))"
    "put_rows (pr_added_macs r) (delete_rows (pr_removed_index_macs r) t) = run_table (patch_mutations patch) t"
proof -
  let ?ms = "patch_mutations patch"
  let ?s = "s\<lparr>version := (case patch_version patch of Some v \<Rightarrow> v | None \<Rightarrow> 0)\<rparr>"
  note r = process_patch_facts [OF assms(7)]
  have rel: "list_all2 decodes ?ms (pr_mutations r)"
    using decode_mutations_facts [OF r(2) assms(4)] .
  then have wf: "list_all wf_mutation ?ms"
    by (induction rule: list_all2_induct) (auto simp: decodes_def)
  show "hash_of (hkdf E) (macs (run_table ?ms t)) (lthash (pr_state r))"
    using update_hash_table [OF assms(1,2) _ wf assms(5), of ?s db] assms(3,6) r(1) by auto
  show "put_rows (pr_added_macs r) (delete_rows (pr_removed_index_macs r) t) = run_table ?ms t"
    unfolding r(3,4) by (rule rows_run_table [OF rel assms(5)])
qed

section \<open>Patch lists\<close>

definition consistent :: "'v appstate_env \<Rightarrow> string \<Rightarrow> app_processor \<Rightarrow> bool" where
  \<comment> \<open>the stored hash is the hash of the stored value codes\<close>
  "consistent E name p \<longleftrightarrow> finite (dom (mac_table (backend p) name))
     \<and> hash_of (hkdf E) (macs (mac_table (backend p) name)) (lthash (get_version name (backend p)))"

definition plain_patch :: "syncd_patch \<Rightarrow> bool" where
  \<comment> \<open>every mutation has an index and a defined operation, and no index occurs twice\<close>
  "plain_patch patch \<longleftrightarrow> list_all keyed (patch_mutations patch) \<and> distinct (map index_of (patch_mutations patch))"

definition as_mutation :: "syncd_record \<Rightarrow> syncd_mutation" where
  "as_mutation r = \<lparr>mut_operation = Some 0, mut_record = Some r\<rparr>"

definition plain_snapshot :: "(bytes \<rightharpoonup> bytes) \<Rightarrow> syncd_snapshot \<Rightarrow> bool" where
  \<comment> \<open>every record has an index, none occurs twice, and every stored index is among them\<close>
  "plain_snapshot t sn \<longleftrightarrow> list_all (\<lambda>r. rec_index r \<noteq> None) (snap_records sn)
     \<and> distinct (map rec_index (snap_records sn)) \<and> Some ` dom t \<subseteq> rec_index ` set (snap_records sn)"

lemma need_set: "set (fold (\<lambda>k need. if k \<in> set need then need else need @ [k]) ks need) = set need \<union> set ks"
  by (induction ks arbitrary: need) auto

lemma fetch_fold:
  "fold (\<lambda>k t. case f k of Some mac \<Rightarrow> t(k \<mapsto> mac) | None \<Rightarrow> t) ks t k
   = (if k \<in> set ks \<and> f k \<noteq> None then f k else t k)"
  by (induction ks arbitrary: t) (auto split: option.splits)

lemma fetch_previous_eq:
  assumes "list_all keyed (patch_mutations patch)" "k \<in> index_of ` set (patch_mutations patch)"
  shows "fetch_previous name patch st k = mac_table st name k"
proof -
  have "List.map_filter (\<lambda>m. Option.bind (mut_record m) rec_index) (patch_mutations patch)
      = map index_of (patch_mutations patch)"
    using assms(1)
    by (auto simp: map_filter_def keyed_def list_all_iff index_of_def intro!: map_cong filter_True)
  then show ?thesis
    using assms(2) by (simp add: fetch_previous_def fetch_fold need_set get_mutation_mac_def Let_def)
qed

lemma store_simps [simp]:
  "mac_table (set_version n s st) = mac_table st"
  "get_version n (set_version n s st) = s"
  "get_version n (put_mutation_macs n' ms st) = get_version n st"
  "get_version n (delete_mutation_macs n' ks st) = get_version n st"
  "mac_table (put_mutation_macs n ms st) n = put_rows ms (mac_table st n)"
  "mac_table (delete_mutation_macs n ks st) n = delete_rows ks (mac_table st n)"
  by (simp_all add: set_version_def get_version_def put_mutation_macs_def delete_mutation_macs_def)

lemma apply_patch_consistent:
  assumes "hkdf_expands (hkdf E)" "consistent E name p" "plain_patch patch"
    and "apply_patch E b64 v name patch (get_version name (backend p)) p = (r, p')"
  shows "consistent E name p' \<and> (\<forall>ms s. r = Inr (ms, s) \<longrightarrow> s = get_version name (backend p'))"
proof (cases "process_patch E patch (get_version name (backend p)) (cached_keys b64 p)
    (\<lambda>k. Inr (fetch_previous name patch (backend p) k)) v name")
  case (Inl e)
  then show ?thesis
    using assms(2,4) by (auto simp: apply_patch_def lift_err_def split: fail.splits)
next
  case (Inr res)
  let ?t = "mac_table (backend p) name" and ?ms = "patch_mutations patch"
  have fin: "finite (dom ?t)" and hash: "hash_of (hkdf E) (macs ?t) (lthash (get_version name (backend p)))"
    using assms(2) by (simp_all add: consistent_def)
  have keyed: "list_all keyed ?ms" and dist: "distinct (map index_of ?ms)"
    using assms(3) by (simp_all add: plain_patch_def)
  note res = process_patch_table [OF assms(1) fin hash keyed dist fetch_previous_eq [OF keyed] Inr]
  have p': "mac_table (backend p') name = run_table ?ms ?t" "get_version name (backend p') = pr_state res"
    and r: "r = Inr (pr_mutations res, pr_state res)"
    using assms(4) Inr res(2) by (auto simp: apply_patch_def Let_def)
  show ?thesis
    using res(1) macs_run [OF fin dist] by (simp add: consistent_def p' r)
qed

lemma apply_patches_consistent:
  assumes "hkdf_expands (hkdf E)"
  shows "consistent E name p \<Longrightarrow> list_all plain_patch patches \<Longrightarrow>
    apply_patches E b64 v name patches (get_version name (backend p)) p = (r, p') \<Longrightarrow>
    consistent E name p' \<and> (\<forall>ms s. r = Inr (ms, s) \<longrightarrow> s = get_version name (backend p'))"
proof (induction patches arbitrary: p r p')
  case (Cons patch patches)
  obtain r1 p1 where one: "apply_patch E b64 v name patch (get_version name (backend p)) p = (r1, p1)"
    by fastforce
  have c1: "consistent E name p1 \<and> (\<forall>ms s. r1 = Inr (ms, s) \<longrightarrow> s = get_version name (backend p1))"
    using apply_patch_consistent [OF assms Cons.prems(1) _ one] Cons.prems(2) by simp
  show ?case
  proof (cases r1)
    case (Inl e)
    then show ?thesis using Cons.prems(3) one c1 by auto
  next
    case (Inr ms_s)
    then obtain ms where ms: "r1 = Inr (ms, get_version name (backend p1))"
      using c1 by (cases ms_s) auto
    obtain r2 p2 where two: "apply_patches E b64 v name patches (get_version name (backend p1)) p1 = (r2, p2)"
      by fastforce
    have "consistent E name p2 \<and> (\<forall>ms s. r2 = Inr (ms, s) \<longrightarrow> s = get_version name (backend p2))"
      using Cons.IH [OF _ _ two] c1 Cons.prems(2) by simp
    then show ?thesis
      using Cons.prems(3) one ms two by (auto split: sum.splits)
  qed
qed auto

lemma prefetch_backend: "backend (prefetch_keys E b64 pl p) = backend p"
proof -
  have step: "backend (snd (get_app_state_key E b64 k p)) = backend p" for k p
    by (simp add: get_app_state_key_def split: option.split sum.split)
  have "backend (fold (\<lambda>k p. snd (get_app_state_key E b64 k p)) ks p) = backend p" for ks
    by (induction ks arbitrary: p) (simp_all add: step)
  then show ?thesis by (simp add: prefetch_keys_def)
qed

lemma hash_of_empty: "hash_of H {#} (replicate 128 0)"
proof -
  have "to_u16s (replicate (2 * n) 0) = replicate n 0" for n
    by (induction n) (simp_all add: u16_from_le_def u16_from_be_def)
  from this [of 64] show ?thesis
    by (simp add: hash_of_def lane_def)
qed

lemma run_table_agree:
  "list_all (\<lambda>m. operation_code m = 0) ms \<Longrightarrow> (\<And>k. k \<notin> index_of ` set ms \<Longrightarrow> t k = t' k) \<Longrightarrow>
   run_table ms t = run_table ms t'"
proof (induction ms arbitrary: t t')
  case (Cons m ms)
  have "run_table ms (t(index_of m \<mapsto> tail_of m)) = run_table ms (t'(index_of m \<mapsto> tail_of m))"
    using Cons.prems by (intro Cons.IH) auto
  then show ?case
    using Cons.prems(1) by simp
qed (simp add: fun_eq_iff)

lemma as_mutation_simps [simp]:
  "mut_record (as_mutation r) = Some r" "operation_code (as_mutation r) = 0" "operation_of (as_mutation r) = OpSet"
  by (simp_all add: as_mutation_def operation_code_def operation_of_def)

lemma decode_records_mutations: "decode_records E gk v rs = decode_mutations E gk v (map as_mutation rs)"
  by (induction rs) simp_all

lemma process_snapshot_facts:
  assumes "process_snapshot E sn s gk v name = Inr r"
  shows "decode_records E gk v (snap_records sn) = Inr (ps_mutations r)"
    "ps_mutation_macs r = map mac_of (ps_mutations r)"
    "subtract_then_add_in_place (hkdf E) WAPATCH_INTEGRITY (lthash s) [] (List.map_filter value_tail (snap_records sn))
       = (Inr (lthash (ps_state r)) :: bytes ares)"
  using assms
  by (auto simp: process_snapshot_def update_hash_from_records_def rbind_eq_Inr rmap_eq_Inr Let_def)

lemma snapshot_relates:
  assumes "list_all (\<lambda>r. rec_index r \<noteq> None) rs" "decode_records E gk v rs = Inr ds"
  shows "list_all2 decodes (map as_mutation rs) ds" "filter (\<lambda>d. m_operation d = OpSet) ds = ds"
    "filter (\<lambda>d. m_operation d = OpRemove) ds = []" "List.map_filter value_tail rs = adds (map as_mutation rs)"
proof -
  have "list_all keyed (map as_mutation rs)"
    using assms(1) by (simp add: list_all_iff keyed_def)
  then show rel: "list_all2 decodes (map as_mutation rs) ds"
    using decode_mutations_facts [of E gk v "map as_mutation rs" ds] assms(2) by (simp add: decode_records_mutations)
  then have "m_operation d = OpSet" if "d \<in> set ds" for d
    using that by (auto simp: list_all2_conv_all_nth in_set_conv_nth decodes_def)
  then show "filter (\<lambda>d. m_operation d = OpSet) ds = ds" "filter (\<lambda>d. m_operation d = OpRemove) ds = []"
    by (simp_all add: filter_empty_conv)
  have "value_tail r \<noteq> None" if "r \<in> set rs" for r
    using rel that by (auto simp: list_all2_conv_all_nth in_set_conv_nth decodes_def wf_mutation_def)
  then show "List.map_filter value_tail rs = adds (map as_mutation rs)"
    by (auto simp: map_filter_def adds_def tail_of_def comp_def intro!: map_cong filter_True)
qed

lemma apply_snapshot_consistent:
  assumes "hkdf_expands (hkdf E)" "consistent E name p" "plain_snapshot (mac_table (backend p) name) sn"
    and "apply_snapshot E b64 v name sn p = (r, p')"
  shows "consistent E name p' \<and> (\<forall>ms s. r = Inr (ms, s) \<longrightarrow> s = get_version name (backend p'))"
proof (cases "process_snapshot E sn default_state (cached_keys b64 p) v name")
  case (Inl e)
  then show ?thesis
    using assms(2,4) by (auto simp: apply_snapshot_def lift_err_def split: fail.splits)
next
  case (Inr res)
  let ?t = "mac_table (backend p) name" and ?ms = "map as_mutation (snap_records sn)"
  have idx: "list_all (\<lambda>r. rec_index r \<noteq> None) (snap_records sn)" "distinct (map rec_index (snap_records sn))"
    "Some ` dom ?t \<subseteq> rec_index ` set (snap_records sn)"
    using assms(3) by (simp_all add: plain_snapshot_def)
  have index: "rec_index r = Some (index_of (as_mutation r))" if "r \<in> set (snap_records sn)" for r
    using idx(1) that by (auto simp: list_all_iff index_of_def)
  have dist: "distinct (map index_of ?ms)"
    using idx(2) index by (auto simp: distinct_map inj_on_def)
  have dom: "dom ?t \<subseteq> index_of ` set ?ms"
  proof
    fix k assume "k \<in> dom ?t"
    then have "Some k \<in> rec_index ` set (snap_records sn)"
      using idx(3) by blast
    then obtain rc where "rc \<in> set (snap_records sn)" "rec_index rc = Some k"
      by force
    then show "k \<in> index_of ` set ?ms"
      using index by (auto intro!: image_eqI [of _ _ "as_mutation rc"])
  qed
  note facts = process_snapshot_facts [OF Inr] and rel = snapshot_relates [OF idx(1) process_snapshot_facts(1) [OF Inr]]
  have "put_rows (ps_mutation_macs res) ?t = run_table ?ms ?t"
    using rows_run_table [OF rel(1) dist, of ?t] by (simp add: rel(2,3) facts(2))
  also have "\<dots> = run_table ?ms Map.empty"
    using dom by (intro run_table_agree) (auto simp: list_all_iff)
  finally have table: "put_rows (ps_mutation_macs res) ?t = run_table ?ms Map.empty" .
  have p': "mac_table (backend p') name = run_table ?ms Map.empty" "get_version name (backend p') = ps_state res"
    and r: "r = Inr (ps_mutations res, ps_state res)"
    using assms(4) Inr table by (auto simp: apply_snapshot_def Let_def)
  have run: "finite (dom (run_table ?ms Map.empty))" "{#} + mset (adds ?ms) = macs (run_table ?ms Map.empty) + mset []"
    using macs_run [OF _ dist, of Map.empty] by (simp_all add: removes_def map_filter_def)
  have "hash_of (hkdf E) (macs (run_table ?ms Map.empty)) (lthash (ps_state res))"
    using hash_of_update [OF assms(1) hash_of_empty run(2), where 'e = appstate_error] facts(3) rel(4)
    by (auto simp: default_state_def)
  then show ?thesis
    using run(1) by (simp add: consistent_def p' r)
qed

lemma cache_kept:
  "key_cache (snd (apply_patch E b64 v name patch s p)) = key_cache p"
  "key_cache (snd (apply_snapshot E b64 v name sn p)) = key_cache p"
  by (simp_all add: apply_patch_def apply_snapshot_def Let_def split: sum.split)

lemma decode_mutations_keys:
  "decode_mutations E gk v ms = Inr ds \<Longrightarrow> m \<in> set ms \<Longrightarrow> mut_record m = Some r \<Longrightarrow> rec_key_id r = Some k \<Longrightarrow>
   \<exists>keys. gk k = Inr keys"
proof (induction ms arbitrary: ds)
  case (Cons m' ms)
  then show ?case
    by (cases "mut_record m'") (auto simp: rbind_eq_Inr rmap_eq_Inr)
qed simp

lemma apply_patches_keys:
  "fst (apply_patches E b64 v name patches s p) = Inr x \<Longrightarrow> patch \<in> set patches \<Longrightarrow> m \<in> set (patch_mutations patch) \<Longrightarrow>
   mut_record m = Some r \<Longrightarrow> rec_key_id r = Some k \<Longrightarrow> key_cache p (b64 k) \<noteq> None"
proof (induction patches arbitrary: s p x)
  case (Cons patch' patches)
  obtain r1 p1 where one: "apply_patch E b64 v name patch' s p = (r1, p1)"
    by fastforce
  then have cache: "key_cache p1 = key_cache p"
    using cache_kept(1) [of E b64 v name patch' s p] by simp
  obtain ms s1 where r1: "r1 = Inr (ms, s1)"
    using Cons.prems(1) one by (cases r1) auto
  obtain res where res: "process_patch E patch' s (cached_keys b64 p)
      (\<lambda>k. Inr (fetch_previous name patch' (backend p) k)) v name = Inr res"
    using one r1 by (auto simp: apply_patch_def lift_err_def split: sum.splits fail.splits)
  show ?case
  proof (cases "patch = patch'")
    case True
    then obtain keys where "cached_keys b64 p k = Inr keys"
      using decode_mutations_keys [OF process_patch_facts(2) [OF res]] Cons.prems by blast
    then show ?thesis by (auto simp: cached_keys_def)
  next
    case False
    obtain y where "fst (apply_patches E b64 v name patches s1 p1) = Inr y"
      using Cons.prems(1) one r1 by (auto split: sum.splits prod.splits)
    then show ?thesis
      using Cons.IH [of s1 p1 y] Cons.prems False cache by simp
  qed
qed simp

lemma check_fold:
  "set (fold (check_key_id \<circ> f) xs ks) = set ks \<union> {k. \<exists>x \<in> set xs. f x = Some k}"
  "distinct ks \<Longrightarrow> distinct (fold (check_key_id \<circ> f) xs ks)"
  by (induction xs arbitrary: ks) (auto simp: check_key_id_def split: option.splits)

lemma prefetch_only_collected:
  assumes "inj b64" "k \<notin> set (collect_key_ids_from_patch_list (pl_snapshot pl) (pl_patches pl))"
  shows "key_cache (prefetch_keys E b64 pl p) (b64 k) = key_cache p (b64 k)"
proof -
  have step: "key_cache (snd (get_app_state_key E b64 k' p)) (b64 k) = key_cache p (b64 k)" if "k' \<noteq> k" for k' p
    using that injD [OF assms(1), of k' k]
    by (auto simp: get_app_state_key_def split: option.split sum.split)
  have "k \<notin> set ks \<Longrightarrow> key_cache (fold (\<lambda>k p. snd (get_app_state_key E b64 k p)) ks p) (b64 k) = key_cache p (b64 k)" for ks
    by (induction ks arbitrary: p) (auto simp: step)
  with assms(2) show ?thesis by (simp add: prefetch_keys_def)
qed

section \<open>Properties\<close>

text \<open>An instance of the parameters, with a derivation that gives zeros, and messages for it.\<close>

definition toy_env :: "unit appstate_env" where
  "toy_env = \<lparr>hkdf = \<lambda>_ _ _ n. Some (replicate n 0), hmac_sha256 = \<lambda>_ _. replicate 32 0,
     hmac_sha512 = \<lambda>_ _. replicate 64 0, cbc_decrypt = \<lambda>_ _ _. Some [],
     decode_action = \<lambda>_. Some (None, None), parse_index = \<lambda>_. None\<rparr>"

definition toy_keys :: app_keys where
  "toy_keys = \<lparr>index_key = [], value_encryption_key = [], value_mac_key = [], snapshot_mac_key = [], patch_mac_key = []\<rparr>"

definition toy_record :: syncd_record where
  "toy_record = \<lparr>rec_index = Some [9], rec_value = Some (replicate 48 0), rec_key_id = Some [1]\<rparr>"

definition toy_set :: syncd_mutation where
  "toy_set = \<lparr>mut_operation = Some 0, mut_record = Some toy_record\<rparr>"

definition toy_remove :: syncd_mutation where
  "toy_remove = \<lparr>mut_operation = Some 1, mut_record = Some toy_record\<rparr>"

definition toy_patch :: "syncd_mutation list \<Rightarrow> syncd_patch" where
  "toy_patch ms = \<lparr>patch_version = Some 1, patch_mutations = ms, patch_snapshot_mac = Some (replicate 32 0),
     patch_patch_mac = None, patch_key_id = Some [1]\<rparr>"

definition toy_list :: "syncd_patch list \<Rightarrow> syncd_snapshot option \<Rightarrow> unit patch_list" where
  "toy_list ps sn = \<lparr>pl_name = Regular, has_more_patches = False, pl_patches = ps, pl_snapshot = sn, snapshot_ref = None\<rparr>"

definition toy_processor :: "(bytes \<rightharpoonup> bytes) \<Rightarrow> app_processor" where
  "toy_processor t = \<lparr>backend = \<lparr>sync_keys = [[1] \<mapsto> [], [2] \<mapsto> []], versions = Map.empty, mac_table = \<lambda>_. t\<rparr>,
     key_cache = [''k'' \<mapsto> toy_keys]\<rparr>"

lemma toy_hkdf: "hkdf_expands (hkdf toy_env)"
  by (simp add: hkdf_expands_def toy_env_def)

lemma toy_consistent: "consistent toy_env name (toy_processor Map.empty)"
  by (simp add: consistent_def toy_processor_def get_version_def default_state_def hash_of_empty)

lemma toy_decodes:
  "decode_record toy_env op toy_record toy_keys k False
   = Inr \<lparr>action_value = None, m_index_mac = [9], m_value_mac = replicate 32 0, m_index = [], m_operation = op\<rparr>"
  by (simp add: decode_record_def toy_record_def toy_env_def)




lemma toy_checked:
  "\<exists>r. process_patch toy_env (toy_patch []) (default_state\<lparr>version := 1\<rparr>) (\<lambda>_. Inr toy_keys) (\<lambda>_. Inr None) True ''regular'' = Inr r"
  by (simp add: process_patch_def update_hash_def toy_patch_def subtract_then_add_in_place_def validate_patch_macs_def
      generate_snapshot_mac_def toy_env_def)


text \<open>Against the initial state, with version 0 and the hash of no entries, the codes of a
  patch are not checked even with validation on: the result is the same whatever the patch code and
  the snapshot code are.\<close>

theorem initial_state_unchecked:
  assumes "version s = 0" "lthash s = replicate 128 0"
  shows "process_patch E (patch\<lparr>patch_patch_mac := any, patch_snapshot_mac := any'\<rparr>) s gk gp True name
    = process_patch E patch s gk gp True name"
  using assms by (simp add: process_patch_def validate_patch_macs_def [of _ _ _ _ _ True] cong: option.case_cong)

text \<open>Hashing the records of a snapshot directly is hashing them as SET mutations with no
  previous values.\<close>

theorem snapshot_hash_agrees:
  "update_hash_from_records E rs s
   = snd (update_hash E (\<lambda>_ _. Inr None) (map (\<lambda>r. \<lparr>mut_operation = Some 0, mut_record = Some r\<rparr>) rs) s)"
proof -
  have "collect_changes (\<lambda>_ _. Inr None) i (map as_mutation rs) a [] w
      = (w, Inr (a @ List.map_filter value_tail rs, []))" for i a w
    by (induction rs arbitrary: i a) (auto simp: map_filter_simps Let_def split: option.split)
  then show ?thesis
    by (simp add: update_hash_def update_hash_from_records_def as_mutation_def [abs_def])
qed

text \<open>C35: When a patch sets an index that is not stored and then removes it, the hash ends
  as it was, but the store keeps the value code of the index: rows are deleted before rows are
  written, whatever their order in the patch. The stored hash is then that of the table without the
  row.\<close>

theorem set_then_remove_keeps_code:
  assumes "hkdf_expands (hkdf E)" "consistent E name p"
    and "patch_mutations patch = [m, m']" "keyed m" "keyed m'" "index_of m' = index_of m"
    and "operation_code m = 0" "operation_code m' = 1" "mac_table (backend p) name (index_of m) = None"
    and "apply_patch E b64 v name patch (get_version name (backend p)) p = (Inr (ds, s), p')"
  shows "mac_table (backend p') name = (mac_table (backend p) name)(index_of m \<mapsto> tail_of m)
    \<and> lthash (get_version name (backend p')) = lthash (get_version name (backend p))"
proof -
  let ?t = "mac_table (backend p) name" and ?h = "lthash (get_version name (backend p))"
  have keyed: "list_all keyed (patch_mutations patch)"
    using assms(3-5) by simp
  obtain res where res: "process_patch E patch (get_version name (backend p)) (cached_keys b64 p)
      (\<lambda>k. Inr (fetch_previous name patch (backend p) k)) v name = Inr res" "s = pr_state res"
    using assms(10) by (auto simp: apply_patch_def lift_err_def Let_def split: sum.splits fail.splits)
  note facts = process_patch_facts [OF res(1)]
  obtain d d' where d: "pr_mutations res = [d, d']" "decodes m d" "decodes m' d'"
    using decode_mutations_facts [OF facts(2) keyed] assms(3) by (auto simp: list_all2_Cons1)
  have p': "mac_table (backend p') name = put_rows (pr_added_macs res) (delete_rows (pr_removed_index_macs res) ?t)"
    "get_version name (backend p') = pr_state res"
    using assms(10) res by (auto simp: apply_patch_def Let_def)
  obtain rc rc' where rc: "mut_record m = Some rc" "mut_record m' = Some rc'" "rec_index rc = Some (index_of m)"
      "rec_index rc' = Some (index_of m)" "value_tail rc = Some (tail_of m)"
    using d(2,3) assms(4-6) by (auto simp: decodes_def wf_mutation_def index_of_def tail_of_def)
  have "fetch_previous name patch (backend p) (index_of m) = None"
    using fetch_previous_eq [OF keyed, of "index_of m"] assms(3,9) by simp
  then have "collect_changes (prev_value_mac (patch_mutations patch) (\<lambda>k. Inr (fetch_previous name patch (backend p) k))) 0
      (patch_mutations patch) [] [] [] = ([], Inr ([tail_of m], [tail_of m]))"
    by (simp add: assms(3,7,8) rc prev_value_mac_def map_filter_simps Let_def)
  moreover obtain h where h: "subtract_then_add_in_place (hkdf E) WAPATCH_INTEGRITY ?h [tail_of m] [tail_of m]
      = (Inr h :: bytes ares)" "hash_of (hkdf E) (macs ?t) h"
    using hash_of_update [OF assms(1), of "macs ?t" ?h "[tail_of m]" "macs ?t" "[tail_of m]"] assms(2)
    by (auto simp: consistent_def)
  ultimately have "lthash (pr_state res) = h"
    using facts(1) [symmetric] by (simp add: update_hash_def)
  moreover have "h = ?h"
    using hash_of_unique [OF h(2)] assms(2) by (simp add: consistent_def)
  ultimately show ?thesis
    using d assms(6-9) by (auto simp: p' facts(3,4) decodes_def mac_of_def fun_upd_idem)
qed

lemma toy_applies:
  "\<exists>ds s p'. apply_patch toy_env (\<lambda>_. ''k'') False ''regular'' (toy_patch [toy_set, toy_remove])
     (get_version ''regular'' (backend (toy_processor Map.empty))) (toy_processor Map.empty) = (Inr (ds, s), p')"
proof -
  obtain h where "subtract_then_add_in_place (hkdf toy_env) WAPATCH_INTEGRITY (replicate 128 0) [replicate 32 0] [replicate 32 0]
      = (Inr h :: bytes ares)"
    using subtract_then_add_lanes [OF toy_hkdf, of "replicate 128 0" "[replicate 32 0]" "[replicate 32 0]"] by auto
  moreover have "value_tail toy_record = Some (replicate 32 0)" "rec_index toy_record = Some [9]" "rec_key_id toy_record = Some [1]"
    by (simp_all add: value_tail_def toy_record_def last32_def)
  ultimately show ?thesis
    by (simp add: apply_patch_def process_patch_def update_hash_def toy_patch_def toy_set_def toy_remove_def operation_code_def
        operation_of_def prev_value_mac_def fetch_previous_def get_mutation_mac_def toy_processor_def get_version_def
        default_state_def cached_keys_def toy_decodes map_filter_simps Let_def)
qed

theorem set_then_remove_keeps_code_witness:
  "mac_table (backend (snd (apply_patch toy_env (\<lambda>_. ''k'') False ''regular'' (toy_patch [toy_set, toy_remove])
      (get_version ''regular'' (backend (toy_processor Map.empty))) (toy_processor Map.empty)))) ''regular'' [9]
    = Some (replicate 32 0)"
proof -
  obtain ds s p' where "apply_patch toy_env (\<lambda>_. ''k'') False ''regular'' (toy_patch [toy_set, toy_remove])
     (get_version ''regular'' (backend (toy_processor Map.empty))) (toy_processor Map.empty) = (Inr (ds, s), p')"
    using toy_applies by blast
  with set_then_remove_keeps_code [OF toy_hkdf toy_consistent _ _ _ _ _ _ _ this, of toy_set toy_remove]
  show ?thesis
    by (simp add: toy_patch_def toy_set_def toy_remove_def toy_record_def keyed_def index_of_def tail_of_def operation_code_def
        toy_processor_def value_tail_def last32_def)
qed

lemma put_rows_other: "k \<notin> mm_index_mac ` set ms \<Longrightarrow> put_rows ms t k = t k"
  by (induction ms arbitrary: t) auto

text \<open>After a snapshot the stored hash is the hash of the values of its records alone, but
  a value code stored earlier under an index that the snapshot does not have is still stored: a
  later change to that index subtracts a value the hash does not contain.\<close>

theorem snapshot_keeps_old_codes:
  assumes "hkdf_expands (hkdf E)" "list_all (\<lambda>r. rec_index r \<noteq> None) (snap_records sn)"
    and "Some k \<notin> rec_index ` set (snap_records sn)"
    and "apply_snapshot E b64 v name sn p = (Inr (ds, s), p')"
  shows "mac_table (backend p') name k = mac_table (backend p) name k
    \<and> hash_of (hkdf E) (mset (List.map_filter value_tail (snap_records sn))) (lthash (get_version name (backend p')))"
proof -
  obtain res where res: "process_snapshot E sn default_state (cached_keys b64 p) v name = Inr res"
    using assms(4) by (auto simp: apply_snapshot_def lift_err_def split: sum.splits fail.splits)
  note facts = process_snapshot_facts [OF res] and rel = snapshot_relates [OF assms(2) process_snapshot_facts(1) [OF res]]
  have "m_index_mac ` set (ps_mutations res) = (index_of \<circ> as_mutation) ` set (snap_records sn)"
    using decodes_indices [OF rel(1)] by (simp add: image_comp)
  moreover have "k \<notin> (index_of \<circ> as_mutation) ` set (snap_records sn)"
    using assms(2,3) by (force simp: list_all_iff index_of_def image_iff)
  ultimately have "k \<notin> mm_index_mac ` set (ps_mutation_macs res)"
    by (simp add: facts(2) image_image mac_of_def)
  moreover have p': "mac_table (backend p') name = put_rows (ps_mutation_macs res) (mac_table (backend p) name)"
    "get_version name (backend p') = ps_state res"
    using assms(4) res by (auto simp: apply_snapshot_def Let_def)
  moreover have "hash_of (hkdf E) (mset (List.map_filter value_tail (snap_records sn))) (lthash (ps_state res))"
    using hash_of_update [OF assms(1) hash_of_empty, of "List.map_filter value_tail (snap_records sn)" _ "[]", where 'e = appstate_error]
      facts(3) by (auto simp: default_state_def)
  ultimately show ?thesis
    by (simp add: put_rows_other)
qed

text \<open>A list of patches fails when a mutation names a key that no patch and no
  snapshot record of the list names and that is not cached yet, even when the key is stored: only
  the identifiers of patches, snapshots and snapshot records are fetched beforehand.\<close>

theorem record_keys_not_fetched:
  assumes "inj b64" "patch \<in> set (pl_patches pl)" "m \<in> set (patch_mutations patch)"
    and "mut_record m = Some r" "rec_key_id r = Some k"
    and "k \<notin> set (collect_key_ids_from_patch_list (pl_snapshot pl) (pl_patches pl))" "key_cache p (b64 k) = None"
  shows "fst (process_patch_list E b64 v pl p) \<noteq> Inr x"
proof
  assume "fst (process_patch_list E b64 v pl p) = Inr x"
  then obtain s p1 y where ok: "fst (apply_patches E b64 v (patch_name_str (pl_name pl)) (pl_patches pl) s p1) = Inr y"
    and p1: "key_cache p1 = key_cache (prefetch_keys E b64 pl p)"
    using cache_kept(2) [of E b64 v "patch_name_str (pl_name pl)" "the (pl_snapshot pl)" "prefetch_keys E b64 pl p"]
    by (auto simp: process_patch_list_def Let_def split: option.splits sum.splits prod.splits) (metis fst_conv)+
  show False
    using apply_patches_keys [OF ok assms(2-5)] p1 prefetch_only_collected [OF assms(1,6), of E p] assms(7) by simp
qed

text \<open>The collected key identifiers are those of the snapshot, of its records and of the
  patches, each once.\<close>

theorem collected_key_ids:
  "distinct (collect_key_ids_from_patch_list snapshot patches)
   \<and> set (collect_key_ids_from_patch_list snapshot patches)
     = {k. \<exists>s. snapshot = Some s \<and> (snap_key_id s = Some k \<or> (\<exists>r. r \<in> set (snap_records s) \<and> rec_key_id r = Some k))}
       \<union> {k. \<exists>q. q \<in> set patches \<and> patch_key_id q = Some k}"
  by (cases snapshot)
     (auto simp: collect_key_ids_from_patch_list_def check_fold check_key_id_def Let_def split: option.splits)



text \<open>Every collection name is read back from its text.\<close>

theorem patch_names: "patch_name_of (patch_name_str n) = n"
  by (cases n) (simp_all add: patch_name_of_def patch_name_str_def)

end
