(* ===== verification/Curve.thy ===== *)
theory Curve
  imports Prelude
begin

text \<open>
  Keys, agreements and signatures on Curve25519 (\<^verbatim>\<open>core/curve.rs\<close>, \<^verbatim>\<open>core/curve/curve25519.rs\<close> and
  \<^verbatim>\<open>core/curve/utils.rs\<close> of \<^verbatim>\<open>warp_core/libsignal/src\<close>). The arithmetic of scalars and points, the
  Diffie-Hellman function and the hash belong to other packages and are the parameter record \<open>curve\<close>; random
  bytes are arguments. A key of the model may have any length, a key of the program has 32 bytes:
  \<open>public_ok\<close> and \<open>private_ok\<close> say so.
\<close>

unbundle bit_operations_syntax

section \<open>Comparison in constant time\<close>

definition expand_top_bit :: "byte \<Rightarrow> byte" where
  "expand_top_bit a = 0 - drop_bit 7 a"

definition ct_is_zero :: "byte \<Rightarrow> byte" where
  "ct_is_zero a = expand_top_bit (NOT a AND (a - 1))"

definition ct_is_eq :: "byte \<Rightarrow> byte \<Rightarrow> byte" where
  "ct_is_eq a b = ct_is_zero (a XOR b)"

definition ct_is_lt :: "byte \<Rightarrow> byte \<Rightarrow> byte" where
  "ct_is_lt a b = expand_top_bit (a XOR ((a XOR b) OR ((a - b) XOR a)))"

definition ct_select :: "byte \<Rightarrow> byte \<Rightarrow> byte \<Rightarrow> byte" where
  "ct_select msk a b = b XOR (msk AND (a XOR b))"

datatype ordering = Less | Equal | Greater

definition constant_time_cmp :: "bytes \<Rightarrow> bytes \<Rightarrow> ordering" where
  "constant_time_cmp x y =
     (if length x < length y then Less
      else if length x > length y then Greater
      else
        let r = foldl (\<lambda>r (a, b). ct_select (ct_is_eq a b) r (ct_select (ct_is_lt a b) 1 255)) 0 (zip (rev x) (rev y))
        in if r = 0 then Equal else if r = 1 then Less else Greater)"

section \<open>Primitives\<close>

record ('sc, 'pt) curve =
  clamp_integer :: "bytes \<Rightarrow> bytes"
  diffie_hellman :: "bytes \<Rightarrow> bytes \<Rightarrow> bytes"
  secret_public :: "bytes \<Rightarrow> bytes"
  from_bytes_mod_order :: "bytes \<Rightarrow> 'sc"
  sha512_scalar :: "bytes \<Rightarrow> 'sc"
  scalar_bytes :: "'sc \<Rightarrow> bytes"
  scalar_add :: "'sc \<Rightarrow> 'sc \<Rightarrow> 'sc"
  scalar_mul :: "'sc \<Rightarrow> 'sc \<Rightarrow> 'sc"
  mul_base :: "'sc \<Rightarrow> 'pt"
  compress :: "'pt \<Rightarrow> bytes"
  to_edwards :: "bytes \<Rightarrow> byte \<Rightarrow> 'pt option"
  point_neg :: "'pt \<Rightarrow> 'pt"
  double_scalar_mul :: "'sc \<Rightarrow> 'pt \<Rightarrow> 'sc \<Rightarrow> 'pt"

text \<open>\<open>sha512_scalar\<close> is \<^verbatim>\<open>Scalar::from_hash\<close> of the SHA-512 of its argument, \<open>secret_public\<close> the public key of a
  \<^verbatim>\<open>StaticSecret\<close>, \<open>double_scalar_mul h p s\<close> is \<open>h p + s B\<close> for the base point \<open>B\<close>.\<close>

section \<open>Signatures\<close>

definition secret_from :: "('sc, 'pt) curve \<Rightarrow> bytes \<Rightarrow> bytes" where
  "secret_from K private_key = clamp_integer K private_key"

definition xed_sign :: "('sc, 'pt) curve \<Rightarrow> bytes \<Rightarrow> bytes \<Rightarrow> bytes list \<Rightarrow> bytes" where
  "xed_sign K key_data random_bytes message =
     (let a = from_bytes_mod_order K key_data;
          ed_public_key = compress K (mul_base K a);
          sign_bit = ed_public_key ! 31 AND 128;
          hash_prefix = 254 # replicate 31 255;
          r = sha512_scalar K (hash_prefix @ key_data @ concat message @ random_bytes);
          cap_r = compress K (mul_base K r);
          h = sha512_scalar K (cap_r @ ed_public_key @ concat message);
          s = scalar_add K (scalar_mul K h a) r;
          result = cap_r @ scalar_bytes K s;
          result = result[63 := (result ! 63) AND 127]
      in result[63 := (result ! 63) OR sign_bit])"

definition xed_verify :: "('sc, 'pt) curve \<Rightarrow> bytes \<Rightarrow> bytes list \<Rightarrow> bytes \<Rightarrow> bool" where
  "xed_verify K their_public_key message signature =
     (case to_edwards K their_public_key (drop_bit 7 ((signature ! 63) AND 128)) of
        None \<Rightarrow> False
      | Some ed_pub_key_point \<Rightarrow>
          let cap_a = compress K ed_pub_key_point;
              cap_r = take 32 signature;
              s = drop 32 signature;
              s = s[31 := (s ! 31) AND 127]
          in if (s ! 31) AND 224 \<noteq> 0 then False
             else
               let minus_cap_a = point_neg K ed_pub_key_point;
                   h = sha512_scalar K (cap_r @ cap_a @ concat message)
               in compress K (double_scalar_mul K h minus_cap_a (from_bytes_mod_order K s)) = cap_r)"

section \<open>Keys\<close>

datatype key_type = Djb

fun key_type_value :: "key_type \<Rightarrow> byte" where
  "key_type_value Djb = 5"

datatype curve_error =
    NoKeyTypeIdentifier
  | BadKeyType byte
  | BadKeyLength key_type nat

definition key_type_try_from :: "byte \<Rightarrow> (key_type, curve_error) result" where
  "key_type_try_from x = (if x = 5 then Inr Djb else Throw (BadKeyType x))"

datatype public_key = DjbPublicKey bytes

fun public_key_type :: "public_key \<Rightarrow> key_type" where
  "public_key_type (DjbPublicKey _) = Djb"

fun public_key_bytes :: "public_key \<Rightarrow> bytes" where
  "public_key_bytes (DjbPublicKey v) = v"

definition public_deserialize :: "bytes \<Rightarrow> (public_key, curve_error) result" where
  "public_deserialize v =
     (if v = [] then Throw NoKeyTypeIdentifier
      else
        rbind (key_type_try_from (v ! 0)) (\<lambda>key_type.
          case key_type of
            Djb \<Rightarrow>
              if length v < 32 + 1 then Throw (BadKeyLength Djb (length v))
              else Inr (DjbPublicKey (take 32 (drop 1 v)))))"

definition from_djb_public_key_bytes :: "bytes \<Rightarrow> (public_key, curve_error) result" where
  "from_djb_public_key_bytes bs = (if length bs \<noteq> 32 then Throw (BadKeyLength Djb (length bs)) else Inr (DjbPublicKey bs))"

fun public_serialize :: "public_key \<Rightarrow> bytes" where
  "public_serialize (DjbPublicKey v) = key_type_value Djb # v"

definition public_verify :: "('sc, 'pt) curve \<Rightarrow> public_key \<Rightarrow> bytes list \<Rightarrow> bytes \<Rightarrow> bool" where
  "public_verify K p message signature =
     (if length signature \<noteq> 64 then False else xed_verify K (public_key_bytes p) message signature)"

definition public_cmp :: "public_key \<Rightarrow> public_key \<Rightarrow> ordering" where
  "public_cmp p q = constant_time_cmp (public_key_bytes p) (public_key_bytes q)"

datatype private_key = DjbPrivateKey bytes

definition private_deserialize :: "('sc, 'pt) curve \<Rightarrow> bytes \<Rightarrow> (private_key, curve_error) result" where
  "private_deserialize K v =
     (if length v \<noteq> 32 then Throw (BadKeyLength Djb (length v)) else Inr (DjbPrivateKey (clamp_integer K v)))"

fun private_serialize :: "private_key \<Rightarrow> bytes" where
  "private_serialize (DjbPrivateKey v) = v"

fun private_public_key :: "('sc, 'pt) curve \<Rightarrow> private_key \<Rightarrow> public_key" where
  "private_public_key K (DjbPrivateKey k) = DjbPublicKey (secret_public K (secret_from K k))"

fun private_sign :: "('sc, 'pt) curve \<Rightarrow> private_key \<Rightarrow> bytes list \<Rightarrow> bytes \<Rightarrow> bytes" where
  "private_sign K (DjbPrivateKey k) message random_bytes = xed_sign K (secret_from K k) random_bytes message"

fun calculate_agreement :: "('sc, 'pt) curve \<Rightarrow> private_key \<Rightarrow> public_key \<Rightarrow> bytes" where
  "calculate_agreement K (DjbPrivateKey a) (DjbPublicKey b) = diffie_hellman K (secret_from K a) b"

record key_pair =
  kp_public :: public_key
  kp_private :: private_key

definition key_pair_generate :: "('sc, 'pt) curve \<Rightarrow> bytes \<Rightarrow> key_pair" where
  "key_pair_generate K random_bytes =
     (let private_key = clamp_integer K random_bytes
      in \<lparr>kp_public = DjbPublicKey (secret_public K private_key), kp_private = DjbPrivateKey private_key\<rparr>)"

definition key_pair_from :: "('sc, 'pt) curve \<Rightarrow> bytes \<Rightarrow> bytes \<Rightarrow> (key_pair, curve_error) result" where
  "key_pair_from K pub priv =
     rbind (public_deserialize pub) (\<lambda>p.
     rbind (private_deserialize K priv) (\<lambda>s. Inr \<lparr>kp_public = p, kp_private = s\<rparr>))"

section \<open>The order of public keys\<close>

lemma top_bit: "drop_bit 7 (a :: byte) = (if 128 \<le> a then 1 else 0)"
proof -
  have "unat (drop_bit 7 a) = unat a div 128"
    by (simp add: drop_bit_eq_div unat_div)
  also have "\<dots> = (if 128 \<le> unat a then 1 else 0)"
    using unat_byte_lt [of a] by (cases "128 \<le> unat a") (simp_all add: div_nat_eqI)
  finally show ?thesis
    by (auto simp: word_le_nat_alt word_unat_eq_iff)
qed

lemma bit_top: "bit (a :: byte) 7 \<longleftrightarrow> 128 \<le> a"
proof -
  have "bit a 7 \<longleftrightarrow> drop_bit 7 a \<noteq> 0"
  proof -
    have "bit a 7 \<longleftrightarrow> odd (drop_bit 7 a)" by (rule bit_iff_odd_drop_bit)
    then show ?thesis by (simp add: top_bit)
  qed
  then show ?thesis by (simp add: top_bit)
qed

lemma expand_top_bit_bit: "expand_top_bit a = (if bit a 7 then 255 else 0)"
  by (simp add: expand_top_bit_def top_bit bit_top)

lemma ct_is_zero: "ct_is_zero a = (if a = 0 then 255 else 0)"
proof -
  have "bit (NOT a AND (a - 1)) 7 \<longleftrightarrow> \<not> 128 \<le> a \<and> 128 \<le> a - 1"
    by (simp add: bit_and_iff bit_not_iff flip: bit_top)
  also have "\<dots> \<longleftrightarrow> a = 0"
  proof (cases "a = 0")
    case False
    then have "unat (a - 1) = unat a - 1" by (simp add: unat_minus_one)
    then show ?thesis using False by (auto simp: word_le_nat_alt)
  qed (simp add: bit_top [symmetric])
  finally show ?thesis by (simp add: ct_is_zero_def expand_top_bit_bit)
qed

lemma ct_is_eq: "ct_is_eq a b = (if a = b then 255 else 0)"
proof -
  have "a XOR b = 0 \<longleftrightarrow> a = b"
    by (auto simp: bit_eq_iff bit_xor_iff)
  then show ?thesis by (simp add: ct_is_eq_def ct_is_zero)
qed

lemma ct_is_lt: "ct_is_lt a b = (if a < b then 255 else 0)"
proof -
  let ?x = "a XOR ((a XOR b) OR ((a - b) XOR a))"
  have "bit ?x 7 \<longleftrightarrow> (if bit a 7 = bit b 7 then bit (a - b) 7 else \<not> bit a 7)"
    by (auto simp: bit_xor_iff bit_or_iff)
  also have "\<dots> \<longleftrightarrow> a < b"
  proof -
    have "(if (128 \<le> m) = (128 \<le> n) then 128 \<le> (if n \<le> m then m - n else m + 256 - n) else \<not> 128 \<le> m) \<longleftrightarrow> m < n"
      if "m < 256" "n < 256" for m n :: nat
      using that by presburger
    moreover have "bit (a - b) 7 \<longleftrightarrow> 128 \<le> (if unat b \<le> unat a then unat a - unat b else unat a + 256 - unat b)"
      by (simp add: bit_top word_le_nat_alt unat_sub_if')
    moreover have "bit x 7 \<longleftrightarrow> 128 \<le> unat x" for x :: byte
      by (simp add: bit_top word_le_nat_alt)
    ultimately show ?thesis
      using unat_byte_lt [of a] unat_byte_lt [of b] by (simp only: word_less_nat_alt)
  qed
  finally show ?thesis by (simp add: ct_is_lt_def expand_top_bit_bit)
qed

lemma ct_select: "ct_select 255 a b = a" "ct_select 0 a b = b"
proof -
  have "(255 :: byte) = -1" by simp
  then show "ct_select 255 a b = a"
    unfolding ct_select_def by (simp only: and.left_neutral) (rule bit_word_eqI, auto simp: bit_xor_iff)
qed (simp add: ct_select_def)

fun lex_cmp :: "bytes \<Rightarrow> bytes \<Rightarrow> ordering" where
  "lex_cmp (a # x) (b # y) = (if a = b then lex_cmp x y else if a < b then Less else Greater)"
| "lex_cmp [] [] = Equal"
| "lex_cmp [] (_ # _) = Less"
| "lex_cmp (_ # _) [] = Greater"

lemma constant_time_cmp_lex:
  "length x = length y \<Longrightarrow> constant_time_cmp x y = lex_cmp x y"
proof -
  let ?f = "\<lambda>r (a, b). ct_select (ct_is_eq a b) r (ct_select (ct_is_lt a b) 1 255)"
  assume len: "length x = length y"
  have "foldr (\<lambda>p r. ?f r p) (zip x y) 0 = (case lex_cmp x y of Equal \<Rightarrow> 0 | Less \<Rightarrow> 1 | Greater \<Rightarrow> 255)"
    using len by (induction x y rule: list_induct2) (auto simp: ct_is_eq ct_is_lt ct_select)
  moreover have "zip (rev x) (rev y) = rev (zip x y)"
    using len by (simp add: zip_rev)
  ultimately show ?thesis
    using len by (simp add: constant_time_cmp_def foldl_conv_foldr Let_def split: ordering.splits)
qed

lemma lex_cmp_Equal: "lex_cmp x y = Equal \<longleftrightarrow> x = y"
  by (induction x y rule: lex_cmp.induct) auto

lemma lex_cmp_flip: "lex_cmp x y = Greater \<longleftrightarrow> lex_cmp y x = Less"
  by (induction x y rule: lex_cmp.induct) auto

lemma lex_cmp_trans: "lex_cmp x y = Less \<Longrightarrow> lex_cmp y z = Less \<Longrightarrow> lex_cmp x z = Less"
proof (induction x y arbitrary: z rule: lex_cmp.induct)
  case (1 a x b y)
  then show ?case by (cases z) (auto split: if_splits dest: order.strict_trans)
next
  case (3 b y)
  then show ?case by (cases z) auto
qed auto

text \<open>The order that the comparison computes: shorter first, then by the first byte that differs.\<close>

definition cmp_spec :: "bytes \<Rightarrow> bytes \<Rightarrow> ordering" where
  "cmp_spec x y = (if length x < length y then Less else if length x > length y then Greater else lex_cmp x y)"

lemma constant_time_cmp_spec: "constant_time_cmp x y = cmp_spec x y"
  using constant_time_cmp_lex [of x y] by (auto simp: cmp_spec_def constant_time_cmp_def)

lemma cmp_spec_Equal: "cmp_spec x y = Equal \<longleftrightarrow> x = y"
  by (auto simp: cmp_spec_def lex_cmp_Equal)

lemma cmp_spec_flip: "cmp_spec x y = Greater \<longleftrightarrow> cmp_spec y x = Less"
  by (auto simp: cmp_spec_def lex_cmp_flip)

lemma cmp_spec_trans: "cmp_spec x y = Less \<Longrightarrow> cmp_spec y z = Less \<Longrightarrow> cmp_spec x z = Less"
  by (auto simp: cmp_spec_def split: if_splits intro: lex_cmp_trans)

lemma cmp_spec_asym: "cmp_spec x y = Less \<Longrightarrow> cmp_spec y x \<noteq> Less"
  by (metis cmp_spec_flip ordering.distinct(3))

instantiation public_key :: linorder
begin

definition less_eq_public_key :: "public_key \<Rightarrow> public_key \<Rightarrow> bool" where
  "less_eq_public_key p q \<longleftrightarrow> public_cmp p q \<noteq> Greater"

definition less_public_key :: "public_key \<Rightarrow> public_key \<Rightarrow> bool" where
  "less_public_key p q \<longleftrightarrow> public_cmp p q = Less"

instance
proof
  fix p q r :: public_key
  have eq: "p = q \<longleftrightarrow> public_key_bytes p = public_key_bytes q" for p q
    by (cases p; cases q) simp
  have le: "p \<le> q \<longleftrightarrow> p = q \<or> p < q" for p q :: public_key
    using cmp_spec_Equal [of "public_key_bytes p" "public_key_bytes q"]
    by (cases "public_cmp p q")
       (simp_all add: less_eq_public_key_def less_public_key_def public_cmp_def constant_time_cmp_spec eq)
  have lt: "p < q \<longleftrightarrow> cmp_spec (public_key_bytes p) (public_key_bytes q) = Less" for p q
    by (simp add: less_public_key_def public_cmp_def constant_time_cmp_spec)
  show "p < q \<longleftrightarrow> p \<le> q \<and> \<not> q \<le> p"
    using cmp_spec_asym [of "public_key_bytes p" "public_key_bytes q"] by (auto simp: le lt eq)
  show "p \<le> p" by (simp add: le)
  show "p \<le> q \<Longrightarrow> q \<le> r \<Longrightarrow> p \<le> r"
    using cmp_spec_trans by (auto simp: le lt)
  show "p \<le> q \<Longrightarrow> q \<le> p \<Longrightarrow> p = q"
    using cmp_spec_asym by (auto simp: le lt)
  show "p \<le> q \<or> q \<le> p"
    using cmp_spec_Equal [of "public_key_bytes p" "public_key_bytes q"] cmp_spec_flip [of "public_key_bytes p" "public_key_bytes q"]
    by (cases "cmp_spec (public_key_bytes p) (public_key_bytes q)") (auto simp: le lt eq)
qed

end

section \<open>Laws of the primitives\<close>

definition curve_laws :: "('sc, 'pt) curve \<Rightarrow> bool" where
  \<comment> \<open>clamping fixes bits; keys and agreements have 32 bytes; the Diffie-Hellman function commutes\<close>
  "curve_laws K \<longleftrightarrow>
     (\<forall>k. length k = 32 \<longrightarrow> length (clamp_integer K k) = 32 \<and> clamp_integer K (clamp_integer K k) = clamp_integer K k)
   \<and> (\<forall>k. length (secret_public K k) = 32)
   \<and> (\<forall>a b. diffie_hellman K (clamp_integer K a) (secret_public K (clamp_integer K b))
           = diffie_hellman K (clamp_integer K b) (secret_public K (clamp_integer K a)))"

definition signature_laws :: "('sc, 'pt) curve \<Rightarrow> bool" where
  \<comment> \<open>scalars are encoded reduced; the two forms of the curve correspond; scalar multiplication is linear\<close>
  "signature_laws K \<longleftrightarrow>
     (\<forall>s. length (scalar_bytes K s) = 32 \<and> (scalar_bytes K s ! 31) AND 224 = 0
          \<and> from_bytes_mod_order K (scalar_bytes K s) = s)
   \<and> (\<forall>p. length (compress K p) = 32)
   \<and> (\<forall>k. let p = mul_base K (from_bytes_mod_order K (clamp_integer K k))
          in to_edwards K (secret_public K (clamp_integer K k)) (drop_bit 7 (compress K p ! 31)) = Some p)
   \<and> (\<forall>h a r. double_scalar_mul K h (point_neg K (mul_base K a)) (scalar_add K (scalar_mul K h a) r) = mul_base K r)"

fun public_ok :: "public_key \<Rightarrow> bool" where
  "public_ok (DjbPublicKey v) \<longleftrightarrow> length v = 32"

fun private_ok :: "('sc, 'pt) curve \<Rightarrow> private_key \<Rightarrow> bool" where
  "private_ok K (DjbPrivateKey v) \<longleftrightarrow> length v = 32 \<and> clamp_integer K v = v"

definition pair_ok :: "('sc, 'pt) curve \<Rightarrow> key_pair \<Rightarrow> bool" where
  "pair_ok K kp \<longleftrightarrow> private_ok K (kp_private kp) \<and> kp_public kp = private_public_key K (kp_private kp)"

lemma public_roundtrip [simp]: "public_ok p \<Longrightarrow> public_deserialize (public_serialize p) = Inr p"
  by (cases p) (simp add: public_deserialize_def key_type_try_from_def)

lemma public_deserialize_ok: "public_deserialize v = Inr p \<Longrightarrow> public_ok p"
  by (auto simp: public_deserialize_def key_type_try_from_def split: if_splits)

lemma public_serialize_eq [simp]: "public_serialize p = public_serialize q \<longleftrightarrow> p = q"
  by (cases p; cases q) simp

lemma private_roundtrip [simp]: "private_ok K s \<Longrightarrow> private_deserialize K (private_serialize s) = Inr s"
  by (cases s) (simp add: private_deserialize_def)

lemma pair_public_ok: "curve_laws K \<Longrightarrow> pair_ok K kp \<Longrightarrow> public_ok (kp_public kp)"
  by (cases "kp_private kp") (simp add: pair_ok_def curve_laws_def)

lemma generate_ok: "curve_laws K \<Longrightarrow> length r = 32 \<Longrightarrow> pair_ok K (key_pair_generate K r)"
  by (simp add: pair_ok_def key_pair_generate_def curve_laws_def secret_from_def Let_def)

lemma agreement_commutes:
  assumes "curve_laws K" "pair_ok K x" "pair_ok K y"
  shows "calculate_agreement K (kp_private x) (kp_public y) = calculate_agreement K (kp_private y) (kp_public x)"
proof (cases "kp_private x"; cases "kp_private y")
  fix a b
  assume ab: "kp_private x = DjbPrivateKey a" "kp_private y = DjbPrivateKey b"
  then have "clamp_integer K a = a" "clamp_integer K b = b"
    using assms(2,3) by (simp_all add: pair_ok_def)
  moreover have "diffie_hellman K (clamp_integer K a) (secret_public K (clamp_integer K b))
      = diffie_hellman K (clamp_integer K b) (secret_public K (clamp_integer K a))"
    using assms(1) unfolding curve_laws_def by blast
  ultimately show ?thesis
    using assms(2,3) ab by (simp add: pair_ok_def secret_from_def)
qed

lemma bit_constants: "bit (127 :: byte) n \<longleftrightarrow> n < 7" "bit (128 :: byte) n \<longleftrightarrow> n = 7"
proof -
  have "(127 :: byte) = mask 7" "(128 :: byte) = 2 ^ 7"
    by (simp_all add: mask_eq_exp_minus_1)
  then have "bit (127 :: byte) n \<longleftrightarrow> bit (mask 7 :: byte) n" "bit (128 :: byte) n \<longleftrightarrow> bit (2 ^ 7 :: byte) n"
    by (simp_all only:)
  then show "bit (127 :: byte) n \<longleftrightarrow> n < 7" "bit (128 :: byte) n \<longleftrightarrow> n = 7"
    by (auto simp only: bit_mask_iff bit_exp_iff possible_bit_word) simp_all
qed

lemma last_byte_scalar: "(x AND 224 :: byte) = 0 \<Longrightarrow> (x AND 127 OR (y AND 128)) AND 127 = x"
proof (rule bit_word_eqI)
  fix n
  assume x: "x AND 224 = 0" and n: "n < LENGTH(8)"
  have "\<not> bit x 7"
  proof
    assume "bit x 7"
    then have "bit (x AND 224) 7" by (simp add: bit_and_iff)
    with x show False by simp
  qed
  then have "bit x n \<Longrightarrow> n < 7"
    using n by (cases "n = 7") auto
  then show "bit ((x AND 127 OR (y AND 128)) AND 127) n = bit x n"
    unfolding bit_and_iff bit_or_iff bit_constants by auto
qed

lemma last_byte_sign: "drop_bit 7 ((x AND 127 OR (y AND 128)) AND 128 :: byte) = drop_bit 7 y"
proof (rule bit_word_eqI)
  fix n
  show "bit (drop_bit 7 ((x AND 127 OR (y AND 128)) AND 128)) n = bit (drop_bit 7 y) n"
    unfolding bit_drop_bit_eq comp_def bit_and_iff bit_or_iff bit_constants
    by (auto dest: bit_imp_le_length)
qed

lemma xed_sign_verify:
  assumes "signature_laws K" "clamp_integer K k = k"
  shows "length (xed_sign K k rnd message) = 64" "xed_verify K (secret_public K k) message (xed_sign K k rnd message)"
proof -
  define a where "a = from_bytes_mod_order K k"
  define pk where "pk = compress K (mul_base K a)"
  define r where "r = sha512_scalar K (254 # replicate 31 255 @ k @ concat message @ rnd)"
  define R where "R = compress K (mul_base K r)"
  define h where "h = sha512_scalar K (R @ pk @ concat message)"
  define s where "s = scalar_add K (scalar_mul K h a) r"
  define sb where "sb = scalar_bytes K s"
  have len: "length R = 32" "length pk = 32" "length sb = 32" "sb ! 31 AND 224 = 0" "from_bytes_mod_order K sb = s"
    using assms(1) by (simp_all add: signature_laws_def R_def pk_def sb_def)
  have sig: "xed_sign K k rnd message = R @ sb[31 := (sb ! 31) AND 127 OR (pk ! 31 AND 128)]"
    using len by (simp add: xed_sign_def Let_def a_def [symmetric] pk_def [symmetric] r_def [symmetric] R_def [symmetric]
        h_def [symmetric] s_def [symmetric] sb_def [symmetric] list_update_append nth_append)
  then show "length (xed_sign K k rnd message) = 64"
    using len by simp
  have point: "to_edwards K (secret_public K k) (drop_bit 7 (pk ! 31)) = Some (mul_base K a)"
    using assms by (auto simp: signature_laws_def Let_def a_def pk_def dest: spec [of _ k])
  have check: "compress K (double_scalar_mul K h (point_neg K (mul_base K a)) s) = R"
    using assms(1) by (simp add: signature_laws_def s_def R_def)
  then show "xed_verify K (secret_public K k) message (xed_sign K k rnd message)"
  proof -
    have "(R @ sb[31 := (sb ! 31) AND 127 OR (pk ! 31 AND 128)]) ! 63 = (sb ! 31) AND 127 OR (pk ! 31 AND 128)"
      using len by (simp add: nth_append)
    then show ?thesis
      using len point check
      unfolding xed_verify_def sig by (simp only: last_byte_sign)
        (simp add: last_byte_scalar Let_def pk_def [symmetric] h_def [symmetric])
  qed
qed

lemma sign_verify:
  assumes "signature_laws K" "private_ok K s"
  shows "length (private_sign K s message rnd) = 64"
    "public_verify K (private_public_key K s) message (private_sign K s message rnd)"
  using assms(2) xed_sign_verify [OF assms(1), where k = "private_serialize s" and message = message and rnd = rnd]
  by (cases s, simp add: public_verify_def secret_from_def)+

section \<open>An instance\<close>

text \<open>Scalars and points are numbers modulo 16, and keys are added.\<close>

definition toy_pad :: "bytes \<Rightarrow> bytes" where
  "toy_pad k = take 32 (k @ replicate 32 0)"

lemma toy_pad [simp]: "length (toy_pad k) = 32" "length k = 32 \<Longrightarrow> toy_pad k = k"
  by (simp_all add: toy_pad_def)

definition toy_curve :: "(4 word, 4 word) curve" where
  "toy_curve = \<lparr>clamp_integer = \<lambda>k. k, diffie_hellman = \<lambda>a b. map2 (+) (toy_pad a) b, secret_public = toy_pad,
     from_bytes_mod_order = \<lambda>b. ucast (toy_pad b ! 31), sha512_scalar = \<lambda>b. of_nat (length b),
     scalar_bytes = \<lambda>s. replicate 31 0 @ [ucast s], scalar_add = (+), scalar_mul = (*), mul_base = \<lambda>s. s,
     compress = \<lambda>p. replicate 31 0 @ [ucast p], to_edwards = \<lambda>b _. Some (ucast (b ! 31)),
     point_neg = uminus, double_scalar_mul = \<lambda>h p s. h * p + s\<rparr>"

lemma toy_curve_laws: "curve_laws toy_curve" "signature_laws toy_curve"
proof -
  have "map2 (+) a b = map2 (+) b a" for a b :: bytes
    by (induction a b rule: list_induct2') (simp_all add: add.commute)
  then show "curve_laws toy_curve"
    by (simp add: curve_laws_def toy_curve_def)
  have top: "(ucast (s :: 4 word) :: byte) AND 224 = 0" for s
  proof (rule bit_word_eqI)
    fix n
    have "(224 :: byte) = push_bit 5 7" by simp
    then have "bit (224 :: byte) n \<Longrightarrow> 5 \<le> n" by (simp only: bit_push_bit_iff)
    moreover have "bit s n \<Longrightarrow> n < 4" by (auto dest: bit_imp_le_length)
    ultimately show "bit (ucast s AND 224 :: byte) n = bit 0 n"
      unfolding bit_and_iff bit_ucast_iff by auto
  qed
  have narrow: "ucast (ucast s :: byte) = s" for s :: "4 word"
    by (rule bit_word_eqI) (simp add: bit_ucast_iff)
  have "h * - a + (h * a + r) = r" for h a r :: "4 word"
    by simp
  then show "signature_laws toy_curve"
    by (simp add: signature_laws_def toy_curve_def top narrow nth_append Let_def)
qed

lemma toy_curve_keys:
  "clamp_integer toy_curve k = k" "secret_from toy_curve k = k" "secret_public toy_curve k = toy_pad k"
  by (simp_all add: toy_curve_def secret_from_def)

section \<open>Properties\<close>

text \<open>C36: A signature that a private key makes on a message of any number of pieces has 64 bytes and
  is accepted for the message by the key's public key, whatever randomness was used: the sign bit that signing puts into the
  last byte selects the point that was signed with.\<close>

theorem signature_verifies:
  assumes "curve_laws K" "signature_laws K" "private_ok K s"
  shows "length (private_sign K s message rnd) = 64
    \<and> public_verify K (private_public_key K s) message (private_sign K s message rnd)"
  using sign_verify [OF assms(2,3)] by blast

theorem signature_verifies_witness:
  "public_verify toy_curve (private_public_key toy_curve (DjbPrivateKey (replicate 32 9))) [[1], [2, 3]]
     (private_sign toy_curve (DjbPrivateKey (replicate 32 9)) [[1], [2, 3]] [7])"
proof -
  have "private_ok toy_curve (DjbPrivateKey (replicate 32 9))"
    by (simp add: toy_curve_keys)
  from signature_verifies [OF toy_curve_laws this] show ?thesis by blast
qed

text \<open>C37: The comparison that visits every byte without branching gives the order of the specification:
  a shorter key is less, and keys of one length are compared by their first bytes that differ.\<close>

theorem constant_time_comparison:
  "constant_time_cmp x y =
     (if length x \<noteq> length y then (if length x < length y then Less else Greater)
      else case find (\<lambda>(a, b). a \<noteq> b) (zip x y) of
             None \<Rightarrow> Equal
           | Some (a, b) \<Rightarrow> if a < b then Less else Greater)"
proof (cases "length x = length y")
  case True
  then have "lex_cmp x y = (case find (\<lambda>(a, b). a \<noteq> b) (zip x y) of None \<Rightarrow> Equal | Some (a, b) \<Rightarrow> if a < b then Less else Greater)"
    by (induction x y rule: list_induct2) auto
  with True show ?thesis by (simp add: constant_time_cmp_lex)
qed (auto simp: constant_time_cmp_def)

end
