(* ===== verification/Signal.thy ===== *)
theory Signal
  imports Curve "HOL-Library.Multiset"
begin

text \<open>
  What the Signal protocol's parts share (\<^verbatim>\<open>warp_core/libsignal/src/protocol\<close>): the errors, the limits, and the
  contract of a source of message keys, a locale that the group chains and the session chains satisfy.
  The texts that errors carry are not modelled.
\<close>

section \<open>Errors and limits\<close>

datatype ciphertext_type = Whisper | PreKey | SenderKey | Plaintext

type_synonym protocol_address = string

datatype signal_error =
    InvalidArgument
  | InvalidState
  | InvalidProtobufEncoding
  | CiphertextMessageTooShort nat
  | LegacyCiphertextVersion byte
  | UnrecognizedCiphertextVersion byte
  | UnrecognizedMessageVersion u32
  | FingerprintVersionMismatch u32 u32
  | FingerprintParsingError
  | NoKeyTypeIdentifier
  | BadKeyType byte
  | BadKeyLength key_type nat
  | SignatureValidationFailed
  | UntrustedIdentity protocol_address
  | InvalidPreKeyId
  | InvalidSignedPreKeyId
  | InvalidMacKeyLength nat
  | NoSenderKeyState
  | SessionNotFound protocol_address
  | InvalidSessionStructure
  | InvalidSenderKeySession
  | InvalidRegistrationId protocol_address u32
  | DuplicatedMessage u32 u32
  | InvalidMessage ciphertext_type
  | FfiBindingError
  | ApplicationCallbackError
  | InvalidSealedSenderMessage
  | UnknownSealedSenderVersion byte
  | SealedSenderSelfSend

type_synonym 'a sres = "('a, signal_error) result"

definition MAX_FORWARD_JUMPS :: nat where "MAX_FORWARD_JUMPS = 25000"
definition MAX_MESSAGE_KEYS :: nat where "MAX_MESSAGE_KEYS = 2000"
definition MAX_SENDER_KEY_STATES :: nat where "MAX_SENDER_KEY_STATES = 5"

definition MAX_RECEIVER_CHAINS :: nat where "MAX_RECEIVER_CHAINS = 5"
definition ARCHIVED_STATES_MAX_LENGTH :: nat where "ARCHIVED_STATES_MAX_LENGTH = 40"

fun signal_of_curve :: "curve_error \<Rightarrow> signal_error" where
  "signal_of_curve curve_error.NoKeyTypeIdentifier = NoKeyTypeIdentifier"
| "signal_of_curve (curve_error.BadKeyType raw) = BadKeyType raw"
| "signal_of_curve (curve_error.BadKeyLength key_type len) = BadKeyLength key_type len"

fun lift_curve :: "('a, curve_error) result \<Rightarrow> 'a sres" where
  \<comment> \<open>the conversion that the question mark operator does\<close>
  "lift_curve (Inr x) = Inr x"
| "lift_curve (Inl (Err e)) = Throw (signal_of_curve e)"
| "lift_curve (Inl Panic) = Inl Panic"
| "lift_curve (Inl Diverge) = Inl Diverge"

fun ok :: "('a, 'e) result \<Rightarrow> 'a option" where
  "ok (Inr x) = Some x"
| "ok (Inl _) = None"

lemma ok_eq_Some [simp]: "ok m = Some x \<longleftrightarrow> m = Inr x"
  by (cases m) auto

section \<open>The block cipher\<close>

text \<open>The padded cipher block chaining mode of another package: key, vector and text.\<close>

record cbc =
  cbc_encrypt_padded :: "bytes \<Rightarrow> bytes \<Rightarrow> bytes \<Rightarrow> bytes"
  cbc_decrypt_padded :: "bytes \<Rightarrow> bytes \<Rightarrow> bytes \<Rightarrow> bytes option"

datatype encryption_error = BadKeyOrIv | BadPadding

datatype decryption_error = BadKeyOrIv | BadCiphertext

definition aes_256_cbc_encrypt_into :: "cbc \<Rightarrow> bytes \<Rightarrow> bytes \<Rightarrow> bytes \<Rightarrow> bytes \<Rightarrow> (bytes, encryption_error) result" where
  \<comment> \<open>the buffer is sized for the padded text, so that padding does not fail\<close>
  "aes_256_cbc_encrypt_into A ptext key iv output =
     (if length key \<noteq> 32 \<or> length iv \<noteq> 16 then Throw encryption_error.BadKeyOrIv
      else Inr (output @ cbc_encrypt_padded A key iv ptext))"

definition aes_256_cbc_decrypt_into :: "cbc \<Rightarrow> bytes \<Rightarrow> bytes \<Rightarrow> bytes \<Rightarrow> (bytes, decryption_error) result" where
  "aes_256_cbc_decrypt_into A ctext key iv =
     (if ctext = [] \<or> length ctext mod 16 \<noteq> 0 then Throw BadCiphertext
      else if length key \<noteq> 32 \<or> length iv \<noteq> 16 then Throw decryption_error.BadKeyOrIv
      else ok_or (cbc_decrypt_padded A key iv ctext) BadCiphertext)"

definition cbc_laws :: "cbc \<Rightarrow> bool" where
  \<comment> \<open>padding fills up to the next multiple of 16, and decryption undoes encryption\<close>
  "cbc_laws A \<longleftrightarrow> (\<forall>k iv p. length (cbc_encrypt_padded A k iv p) = length p + (16 - length p mod 16)
     \<and> cbc_decrypt_padded A k iv (cbc_encrypt_padded A k iv p) = Some p)"

lemma cbc_roundtrip:
  assumes "cbc_laws A" "aes_256_cbc_encrypt_into A p k iv [] = Inr c"
  shows "aes_256_cbc_decrypt_into A c k iv = Inr p"
proof -
  have c: "c = cbc_encrypt_padded A k iv p" "length k = 32" "length iv = 16"
    using assms(2) by (auto simp: aes_256_cbc_encrypt_into_def split: if_splits)
  have "length c = length p + (16 - length p mod 16)" "cbc_decrypt_padded A k iv c = Some p"
    using assms(1) by (simp_all add: cbc_laws_def c(1))
  moreover have "length p + (16 - length p mod 16) = 16 * (length p div 16 + 1)"
  proof -
    have "n + (16 - r) = 16 * (q + 1)" if "q * 16 + r = n" "r < 16" for n q r :: nat
      using that by simp
    from this [OF div_mult_mod_eq] show ?thesis by simp
  qed
  ultimately show ?thesis
    using c(2,3) by (auto simp: aes_256_cbc_decrypt_into_def)
qed

lemma cbc_total: "length k = 32 \<Longrightarrow> length iv = 16 \<Longrightarrow> \<exists>c. aes_256_cbc_encrypt_into A p k iv [] = Inr c"
  by (simp add: aes_256_cbc_encrypt_into_def)

section \<open>Keys that are handed out once\<close>

fun serve :: "('s \<Rightarrow> 'i \<Rightarrow> ('k \<times> 's, 'e) result) \<Rightarrow> 's \<Rightarrow> 'i list \<Rightarrow> 'i list" where
  \<comment> \<open>the requests that succeed, in order; a failed one leaves the state as it was\<close>
  "serve req s [] = []"
| "serve req s (i # is) = (case req s i of Inr (_, s') \<Rightarrow> i # serve req s' is | Inl _ \<Rightarrow> serve req s is)"

text \<open>What a source of message keys promises: a key that was handed out is spent, stays spent and is
  refused.\<close>

locale one_time_keys =
  fixes request :: "'s \<Rightarrow> 'i \<Rightarrow> ('k \<times> 's, 'e) result"
    and valid :: "'s \<Rightarrow> bool"
    and spent :: "'s \<Rightarrow> 'i \<Rightarrow> bool"
  assumes request_valid: "valid s \<Longrightarrow> request s i = Inr (k, s') \<Longrightarrow> valid s'"
    and request_spends: "valid s \<Longrightarrow> request s i = Inr (k, s') \<Longrightarrow> spent s' i"
    and spent_stays: "valid s \<Longrightarrow> spent s j \<Longrightarrow> request s i = Inr (k, s') \<Longrightarrow> spent s' j"
    and spent_refused: "valid s \<Longrightarrow> spent s i \<Longrightarrow> request s i \<noteq> Inr (k, s')"
begin

lemma served_once: "valid s \<Longrightarrow> distinct (serve request s is) \<and> (\<forall>i. spent s i \<longrightarrow> i \<notin> set (serve request s is))"
proof (induction "is" arbitrary: s)
  case (Cons i "is")
  show ?case
  proof (cases "request s i")
    case (Inr ks)
    then obtain k s' where ks: "request s i = Inr (k, s')"
      by (cases ks) auto
    have "valid s'" "spent s' i"
      using request_valid [OF Cons.prems ks] request_spends [OF Cons.prems ks] .
    then show ?thesis
      using Cons.IH [of s'] ks spent_stays [OF Cons.prems _ ks] spent_refused [OF Cons.prems] by auto
  qed (use Cons in auto)
qed simp

end

section \<open>Lists and numbers\<close>

fun take_first :: "('a \<Rightarrow> bool) \<Rightarrow> 'a list \<Rightarrow> ('a \<times> 'a list) option" where
  \<comment> \<open>\<open>position\<close> and \<open>remove\<close>\<close>
  "take_first f [] = None"
| "take_first f (x # xs) = (if f x then Some (x, xs) else map_option (\<lambda>(y, ys). (y, x # ys)) (take_first f xs))"

lemma take_first_mset:
  "take_first f xs = Some (y, ys) \<Longrightarrow> f y \<and> mset xs = add_mset y (mset ys) \<and> set ys \<subseteq> set xs"
  by (induction xs arbitrary: ys) (auto split: if_splits)

lemma take_first_distinct: "take_first f xs = Some (y, ys) \<Longrightarrow> distinct (map g xs) \<Longrightarrow> distinct (map g ys)"
  using take_first_mset [of f xs y ys] mset_eq_imp_distinct_iff [of "map g xs" "map g (y # ys)"] by simp

lemma take_first_None: "take_first f xs = None \<longleftrightarrow> (\<forall>x\<in>set xs. \<not> f x)"
  by (induction xs) (auto split: if_splits)

fun update_first :: "('a \<Rightarrow> bool) \<Rightarrow> 'a \<Rightarrow> 'a list \<Rightarrow> 'a list" where
  "update_first f y [] = []"
| "update_first f y (x # xs) = (if f x then y # xs else x # update_first f y xs)"

lemma find_update_first:
  "find f xs = Some x \<Longrightarrow> f y \<Longrightarrow> find f (update_first f y xs) = Some y"
  by (induction xs) (auto split: if_splits)

lemma u32_order:
  assumes "a < 2 ^ 32" "b < 2 ^ 32"
  shows "(of_nat a :: u32) < of_nat b \<longleftrightarrow> a < b" "(of_nat a :: u32) = of_nat b \<longleftrightarrow> a = b"
    "unat (of_nat a :: u32) = a" "a \<le> b \<Longrightarrow> unat (of_nat b - of_nat a :: u32) = b - a"
proof -
  have u: "unat (of_nat a :: u32) = a" "unat (of_nat b :: u32) = b"
    using assms by (simp_all add: unat_of_nat)
  then show "(of_nat a :: u32) < of_nat b \<longleftrightarrow> a < b" "(of_nat a :: u32) = of_nat b \<longleftrightarrow> a = b" "unat (of_nat a :: u32) = a"
    by (simp_all add: word_less_nat_alt word_unat_eq_iff)
  show "unat (of_nat b - of_nat a :: u32) = b - a" if "a \<le> b"
    using u that by (simp add: unat_sub word_le_nat_alt)
qed

lemma u32_suc:
  assumes "(a :: u32) < b"
  shows "unat (a + 1) = unat a + 1"
proof -
  have "unat a + 1 < 2 ^ 32"
    using assms unsigned_less [of b, where ?'a = nat] by (simp add: word_less_nat_alt)
  then show ?thesis by (simp add: unat_word_ariths)
qed

lemma u32_nat: obtains n where "(i :: u32) = of_nat n" "n < 2 ^ 32"
proof (rule that [of "unat i"])
  show "unat i < 2 ^ 32"
    using unsigned_less [of i] by simp
qed simp

section \<open>A self-delimiting code\<close>

text \<open>For the instances of the codecs in the examples.\<close>

fun toy_pack :: "bytes \<Rightarrow> bytes" where
  "toy_pack [] = [0]"
| "toy_pack (b # bs) = 1 # b # toy_pack bs"

fun toy_unpack :: "bytes \<Rightarrow> bytes \<times> bytes" where
  "toy_unpack (m # b # bs) = (if m = 0 then ([], b # bs) else let (x, y) = toy_unpack bs in (b # x, y))"
| "toy_unpack _ = ([], [])"

lemma toy_unpack_pack [simp]: "toy_unpack (toy_pack x @ y) = (x, y)"
  by (induction x) (cases y; simp)+

text \<open>A cipher that only pads.\<close>

definition toy_cbc :: cbc where
  "toy_cbc = \<lparr>cbc_encrypt_padded = \<lambda>_ _ p. p @ replicate (16 - length p mod 16) (of_nat (16 - length p mod 16)),
              cbc_decrypt_padded = \<lambda>_ _ c. Some (take (length c - unat (last c)) c)\<rparr>"

lemma toy_cbc_laws: "cbc_laws toy_cbc"
proof -
  have "unat (of_nat (16 - length p mod 16) :: byte) = 16 - length p mod 16" for p :: bytes
    by (simp add: unat_of_nat del: of_nat_diff)
  moreover have "16 - length p mod 16 \<noteq> 0" for p :: bytes
    by (simp add: not_le)
  ultimately show ?thesis
    by (simp add: cbc_laws_def toy_cbc_def del: of_nat_diff)
qed

lemma length_toy_pack [simp]: "length (toy_pack x) = 2 * length x + 1"
  by (induction x) auto

end
