(* ===== verification/Sender_Keys.thy ===== *)
theory Sender_Keys
  imports Signal
begin

text \<open>
  Sender keys of group messages (\<^verbatim>\<open>sender_keys.rs\<close>, \<^verbatim>\<open>group_cipher.rs\<close> and the group messages of
  \<^verbatim>\<open>protocol.rs\<close> in \<^verbatim>\<open>warp_core/libsignal/src/protocol\<close>). Key derivation, the message code, the block
  cipher, the curve's arithmetic and the protobuf codec are the parameter record \<open>group_crypto\<close>; random bytes are arguments. The
  store is a map from names to records; its errors, logging, the reusable buffers and the messages in
  errors are not modelled. A record is loaded, changed and stored whole, so that an error leaves the
  store as it was.
\<close>

section \<open>Parameters\<close>

record ('p, 's) group_crypto =
  g_hkdf :: hkdf
  g_hmac :: "bytes \<Rightarrow> bytes \<Rightarrow> bytes"
  g_cbc :: cbc
  g_curve :: "('p, 's) curve"
  encode_skm :: "u32 \<Rightarrow> u32 \<Rightarrow> bytes \<Rightarrow> bytes"
  decode_skm :: "bytes \<Rightarrow> (u32 option \<times> u32 option \<times> bytes option) option"
  encode_skdm :: "u32 \<Rightarrow> u32 \<Rightarrow> bytes \<Rightarrow> bytes \<Rightarrow> bytes"
  decode_skdm :: "bytes \<Rightarrow> (u32 option \<times> u32 option \<times> bytes option \<times> bytes option) option"

definition SENDERKEY_MESSAGE_CURRENT_VERSION :: byte where "SENDERKEY_MESSAGE_CURRENT_VERSION = 3"

section \<open>Keys\<close>

record sender_message_key =
  smk_iteration :: u32
  smk_iv :: bytes
  smk_cipher_key :: bytes
  smk_seed :: bytes

definition smk_new :: "('p, 's) group_crypto \<Rightarrow> u32 \<Rightarrow> bytes \<Rightarrow> sender_message_key sres" where
  "smk_new C iteration seed =
     (case g_hkdf C None seed (as_bytes ''WhisperGroup'') 48 of
        None \<Rightarrow> Inl Panic
      | Some okm \<Rightarrow>
          Inr \<lparr>smk_iteration = iteration, smk_iv = take 16 okm, smk_cipher_key = take 32 (drop 16 okm), smk_seed = seed\<rparr>)"

type_synonym stored_key = "u32 option \<times> bytes option"

definition smk_from_protobuf :: "('p, 's) group_crypto \<Rightarrow> stored_key \<Rightarrow> sender_message_key sres" where
  "smk_from_protobuf C smk =
     (let seed = (case snd smk of Some s \<Rightarrow> s | None \<Rightarrow> []) in
      if length seed \<noteq> 32 then Inl Panic
      else smk_new C (case fst smk of Some i \<Rightarrow> i | None \<Rightarrow> 0) seed)"

definition smk_as_protobuf :: "sender_message_key \<Rightarrow> stored_key" where
  "smk_as_protobuf k = (Some (smk_iteration k), Some (smk_seed k))"

record sender_chain_key =
  sck_iteration :: u32
  sck_key :: bytes

definition get_derivative :: "('p, 's) group_crypto \<Rightarrow> byte \<Rightarrow> sender_chain_key \<Rightarrow> bytes" where
  "get_derivative C label k = g_hmac C (sck_key k) [label]"

definition sck_next :: "('p, 's) group_crypto \<Rightarrow> sender_chain_key \<Rightarrow> sender_chain_key sres" where
  "sck_next C k =
     (if unat (sck_iteration k) + 1 < 2 ^ 32
      then Inr \<lparr>sck_iteration = sck_iteration k + 1, sck_key = get_derivative C 2 k\<rparr>
      else Throw InvalidState)"

definition sck_message_key :: "('p, 's) group_crypto \<Rightarrow> sender_chain_key \<Rightarrow> sender_message_key sres" where
  "sck_message_key C k = smk_new C (sck_iteration k) (get_derivative C 1 k)"

section \<open>States\<close>

record sender_key_state =
  sk_id :: "u32 option"
  sk_chain :: "stored_key option"
  sk_signing :: "(bytes option \<times> bytes option) option"
  sk_message_keys :: "stored_key list"

definition sks_new :: "('p, 's) group_crypto \<Rightarrow> u32 \<Rightarrow> u32 \<Rightarrow> bytes \<Rightarrow> public_key \<Rightarrow> private_key option \<Rightarrow> sender_key_state sres" where
  "sks_new C chain_id iteration chain_key signature_key signature_private_key =
     (if length chain_key \<noteq> 32 then Inl Panic
      else Inr \<lparr>sk_id = Some chain_id, sk_chain = Some (Some iteration, Some chain_key),
                sk_signing = Some (Some (public_serialize signature_key), map_option private_serialize signature_private_key),
                sk_message_keys = []\<rparr>)"

definition message_version :: "sender_key_state \<Rightarrow> u32" where
  "message_version st = 3"

definition chain_id :: "sender_key_state \<Rightarrow> u32" where
  "chain_id st = (case sk_id st of Some i \<Rightarrow> i | None \<Rightarrow> 0)"

definition state_chain_key :: "sender_key_state \<Rightarrow> sender_chain_key option" where
  "state_chain_key st =
     Option.bind (sk_chain st) (\<lambda>(i, s).
       let seed = (case s of Some s \<Rightarrow> s | None \<Rightarrow> []) in
       if length seed = 32 then Some \<lparr>sck_iteration = (case i of Some i \<Rightarrow> i | None \<Rightarrow> 0), sck_key = seed\<rparr> else None)"

definition set_sender_chain_key :: "sender_chain_key \<Rightarrow> sender_key_state \<Rightarrow> sender_key_state" where
  "set_sender_chain_key k st = st\<lparr>sk_chain := Some (Some (sck_iteration k), Some (sck_key k))\<rparr>"

definition signing_key_public :: "('p, 's) group_crypto \<Rightarrow> sender_key_state \<Rightarrow> public_key option" where
  "signing_key_public C st = Option.bind (sk_signing st) (\<lambda>(pub, _). Option.bind pub (\<lambda>b. ok (public_deserialize b)))"

definition signing_key_private :: "('p, 's) group_crypto \<Rightarrow> sender_key_state \<Rightarrow> private_key option" where
  "signing_key_private C st = Option.bind (sk_signing st) (\<lambda>(_, priv). Option.bind priv (\<lambda>b. ok (private_deserialize (g_curve C) b)))"

definition add_sender_message_key :: "sender_message_key \<Rightarrow> sender_key_state \<Rightarrow> sender_key_state" where
  \<comment> \<open>the loop removes from the front until the length is within the limit\<close>
  "add_sender_message_key k st =
     (let keys = sk_message_keys st @ [smk_as_protobuf k]
      in st\<lparr>sk_message_keys := drop (length keys - MAX_MESSAGE_KEYS) keys\<rparr>)"

definition stored_iteration :: "stored_key \<Rightarrow> u32" where
  "stored_iteration k = (case fst k of Some i \<Rightarrow> i | None \<Rightarrow> 0)"

definition remove_sender_message_key ::
    "('p, 's) group_crypto \<Rightarrow> u32 \<Rightarrow> sender_key_state \<Rightarrow> (sender_message_key \<times> sender_key_state) option sres" where
  "remove_sender_message_key C iteration st =
     (case take_first (\<lambda>k. stored_iteration k = iteration) (sk_message_keys st) of
        None \<Rightarrow> Inr None
      | Some (smk, keys) \<Rightarrow> rmap (\<lambda>k. Some (k, st\<lparr>sk_message_keys := keys\<rparr>)) (smk_from_protobuf C smk))"

section \<open>Records\<close>

type_synonym sender_key_record = "sender_key_state list"

definition current_state :: "sender_key_record \<Rightarrow> sender_key_state option" where
  "current_state r = (case r of [] \<Rightarrow> None | s # _ \<Rightarrow> Some s)"

definition remove_state :: "('p, 's) group_crypto \<Rightarrow> u32 \<Rightarrow> public_key \<Rightarrow> sender_key_record \<Rightarrow> sender_key_state option \<times> sender_key_record" where
  "remove_state C cid signature_key r =
     (case take_first (\<lambda>s. chain_id s = cid \<and> signing_key_public C s = Some signature_key) r of
        None \<Rightarrow> (None, r)
      | Some (s, r) \<Rightarrow> (Some s, r))"

definition remove_states_with_chain_id :: "u32 \<Rightarrow> sender_key_record \<Rightarrow> sender_key_record" where
  "remove_states_with_chain_id cid r = filter (\<lambda>s. chain_id s \<noteq> cid) r"

definition add_sender_key_state ::
    "('p, 's) group_crypto \<Rightarrow> u32 \<Rightarrow> u32 \<Rightarrow> bytes \<Rightarrow> public_key \<Rightarrow> private_key option \<Rightarrow> sender_key_record \<Rightarrow> sender_key_record sres" where
  "add_sender_key_state C cid iteration chain_key signature_key signature_private_key r =
     (let (existing_state, r) = remove_state C cid signature_key r;
          r = remove_states_with_chain_id cid r
      in rmap (\<lambda>state. state # take (MAX_SENDER_KEY_STATES - 1) r)
           (case existing_state of
              None \<Rightarrow> sks_new C cid iteration chain_key signature_key signature_private_key
            | Some state \<Rightarrow> Inr state))"

definition sender_key_state_for_chain_id :: "u32 \<Rightarrow> sender_key_record \<Rightarrow> sender_key_state option" where
  "sender_key_state_for_chain_id cid r = find (\<lambda>s. chain_id s = cid) r"

section \<open>Messages\<close>

record sender_key_message =
  skm_version :: byte
  skm_chain_id :: u32
  skm_iteration :: u32
  skm_ciphertext :: bytes
  skm_serialized :: bytes

definition SIGNATURE_LEN :: nat where "SIGNATURE_LEN = 64"

unbundle bit_operations_syntax

definition skm_new :: "('p, 's) group_crypto \<Rightarrow> byte \<Rightarrow> u32 \<Rightarrow> u32 \<Rightarrow> bytes \<Rightarrow> bytes \<Rightarrow> private_key \<Rightarrow> sender_key_message sres" where
  "skm_new C mversion cid iteration ciphertext rnd signature_key =
     (let shifted_version = push_bit 4 mversion OR 3;
          data_to_sign = shifted_version # encode_skm C cid iteration ciphertext
      in Inr \<lparr>skm_version = mversion, skm_chain_id = cid, skm_iteration = iteration, skm_ciphertext = ciphertext,
               skm_serialized = data_to_sign @ private_sign (g_curve C) signature_key [data_to_sign] rnd\<rparr>)"

definition verify_signature :: "('p, 's) group_crypto \<Rightarrow> public_key \<Rightarrow> sender_key_message \<Rightarrow> bool sres" where
  "verify_signature C signature_key m =
     (let s = skm_serialized m in
      if length s < SIGNATURE_LEN then Inl Panic
      else Inr (public_verify (g_curve C) signature_key [take (length s - SIGNATURE_LEN) s] (drop (length s - SIGNATURE_LEN) s)))"

definition skm_try_from :: "('p, 's) group_crypto \<Rightarrow> bytes \<Rightarrow> sender_key_message sres" where
  "skm_try_from C v =
     (if length v < 1 + SIGNATURE_LEN then Throw (CiphertextMessageTooShort (length v))
      else
        let mversion = drop_bit 4 (v ! 0) in
        if mversion < SENDERKEY_MESSAGE_CURRENT_VERSION then Throw (LegacyCiphertextVersion mversion)
        else if mversion > SENDERKEY_MESSAGE_CURRENT_VERSION then Throw (UnrecognizedCiphertextVersion mversion)
        else
          rbind (ok_or (decode_skm C (drop 1 (take (length v - SIGNATURE_LEN) v))) InvalidProtobufEncoding) (\<lambda>(i, it, ct).
          rbind (ok_or i InvalidProtobufEncoding) (\<lambda>i.
          rbind (ok_or it InvalidProtobufEncoding) (\<lambda>it.
          rbind (ok_or ct InvalidProtobufEncoding) (\<lambda>ct.
            Inr \<lparr>skm_version = mversion, skm_chain_id = i, skm_iteration = it, skm_ciphertext = ct, skm_serialized = v\<rparr>)))))"

record skdm =
  skdm_version :: byte
  skdm_chain_id :: u32
  skdm_iteration :: u32
  skdm_chain_key :: bytes
  skdm_signing_key :: public_key
  skdm_serialized :: bytes

definition skdm_new :: "('p, 's) group_crypto \<Rightarrow> byte \<Rightarrow> u32 \<Rightarrow> u32 \<Rightarrow> bytes \<Rightarrow> public_key \<Rightarrow> skdm" where
  "skdm_new C mversion cid iteration chain_key signing_key =
     \<lparr>skdm_version = mversion, skdm_chain_id = cid, skdm_iteration = iteration, skdm_chain_key = chain_key,
      skdm_signing_key = signing_key,
      skdm_serialized = (push_bit 4 (mversion AND 15) OR SENDERKEY_MESSAGE_CURRENT_VERSION)
        # encode_skdm C cid iteration chain_key (public_serialize signing_key)\<rparr>"

definition skdm_try_from :: "('p, 's) group_crypto \<Rightarrow> bytes \<Rightarrow> skdm sres" where
  "skdm_try_from C v =
     (if length v < 1 + 32 + 32 then Throw (CiphertextMessageTooShort (length v))
      else
        let mversion = drop_bit 4 (v ! 0) in
        if mversion < SENDERKEY_MESSAGE_CURRENT_VERSION then Throw (LegacyCiphertextVersion mversion)
        else if mversion > SENDERKEY_MESSAGE_CURRENT_VERSION then Throw (UnrecognizedCiphertextVersion mversion)
        else
          rbind (ok_or (decode_skdm C (drop 1 v)) InvalidProtobufEncoding) (\<lambda>(i, it, ck, sk).
          rbind (ok_or i InvalidProtobufEncoding) (\<lambda>i.
          rbind (ok_or it InvalidProtobufEncoding) (\<lambda>it.
          rbind (ok_or ck InvalidProtobufEncoding) (\<lambda>ck.
          rbind (ok_or sk InvalidProtobufEncoding) (\<lambda>sk.
          if length ck \<noteq> 32 \<or> length sk \<noteq> 33 then Throw InvalidProtobufEncoding
          else
            rbind (lift_curve (public_deserialize sk)) (\<lambda>sk.
            Inr \<lparr>skdm_version = mversion, skdm_chain_id = i, skdm_iteration = it, skdm_chain_key = ck,
                 skdm_signing_key = sk, skdm_serialized = v\<rparr>)))))))"

section \<open>Group cipher\<close>

type_synonym key_store = "string \<rightharpoonup> sender_key_record"

definition group_encrypt ::
    "('p, 's) group_crypto \<Rightarrow> bytes \<Rightarrow> key_store \<Rightarrow> string \<Rightarrow> bytes \<Rightarrow> (sender_key_message \<times> key_store) sres" where
  "group_encrypt C rnd store name plaintext =
     rbind (ok_or (store name) NoSenderKeyState) (\<lambda>r.
     rbind (ok_or (current_state r) InvalidSenderKeySession) (\<lambda>st.
     rbind (ok_or (state_chain_key st) InvalidSenderKeySession) (\<lambda>chain.
     rbind (sck_message_key C chain) (\<lambda>keys.
     rbind (ok_or (ok (aes_256_cbc_encrypt_into (g_cbc C) plaintext (smk_cipher_key keys) (smk_iv keys) [])) InvalidSenderKeySession) (\<lambda>ciphertext.
     rbind (ok_or (signing_key_private C st) InvalidSenderKeySession) (\<lambda>signing_key.
     rbind (skm_new C (ucast (message_version st)) (chain_id st) (smk_iteration keys) ciphertext rnd signing_key) (\<lambda>skm.
     rbind (sck_next C chain) (\<lambda>chain.
       Inr (skm, store(name \<mapsto> set_sender_chain_key chain st # tl r))))))))))"

lemma sck_next_iteration:
  "sck_next C k = Inr k' \<Longrightarrow> unat (sck_iteration k') = unat (sck_iteration k) + 1"
  by (auto simp: sck_next_def unat_word_ariths split: if_splits)

function advance ::
    "('p, 's) group_crypto \<Rightarrow> u32 \<Rightarrow> sender_chain_key \<Rightarrow> sender_key_state \<Rightarrow> (sender_chain_key \<times> sender_key_state) sres" where
  "advance C iteration chain st =
     (if sck_iteration chain < iteration
      then rbind (sck_message_key C chain) (\<lambda>k.
           rbind (sck_next C chain) (\<lambda>chain'. advance C iteration chain' (add_sender_message_key k st)))
      else Inr (chain, st))"
  by pat_completeness auto
termination
  by (relation "measure (\<lambda>(_, iteration, chain, _). unat iteration - unat (sck_iteration chain))")
     (auto dest: sck_next_iteration simp: word_less_nat_alt)

declare advance.simps [simp del]

definition get_sender_key ::
    "('p, 's) group_crypto \<Rightarrow> sender_key_state \<Rightarrow> u32 \<Rightarrow> (sender_message_key \<times> sender_key_state) sres" where
  "get_sender_key C st iteration =
     rbind (ok_or (state_chain_key st) InvalidSenderKeySession) (\<lambda>chain.
     let current_iteration = sck_iteration chain in
     if current_iteration > iteration
     then rbind (remove_sender_message_key C iteration st) (\<lambda>found.
            ok_or found (DuplicatedMessage current_iteration iteration))
     else if unat (iteration - current_iteration) > MAX_FORWARD_JUMPS then Throw (InvalidMessage SenderKey)
     else
       rbind (advance C iteration chain st) (\<lambda>(chain, st).
       rbind (sck_next C chain) (\<lambda>chain'.
       rmap (\<lambda>k. (k, set_sender_chain_key chain' st)) (sck_message_key C chain))))"

definition group_decrypt ::
    "('p, 's) group_crypto \<Rightarrow> bytes \<Rightarrow> key_store \<Rightarrow> string \<Rightarrow> (bytes \<times> key_store) sres" where
  "group_decrypt C skm_bytes store name =
     rbind (skm_try_from C skm_bytes) (\<lambda>skm.
     rbind (ok_or (store name) NoSenderKeyState) (\<lambda>r.
     rbind (ok_or (sender_key_state_for_chain_id (skm_chain_id skm) r) NoSenderKeyState) (\<lambda>st.
     if ucast (skm_version skm) \<noteq> message_version st
     then Throw (UnrecognizedMessageVersion (ucast (skm_version skm)))
     else
       rbind (ok_or (signing_key_public C st) InvalidSenderKeySession) (\<lambda>signing_key.
       rbind (verify_signature C signing_key skm) (\<lambda>valid.
       if \<not> valid then Throw SignatureValidationFailed
       else
         rbind (get_sender_key C st (skm_iteration skm)) (\<lambda>(sender_key, st').
         case aes_256_cbc_decrypt_into (g_cbc C) (skm_ciphertext skm) (smk_cipher_key sender_key) (smk_iv sender_key) of
           Inl (Err decryption_error.BadKeyOrIv) \<Rightarrow> Throw InvalidSenderKeySession
         | Inl (Err BadCiphertext) \<Rightarrow> Throw (InvalidMessage SenderKey)
         | Inl Panic \<Rightarrow> Inl Panic
         | Inl Diverge \<Rightarrow> Inl Diverge
         | Inr plaintext \<Rightarrow>
             Inr (plaintext, store(name \<mapsto> update_first (\<lambda>s. chain_id s = skm_chain_id skm) st' r))))))))"

definition process_sender_key_distribution_message ::
    "('p, 's) group_crypto \<Rightarrow> string \<Rightarrow> skdm \<Rightarrow> key_store \<Rightarrow> key_store sres" where
  "process_sender_key_distribution_message C name m store =
     rmap (\<lambda>r. store(name \<mapsto> r))
       (add_sender_key_state C (skdm_chain_id m) (skdm_iteration m) (skdm_chain_key m) (skdm_signing_key m) None
          (case store name of Some r \<Rightarrow> r | None \<Rightarrow> []))"

definition create_sender_key_distribution_message ::
    "('p, 's) group_crypto \<Rightarrow> string \<Rightarrow> u32 \<Rightarrow> bytes \<Rightarrow> key_pair \<Rightarrow> key_store \<Rightarrow> (skdm \<times> key_store) sres" where
  \<comment> \<open>the random number, sender key and signing key pair are arguments\<close>
  "create_sender_key_distribution_message C name random sender_key signing_key store =
     rbind (case store name of
              Some r \<Rightarrow> Inr (r, store)
            | None \<Rightarrow>
                rmap (\<lambda>r. (r, store(name \<mapsto> r)))
                  (add_sender_key_state C (drop_bit 1 random) 0 sender_key (kp_public signing_key) (Some (kp_private signing_key)) []))
       (\<lambda>(r, store).
     rbind (ok_or (current_state r) InvalidSenderKeySession) (\<lambda>st.
     rbind (ok_or (state_chain_key st) InvalidSenderKeySession) (\<lambda>chain.
     rbind (ok_or (signing_key_public C st) InvalidSenderKeySession) (\<lambda>pub.
       Inr (skdm_new C (ucast (message_version st)) (chain_id st) (sck_iteration chain) (sck_key chain) pub, store)))))"

section \<open>The chain\<close>

definition group_laws :: "('p, 's) group_crypto \<Rightarrow> bool" where
  \<comment> \<open>the derivation expands to the length asked for, and the code has 32 bytes\<close>
  "group_laws C \<longleftrightarrow> hkdf_expands (g_hkdf C) \<and> (\<forall>k m. length (g_hmac C k m) = 32)"

definition chain_at :: "('p, 's) group_crypto \<Rightarrow> bytes \<Rightarrow> nat \<Rightarrow> bytes" where
  "chain_at C seed n = ((\<lambda>k. g_hmac C k [2]) ^^ n) seed"

definition seed_at :: "('p, 's) group_crypto \<Rightarrow> nat \<Rightarrow> bytes \<Rightarrow> nat \<Rightarrow> bytes" where
  \<comment> \<open>the seed of message key \<open>i\<close> of a chain that starts at iteration \<open>b\<close>\<close>
  "seed_at C b seed i = g_hmac C (chain_at C seed (i - b)) [1]"

definition key_at :: "('p, 's) group_crypto \<Rightarrow> nat \<Rightarrow> bytes \<Rightarrow> nat \<Rightarrow> sender_message_key" where
  "key_at C b seed i =
     (let okm = the (g_hkdf C None (seed_at C b seed i) (as_bytes ''WhisperGroup'') 48)
      in \<lparr>smk_iteration = of_nat i, smk_iv = take 16 okm, smk_cipher_key = take 32 (drop 16 okm),
          smk_seed = seed_at C b seed i\<rparr>)"

definition stored_at :: "('p, 's) group_crypto \<Rightarrow> nat \<Rightarrow> bytes \<Rightarrow> nat \<Rightarrow> stored_key" where
  "stored_at C b seed i = (Some (of_nat i), Some (seed_at C b seed i))"

definition holds :: "('p, 's) group_crypto \<Rightarrow> nat \<Rightarrow> bytes \<Rightarrow> nat \<Rightarrow> nat list \<Rightarrow> sender_key_state \<Rightarrow> bool" where
  \<comment> \<open>the state is at iteration \<open>c\<close> of the chain and keeps the message keys \<open>is\<close>\<close>
  "holds C b seed c is st \<longleftrightarrow> length seed = 32 \<and> b \<le> c \<and> c < 2 ^ 32 \<and> distinct is \<and> (\<forall>i \<in> set is. b \<le> i \<and> i < c)
     \<and> length is \<le> MAX_MESSAGE_KEYS
     \<and> sk_chain st = Some (Some (of_nat c), Some (chain_at C seed (c - b)))
     \<and> sk_message_keys st = map (stored_at C b seed) is"

definition keep :: "'a list \<Rightarrow> 'a list" where
  "keep xs = drop (length xs - MAX_MESSAGE_KEYS) xs"

lemma keep_keep: "keep (keep xs @ ys) = keep (xs @ ys)"
  by (cases "length xs \<le> MAX_MESSAGE_KEYS") (simp_all add: keep_def add.commute)

lemma length_chain_at: "group_laws C \<Longrightarrow> length seed = 32 \<Longrightarrow> length (chain_at C seed n) = 32"
  by (cases n) (simp_all add: chain_at_def group_laws_def)

lemma smk_new_at:
  assumes "group_laws C"
  shows "smk_new C (of_nat i) (seed_at C b seed i) = Inr (key_at C b seed i)"
proof -
  have "\<exists>okm. g_hkdf C None (seed_at C b seed i) (as_bytes ''WhisperGroup'') 48 = Some okm"
    using assms [unfolded group_laws_def hkdf_expands_def, THEN conjunct1, rule_format,
        of 48 None "seed_at C b seed i" "as_bytes ''WhisperGroup''"] by auto
  then show ?thesis
    by (auto simp: smk_new_def key_at_def Let_def)
qed

lemma chain_steps:
  assumes "group_laws C" "b \<le> c" "c < 2 ^ 32"
  shows "sck_message_key C \<lparr>sck_iteration = of_nat c, sck_key = chain_at C seed (c - b)\<rparr> = Inr (key_at C b seed c)"
    "sck_next C \<lparr>sck_iteration = of_nat c, sck_key = chain_at C seed (c - b)\<rparr>
     = (if c + 1 < 2 ^ 32 then Inr \<lparr>sck_iteration = of_nat (c + 1), sck_key = chain_at C seed (c + 1 - b)\<rparr> else Throw InvalidState)"
  using smk_new_at [OF assms(1), of c b seed] assms(2,3) u32_order(3) [OF assms(3,3)]
  by (simp_all add: sck_message_key_def sck_next_def get_derivative_def seed_at_def chain_at_def Suc_diff_le add.commute)

lemma advance_at:
  assumes "group_laws C" "b \<le> c" "c \<le> i" "i < 2 ^ 32" "length (sk_message_keys st) \<le> MAX_MESSAGE_KEYS"
  shows "advance C (of_nat i) \<lparr>sck_iteration = of_nat c, sck_key = chain_at C seed (c - b)\<rparr> st
    = Inr (\<lparr>sck_iteration = of_nat i, sck_key = chain_at C seed (i - b)\<rparr>,
           st\<lparr>sk_message_keys := keep (sk_message_keys st @ map (stored_at C b seed) [c..<i])\<rparr>)"
  using assms(2-5)
proof (induction "i - c" arbitrary: c st)
  case 0
  then show ?case by (subst advance.simps) (simp add: keep_def)
next
  case (Suc n)
  then have c: "c < i" "c < 2 ^ 32" "c + 1 < 2 ^ 32" by simp_all
  let ?st = "add_sender_message_key (key_at C b seed c) st"
  have keys: "sk_message_keys ?st = keep (sk_message_keys st @ [stored_at C b seed c])"
    by (simp add: add_sender_message_key_def keep_def smk_as_protobuf_def key_at_def stored_at_def Let_def)
  have "length (sk_message_keys ?st) \<le> MAX_MESSAGE_KEYS"
    unfolding keys by (simp add: keep_def)
  then have IH: "advance C (of_nat i) \<lparr>sck_iteration = of_nat (c + 1), sck_key = chain_at C seed (c + 1 - b)\<rparr> ?st
    = Inr (\<lparr>sck_iteration = of_nat i, sck_key = chain_at C seed (i - b)\<rparr>,
           ?st\<lparr>sk_message_keys := keep (sk_message_keys ?st @ map (stored_at C b seed) [c + 1..<i])\<rparr>)"
    using Suc by (intro Suc.hyps(1)) simp_all
  have all: "keep (sk_message_keys ?st @ map (stored_at C b seed) [c + 1..<i])
      = keep (sk_message_keys st @ map (stored_at C b seed) [c..<i])"
    unfolding keys keep_keep using c(1) by (simp add: upt_conv_Cons)
  have "?st\<lparr>sk_message_keys := x\<rparr> = st\<lparr>sk_message_keys := x\<rparr>" for x
    by (simp add: add_sender_message_key_def Let_def)
  with IH all show ?case
    using chain_steps [OF assms(1) Suc.prems(1) c(2), of seed] u32_order(1) [OF c(2) Suc.prems(3)] c
    by (subst advance.simps) simp
qed

lemma take_first_stored:
  "distinct is \<Longrightarrow> (\<forall>j \<in> set is. j < 2 ^ 32) \<Longrightarrow> i < 2 ^ 32 \<Longrightarrow>
   take_first (\<lambda>k. stored_iteration k = of_nat i) (map (stored_at C b seed) is)
   = (if i \<in> set is then Some (stored_at C b seed i, map (stored_at C b seed) (remove1 i is)) else None)"
  by (induction "is") (auto simp: stored_iteration_def stored_at_def u32_order(2))

lemma holds_chain:
  assumes "group_laws C" "holds C b seed c is st"
  shows "state_chain_key st = Some \<lparr>sck_iteration = of_nat c, sck_key = chain_at C seed (c - b)\<rparr>"
  using assms length_chain_at [OF assms(1), of seed "c - b"] by (simp add: holds_def state_chain_key_def)

lemma holds_stored:
  assumes "group_laws C" "holds C b seed c is st" "i < c"
  shows "get_sender_key C st (of_nat i) =
    (if i \<in> set is then Inr (key_at C b seed i, st\<lparr>sk_message_keys := map (stored_at C b seed) (remove1 i is)\<rparr>)
     else Throw (DuplicatedMessage (of_nat c) (of_nat i)))"
proof -
  have h: "distinct is" "\<forall>j \<in> set is. j < 2 ^ 32" "i < 2 ^ 32" "c < 2 ^ 32" "sk_message_keys st = map (stored_at C b seed) is"
    using assms(2,3) by (fastforce simp: holds_def)+
  have "length (seed_at C b seed i) = 32"
    using assms(1) by (simp add: seed_at_def group_laws_def)
  then have "smk_from_protobuf C (stored_at C b seed i) = Inr (key_at C b seed i)"
    by (simp add: smk_from_protobuf_def stored_at_def smk_new_at [OF assms(1)])
  then show ?thesis
    using holds_chain [OF assms(1,2)] take_first_stored [OF h(1-3), of C b seed] u32_order(1) [OF h(3,4)] assms(3)
    by (simp add: get_sender_key_def remove_sender_message_key_def h(5))
qed

lemma holds_ahead:
  assumes "group_laws C" "holds C b seed c is st" "c \<le> i" "i < 2 ^ 32"
  shows "get_sender_key C st (of_nat i) =
    (if i - c > MAX_FORWARD_JUMPS then Throw (InvalidMessage SenderKey)
     else if i + 1 = 2 ^ 32 then Throw InvalidState
     else Inr (key_at C b seed i,
            st\<lparr>sk_chain := Some (Some (of_nat (i + 1)), Some (chain_at C seed (i + 1 - b))),
               sk_message_keys := map (stored_at C b seed) (keep (is @ [c..<i]))\<rparr>))"
proof -
  have h: "b \<le> c" "b \<le> i" "c < 2 ^ 32" "length (sk_message_keys st) \<le> MAX_MESSAGE_KEYS"
      "sk_message_keys st = map (stored_at C b seed) is"
    using assms(2,3) by (auto simp: holds_def)
  have "keep (map (stored_at C b seed) xs) = map (stored_at C b seed) (keep xs)" for xs
    by (simp add: keep_def drop_map)
  from this [of "is @ [c..<i]"]
  have "advance C (of_nat i) \<lparr>sck_iteration = of_nat c, sck_key = chain_at C seed (c - b)\<rparr> st
    = Inr (\<lparr>sck_iteration = of_nat i, sck_key = chain_at C seed (i - b)\<rparr>,
           st\<lparr>sk_message_keys := map (stored_at C b seed) (keep (is @ [c..<i]))\<rparr>)"
    using advance_at [OF assms(1) h(1) assms(3,4) h(4), of seed] by (simp add: h(5))
  then show ?thesis
    using holds_chain [OF assms(1,2)] chain_steps [OF assms(1) h(2) assms(4), of seed] assms(3,4)
      u32_order(1) [OF assms(4) h(3)] u32_order(4) [OF h(3) assms(4,3)]
    by (simp add: get_sender_key_def set_sender_chain_key_def)
qed

lemma keep_set: "set (keep xs) \<subseteq> set xs" "distinct xs \<Longrightarrow> distinct (keep xs)" "length (keep xs) \<le> MAX_MESSAGE_KEYS"
  by (auto simp: keep_def dest: in_set_dropD)

lemma get_sender_key_holds:
  assumes "group_laws C" "holds C b seed c is st" "get_sender_key C st (of_nat i) = Inr (k, st')" "i < 2 ^ 32"
  shows "k = key_at C b seed i \<and>
    (if i < c then i \<in> set is \<and> holds C b seed c (remove1 i is) st'
     else i + 1 < 2 ^ 32 \<and> holds C b seed (i + 1) (keep (is @ [c..<i])) st')"
proof (cases "i < c")
  case True
  then show ?thesis
    using holds_stored [OF assms(1,2) True] assms(2,3)
    by (auto simp: holds_def length_remove1 split: if_splits dest: notin_set_remove1)
next
  case False
  then have i: "i + 1 < 2 ^ 32" "k = key_at C b seed i"
      "st' = st\<lparr>sk_chain := Some (Some (of_nat (i + 1)), Some (chain_at C seed (i + 1 - b))),
               sk_message_keys := map (stored_at C b seed) (keep (is @ [c..<i]))\<rparr>"
    using holds_ahead [OF assms(1,2) _ assms(4)] assms(3,4) by (auto split: if_splits)
  have "distinct (is @ [c..<i])" "\<forall>j \<in> set (is @ [c..<i]). b \<le> j \<and> j < i + 1"
    using assms(2) False by (auto simp: holds_def)
  then show ?thesis
    using assms(2) False i keep_set [of "is @ [c..<i]"] by (auto simp: holds_def)
qed

definition spent :: "sender_key_state \<Rightarrow> u32 \<Rightarrow> bool" where
  "spent st i \<longleftrightarrow> (\<exists>chain. state_chain_key st = Some chain \<and> i < sck_iteration chain
     \<and> i \<notin> stored_iteration ` set (sk_message_keys st))"

definition on_chain :: "('p, 's) group_crypto \<Rightarrow> nat \<Rightarrow> bytes \<Rightarrow> sender_key_state \<Rightarrow> bool" where
  "on_chain C b seed st \<longleftrightarrow> group_laws C \<and> (\<exists>c is. holds C b seed c is st)"

lemma spent_iff:
  assumes "group_laws C" "holds C b seed c is st" "i < 2 ^ 32"
  shows "spent st (of_nat i) \<longleftrightarrow> i < c \<and> i \<notin> set is"
proof -
  have h: "c < 2 ^ 32" "\<forall>j \<in> set is. j < 2 ^ 32" "sk_message_keys st = map (stored_at C b seed) is"
    using assms(2) by (fastforce simp: holds_def)+
  have "(of_nat i :: u32) \<in> of_nat ` set is \<longleftrightarrow> i \<in> set is"
    using h(2) u32_order(2) [OF assms(3)] by auto
  then show ?thesis
    using holds_chain [OF assms(1,2)] u32_order(1) [OF assms(3) h(1)]
    by (simp add: spent_def h(3) image_image stored_at_def stored_iteration_def)
qed

interpretation sk: one_time_keys "get_sender_key C" "on_chain C b seed" spent for C b seed
proof
  fix st :: sender_key_state and i j :: u32 and k :: sender_message_key and st' :: sender_key_state
  assume valid: "on_chain C b seed st"
  obtain n where n: "i = of_nat n" "n < 2 ^ 32" by (rule u32_nat)
  obtain m where m: "j = of_nat m" "m < 2 ^ 32" by (rule u32_nat)
  obtain c "is" where laws: "group_laws C" and h: "holds C b seed c is st"
    using valid by (auto simp: on_chain_def)
  show "get_sender_key C st i \<noteq> Inr (k, st')" if "spent st i"
    using that holds_stored [OF laws h, of n] spent_iff [OF laws h n(2)] n(1) by simp
  assume req: "get_sender_key C st i = Inr (k, st')"
  note step = get_sender_key_holds [OF laws h req [unfolded n(1)] n(2)]
  obtain c' is' where h': "holds C b seed c' is' st'"
    and c': "c \<le> c'" "n < c'" "n \<notin> set is'" "\<And>m. m < c \<Longrightarrow> m \<notin> set is \<Longrightarrow> m \<notin> set is'"
  proof (cases "n < c")
    case True
    then show ?thesis
      using step h by (intro that [of c "remove1 n is"]) (auto simp: holds_def dest: notin_set_remove1)
  next
    case False
    then show ?thesis
      using step h keep_set(1) [of "is @ [c..<n]"] by (intro that [of "n + 1" "keep (is @ [c..<n])"]) (auto simp: holds_def)
  qed
  show "on_chain C b seed st'"
    using laws h' by (auto simp: on_chain_def)
  show "spent st' i"
    using spent_iff [OF laws h' n(2)] c' n(1) by simp
  show "spent st' j" if "spent st j"
    using that spent_iff [OF laws h m(2)] spent_iff [OF laws h' m(2)] c' m(1) by auto
qed

section \<open>Records and messages\<close>

definition record_ok :: "sender_key_record \<Rightarrow> bool" where
  "record_ok r \<longleftrightarrow> length r \<le> MAX_SENDER_KEY_STATES \<and> distinct (map chain_id r)"

lemma added_rest:
  assumes "record_ok r"
  shows "distinct (map chain_id (take n (remove_states_with_chain_id cid r)))"
    "cid \<notin> chain_id ` set (take n (remove_states_with_chain_id cid r))"
  using assms by (auto simp: record_ok_def remove_states_with_chain_id_def take_map [symmetric]
      intro!: distinct_take distinct_map_filter dest: in_set_takeD)

lemma remove_state_ok:
  assumes "remove_state C cid pub r = (e, r1)" "record_ok r"
  shows "record_ok r1"
proof (cases "take_first (\<lambda>s. chain_id s = cid \<and> signing_key_public C s = Some pub) r")
  case None
  then show ?thesis using assms by (simp add: remove_state_def)
next
  case (Some y)
  then have y: "take_first (\<lambda>s. chain_id s = cid \<and> signing_key_public C s = Some pub) r = Some (fst y, r1)"
    using assms(1) by (auto simp: remove_state_def split: prod.splits)
  have "length r = Suc (length r1)"
    using take_first_mset [OF y] by (metis mset.simps(2) size_add_mset size_mset)
  then show ?thesis
    using assms(2) take_first_distinct [OF y, of chain_id] by (simp add: record_ok_def)
qed

lemma remove_state_first:
  assumes "remove_state C cid pub r = (e, r1)" "record_ok r"
  shows "(\<forall>st. e = Some st \<longrightarrow> chain_id st = cid)
    \<and> (\<forall>old\<in>set r. chain_id old = cid \<and> signing_key_public C old = Some pub \<longrightarrow> e = Some old)"
proof (cases "take_first (\<lambda>s. chain_id s = cid \<and> signing_key_public C s = Some pub) r")
  case None
  then show ?thesis using assms None [unfolded take_first_None] by (auto simp: remove_state_def)
next
  case (Some y)
  then have e: "e = Some (fst y)" and y: "take_first (\<lambda>s. chain_id s = cid \<and> signing_key_public C s = Some pub) r = Some (fst y, r1)"
    using assms(1) by (auto simp: remove_state_def split: prod.splits)
  have "chain_id (fst y) = cid" "fst y \<in> set r"
    using take_first_mset [OF y] by (simp_all flip: set_mset_mset)
  then show ?thesis
    using assms(2) by (auto simp: e record_ok_def distinct_map dest: inj_onD)
qed

lemma get_sender_key_frame:
  "get_sender_key C st i = Inr (k, st') \<Longrightarrow> sk_id st' = sk_id st \<and> sk_signing st' = sk_signing st"
proof -
  have adv: "advance C i chain st = Inr (chain', st') \<Longrightarrow> sk_id st' = sk_id st \<and> sk_signing st' = sk_signing st"
    for chain chain' st st'
  proof (induction C i chain st arbitrary: chain' st' rule: advance.induct)
    case (1 C i chain st)
    show ?case
      using 1(2) by (subst (asm) advance.simps)
        (auto simp: rbind_eq_Inr add_sender_message_key_def Let_def split: if_splits dest!: 1(1))
  qed
  assume "get_sender_key C st i = Inr (k, st')"
  then show ?thesis
    by (auto simp: get_sender_key_def remove_sender_message_key_def rbind_eq_Inr rmap_eq_Inr Let_def
        set_sender_chain_key_def split: if_splits option.splits prod.splits dest!: adv)
qed

definition codec_laws :: "('p, 's) group_crypto \<Rightarrow> bool" where
  \<comment> \<open>decryption undoes encryption, and the codec reads what it wrote\<close>
  "codec_laws C \<longleftrightarrow>
     cbc_laws (g_cbc C)
     \<and> (\<forall>i it ct. decode_skm C (encode_skm C i it ct) = Some (Some i, Some it, Some ct))
     \<and> (\<forall>i it ck sk. decode_skdm C (encode_skdm C i it ck sk) = Some (Some i, Some it, Some ck, Some sk)
           \<and> length ck + length sk \<le> length (encode_skdm C i it ck sk))"

definition signs_for :: "('p, 's) group_crypto \<Rightarrow> public_key \<Rightarrow> private_key \<Rightarrow> bool" where
  "signs_for C pub priv \<longleftrightarrow> curve_laws (g_curve C) \<and> signature_laws (g_curve C) \<and> private_ok (g_curve C) priv
     \<and> pub = private_public_key (g_curve C) priv"

lemma signs_for_verifies:
  assumes "signs_for C pub priv"
  shows "length (private_sign (g_curve C) priv msg rnd) = 64"
    "public_verify (g_curve C) pub msg (private_sign (g_curve C) priv msg rnd)"
  using assms sign_verify [where K = "g_curve C" and s = priv and rnd = rnd and message = msg] by (simp_all add: signs_for_def)

lemma skm_roundtrip:
  assumes "codec_laws C" "signs_for C pub priv" "skm_new C 3 cid it ct rnd priv = Inr m"
  shows "skm_try_from C (skm_serialized m) = Inr m" "verify_signature C pub m = Inr True"
proof -
  define sig where "sig = private_sign (g_curve C) priv [51 # encode_skm C cid it ct] rnd"
  note sig_ok = signs_for_verifies [OF assms(2), where msg = "[51 # encode_skm C cid it ct]" and rnd = rnd, folded sig_def]
  have m: "m = \<lparr>skm_version = 3, skm_chain_id = cid, skm_iteration = it, skm_ciphertext = ct,
            skm_serialized = 51 # encode_skm C cid it ct @ sig\<rparr>"
    using assms(3) by (simp add: skm_new_def sig_def)
  show "skm_try_from C (skm_serialized m) = Inr m"
    using assms(1) sig_ok
    by (simp add: m skm_try_from_def codec_laws_def SIGNATURE_LEN_def SENDERKEY_MESSAGE_CURRENT_VERSION_def)
  show "verify_signature C pub m = Inr True"
    using sig_ok by (simp add: m verify_signature_def SIGNATURE_LEN_def Let_def)
qed

lemma group_decrypt_facts:
  assumes "group_decrypt C bs store name = Inr (p, store')" "store name = Some r"
  shows "\<exists>m st k st'. skm_try_from C bs = Inr m \<and> sender_key_state_for_chain_id (skm_chain_id m) r = Some st
    \<and> get_sender_key C st (skm_iteration m) = Inr (k, st')
    \<and> store' = store(name \<mapsto> update_first (\<lambda>s. chain_id s = skm_chain_id m) st' r)"
proof -
  obtain m where m: "skm_try_from C bs = Inr m"
    using assms(1) by (cases "skm_try_from C bs") (simp_all add: group_decrypt_def)
  obtain st where st: "sender_key_state_for_chain_id (skm_chain_id m) r = Some st"
    using assms by (cases "sender_key_state_for_chain_id (skm_chain_id m) r") (simp_all add: group_decrypt_def m)
  obtain pub where pub: "signing_key_public C st = Some pub"
    using assms by (cases "signing_key_public C st") (simp_all add: group_decrypt_def m st split: if_splits)
  have v: "verify_signature C pub m = Inr True"
    using assms by (cases "verify_signature C pub m") (simp_all add: group_decrypt_def m st pub split: if_splits)
  obtain x where "get_sender_key C st (skm_iteration m) = Inr x"
    using assms by (cases "get_sender_key C st (skm_iteration m)") (simp_all add: group_decrypt_def m st pub v split: if_splits)
  then obtain k st' where g: "get_sender_key C st (skm_iteration m) = Inr (k, st')"
    by (cases x) simp
  then have "store' = store(name \<mapsto> update_first (\<lambda>s. chain_id s = skm_chain_id m) st' r)"
    using assms by (simp add: group_decrypt_def m st pub v split: if_splits sum.splits fail.splits decryption_error.splits)
  with m st g show ?thesis by blast
qed

lemma group_decrypt_new:
  assumes "codec_laws C" "signs_for C pub priv" "skm_new C 3 cid i ct rnd priv = Inr m"
    and "store name = Some r" "sender_key_state_for_chain_id cid r = Some st" "signing_key_public C st = Some pub"
    and "get_sender_key C st i = Inr (k, st')" "aes_256_cbc_decrypt_into (g_cbc C) ct (smk_cipher_key k) (smk_iv k) = Inr p"
  shows "group_decrypt C (skm_serialized m) store name = Inr (p, store(name \<mapsto> update_first (\<lambda>s. chain_id s = cid) st' r))"
proof -
  have "skm_version m = 3" "skm_chain_id m = cid" "skm_iteration m = i" "skm_ciphertext m = ct"
    using assms(3) by (auto simp: skm_new_def Let_def)
  then show ?thesis
    using skm_roundtrip [OF assms(1-3)] assms(4-8) by (simp add: group_decrypt_def message_version_def)
qed

text \<open>What a message's encryption and decryption do at both ends.\<close>

lemma message_decrypts:
  assumes "group_laws C" "codec_laws C" "signs_for C pub priv"
    and "sender name = Some (st # rest)" "holds C b seed i js st" "signing_key_private C st = Some priv"
    and "group_encrypt C rnd sender name plaintext = Inr (m, sender')"
    and "receiver grp = Some r" "sender_key_state_for_chain_id (chain_id st) r = Some rt" "holds C b seed c is rt"
    and "signing_key_public C rt = Some pub" "i \<in> set is \<or> c \<le> i \<and> i \<le> c + 25000"
  shows "\<exists>rt'. get_sender_key C rt (of_nat i) = Inr (key_at C b seed i, rt')
    \<and> group_decrypt C (skm_serialized m) receiver grp
      = Inr (plaintext, receiver(grp \<mapsto> update_first (\<lambda>s. chain_id s = chain_id st) rt' r))"
proof -
  have i: "b \<le> i" "i < 2 ^ 32"
    using assms(5) by (simp_all add: holds_def)
  obtain ct where ct: "aes_256_cbc_encrypt_into (g_cbc C) plaintext (smk_cipher_key (key_at C b seed i)) (smk_iv (key_at C b seed i)) [] = Inr ct"
      "skm_new C 3 (chain_id st) (of_nat i) ct rnd priv = Inr m" "i + 1 < 2 ^ 32"
    using assms(4,6,7) holds_chain [OF assms(1,5)] chain_steps [OF assms(1) i, of seed]
    by (auto simp: group_encrypt_def current_state_def rbind_eq_Inr message_version_def key_at_def Let_def split: if_splits)
  have "\<exists>rt'. get_sender_key C rt (of_nat i) = Inr (key_at C b seed i, rt')"
  proof (cases "i < c")
    case True
    then show ?thesis using holds_stored [OF assms(1,10) True] assms(12) by auto
  next
    case False
    then have "i \<notin> set is" using assms(10) by (auto simp: holds_def)
    then show ?thesis
      using False holds_ahead [OF assms(1,10) _ i(2)] assms(12) ct(3) by (auto simp: MAX_FORWARD_JUMPS_def)
  qed
  then obtain rt' where "get_sender_key C rt (of_nat i) = Inr (key_at C b seed i, rt')"
    by blast
  moreover have "aes_256_cbc_decrypt_into (g_cbc C) ct (smk_cipher_key (key_at C b seed i)) (smk_iv (key_at C b seed i)) = Inr plaintext"
    using assms(2) cbc_roundtrip [OF _ ct(1)] by (simp add: codec_laws_def)
  ultimately show ?thesis
    using group_decrypt_new [of C pub priv "chain_id st" "of_nat i" ct rnd m receiver grp r rt, OF assms(2,3) ct(2) assms(8,9,11)] by blast
qed

lemma group_encrypt_step:
  assumes "group_laws C" "store name = Some (st # rest)" "holds C b seed i js st" "group_encrypt C rnd store name p = Inr (m, store')"
  shows "\<exists>st'. store' = store(name \<mapsto> st' # rest) \<and> holds C b seed (i + 1) js st' \<and> sk_id st' = sk_id st \<and> sk_signing st' = sk_signing st"
proof -
  have i: "b \<le> i" "i < 2 ^ 32" using assms(3) by (simp_all add: holds_def)
  obtain chain where chain: "sck_next C \<lparr>sck_iteration = of_nat i, sck_key = chain_at C seed (i - b)\<rparr> = Inr chain"
      "store' = store(name \<mapsto> set_sender_chain_key chain st # rest)"
    using assms(2,4) holds_chain [OF assms(1,3)]
    by (auto simp: group_encrypt_def current_state_def rbind_eq_Inr Let_def)
  then have "i + 1 < 2 ^ 32" "chain = \<lparr>sck_iteration = of_nat (i + 1), sck_key = chain_at C seed (i + 1 - b)\<rparr>"
    using chain_steps(2) [OF assms(1) i, of seed] by (simp_all split: if_splits)
  then have "holds C b seed (i + 1) js (set_sender_chain_key chain st)"
    using assms(3) by (auto simp: holds_def set_sender_chain_key_def intro: less_SucI)
  with chain(2) show ?thesis by (auto simp: set_sender_chain_key_def)
qed

section \<open>Many messages\<close>

fun group_encrypt_all ::
    "('p, 's) group_crypto \<Rightarrow> bytes \<Rightarrow> key_store \<Rightarrow> string \<Rightarrow> bytes list \<Rightarrow> (sender_key_message list \<times> key_store) sres" where
  "group_encrypt_all C rnd store name [] = Inr ([], store)"
| "group_encrypt_all C rnd store name (p # ps) =
     rbind (group_encrypt C rnd store name p) (\<lambda>(m, store).
     rmap (\<lambda>(ms, store). (m # ms, store)) (group_encrypt_all C rnd store name ps))"

fun group_decrypt_all ::
    "('p, 's) group_crypto \<Rightarrow> key_store \<Rightarrow> string \<Rightarrow> bytes list \<Rightarrow> (bytes list \<times> key_store) sres" where
  "group_decrypt_all C store name [] = Inr ([], store)"
| "group_decrypt_all C store name (m # ms) =
     rbind (group_decrypt C m store name) (\<lambda>(p, store).
     rmap (\<lambda>(ps, store). (p # ps, store)) (group_decrypt_all C store name ms))"

lemma group_encrypt_all_at:
  assumes "group_laws C" "store name = Some (st # rest)" "holds C b seed i js st"
    and "group_encrypt_all C rnd store name ps = Inr (ms, store')" "n < length ps"
  shows "\<exists>store st' store'. store name = Some (st' # rest) \<and> holds C b seed (i + n) js st' \<and> sk_id st' = sk_id st
    \<and> sk_signing st' = sk_signing st \<and> group_encrypt C rnd store name (ps ! n) = Inr (ms ! n, store')"
  using assms(2-5)
proof (induction ps arbitrary: store st i ms n)
  case (Cons p ps)
  obtain m store1 ms1 where m: "group_encrypt C rnd store name p = Inr (m, store1)" "ms = m # ms1"
      "group_encrypt_all C rnd store1 name ps = Inr (ms1, store')"
    using Cons.prems(3) by (auto simp: rbind_eq_Inr rmap_eq_Inr)
  obtain st1 where st1: "store1 = store(name \<mapsto> st1 # rest)" "holds C b seed (i + 1) js st1" "sk_id st1 = sk_id st"
      "sk_signing st1 = sk_signing st"
    using group_encrypt_step [OF assms(1) Cons.prems(1,2) m(1)] by blast
  show ?case
  proof (cases n)
    case 0
    then show ?thesis using Cons.prems(1,2) m by auto
  next
    case (Suc k)
    have "store1 name = Some (st1 # rest)" using st1(1) by simp
    from Cons.IH [OF this st1(2) m(3), of k] show ?thesis
      using Cons.prems(4) Suc st1(3,4) m(2) by simp
  qed
qed simp

lemma group_decrypt_in_any_order:
  assumes laws: "group_laws C" "codec_laws C" "signs_for C pub priv"
    and sent: "\<And>n. n < N \<Longrightarrow> \<exists>sender st rest js sender'. sender name = Some (st # rest) \<and> holds C 0 seed n js st \<and> chain_id st = cid
      \<and> signing_key_private C st = Some priv \<and> group_encrypt C rnd sender name (ps ! n) = Inr (ms ! n, sender')"
    and "N \<le> 2000"
    and "receiver grp = Some [rt]" "chain_id rt = cid" "signing_key_public C rt = Some pub" "holds C 0 seed c is rt"
    and "set is = {..<c} - D" "D \<subseteq> {..<c}" "c \<le> N" "distinct ns" "set ns \<subseteq> {..<N} - D"
  shows "\<exists>receiver'. group_decrypt_all C receiver grp (map (\<lambda>n. skm_serialized (ms ! n)) ns) = Inr (map ((!) ps) ns, receiver')"
  using assms(6-)
proof (induction ns arbitrary: receiver rt c "is" D)
  case (Cons n ns)
  have n: "n < N" "n \<notin> D" "n < 2 ^ 32" using Cons.prems(9) \<open>N \<le> 2000\<close> by auto
  obtain sender st rest js sender' where s: "sender name = Some (st # rest)" "holds C 0 seed n js st" "chain_id st = cid"
      "signing_key_private C st = Some priv" "group_encrypt C rnd sender name (ps ! n) = Inr (ms ! n, sender')"
    using sent [OF n(1)] by blast
  have look: "sender_key_state_for_chain_id (chain_id st) [rt] = Some rt"
    using Cons.prems(2) s(3) by (simp add: sender_key_state_for_chain_id_def)
  have range: "n \<in> set is \<or> c \<le> n \<and> n \<le> c + 25000"
  proof (cases "n < c")
    case True
    then show ?thesis using n(2) by (simp add: Cons.prems(5))
  next
    case False
    then show ?thesis using n(1) \<open>N \<le> 2000\<close> by simp
  qed
  obtain rt' where rt'': "get_sender_key C rt (of_nat n) = Inr (key_at C 0 seed n, rt')"
      "group_decrypt C (skm_serialized (ms ! n)) receiver grp
       = Inr (ps ! n, receiver(grp \<mapsto> update_first (\<lambda>s. chain_id s = chain_id st) rt' [rt]))"
    using message_decrypts [where C = C and pub = pub and priv = priv and sender = sender and name = name and st = st and rest = rest
      and b = 0 and seed = seed and i = n and js = js and rnd = rnd and plaintext = "ps ! n" and m = "ms ! n" and sender' = sender'
      and receiver = receiver and grp = grp and r = "[rt]" and rt = rt and c = c,
      OF laws s(1,2,4,5) Cons.prems(1) look Cons.prems(4,3) range] by blast
  then have rt': "get_sender_key C rt (of_nat n) = Inr (key_at C 0 seed n, rt')"
      "group_decrypt C (skm_serialized (ms ! n)) receiver grp = Inr (ps ! n, receiver(grp \<mapsto> [rt']))"
    using Cons.prems(2) s(3) by simp_all
  have frame: "chain_id rt' = cid" "signing_key_public C rt' = Some pub"
    using get_sender_key_frame [OF rt'(1)] Cons.prems(2,3) by (simp_all add: chain_id_def signing_key_public_def)
  have "\<exists>c' is'. holds C 0 seed c' is' rt' \<and> set is' = {..<c'} - insert n D \<and> insert n D \<subseteq> {..<c'} \<and> c' \<le> N"
  proof (cases "n < c")
    case True
    then have "holds C 0 seed c (remove1 n is) rt'" "distinct is"
      using get_sender_key_holds [OF laws(1) Cons.prems(4) rt'(1) n(3)] Cons.prems(4) by (auto simp: holds_def)
    then show ?thesis using Cons.prems(5-7) True by (intro exI [of _ c] exI [of _ "remove1 n is"]) auto
  next
    case False
    have "distinct is" "\<forall>i\<in>set is. i < c" using Cons.prems(4) by (auto simp: holds_def)
    then have "distinct (is @ [c..<n])" "set (is @ [c..<n]) \<subseteq> {..<n}" using False by auto
    then have "length (is @ [c..<n]) \<le> n"
      by (metis card_lessThan card_mono distinct_card finite_lessThan)
    then have "keep (is @ [c..<n]) = is @ [c..<n]"
      using n(1) \<open>N \<le> 2000\<close> by (simp add: keep_def MAX_MESSAGE_KEYS_def)
    then have "holds C 0 seed (n + 1) (is @ [c..<n]) rt'"
      using get_sender_key_holds [OF laws(1) Cons.prems(4) rt'(1) n(3)] False by simp
    moreover have "set (is @ [c..<n]) = {..<n + 1} - insert n D" "insert n D \<subseteq> {..<n + 1}"
      using Cons.prems(5,6) False by auto
    ultimately show ?thesis using n(1) by (intro exI [of _ "n + 1"] exI [of _ "is @ [c..<n]"]) auto
  qed
  then obtain c' is' where h: "holds C 0 seed c' is' rt'" "set is' = {..<c'} - insert n D" "insert n D \<subseteq> {..<c'}" "c' \<le> N"
    by blast
  have "\<exists>r. group_decrypt_all C (receiver(grp \<mapsto> [rt'])) grp (map (\<lambda>n. skm_serialized (ms ! n)) ns) = Inr (map ((!) ps) ns, r)"
    by (rule Cons.IH [OF _ frame h]) (use Cons.prems(8,9) in auto)
  with rt'(2) show ?case by auto
qed simp

section \<open>Properties\<close>

text \<open>An instance of the parameters, and a state at the start of its chain.\<close>

definition toy_group :: "(4 word, 4 word) group_crypto" where
  "toy_group = \<lparr>g_hkdf = \<lambda>_ _ _ n. Some (replicate n 0), g_hmac = \<lambda>_ _. replicate 32 0,
     g_cbc = toy_cbc,
     g_curve = toy_curve,
     encode_skm = \<lambda>i it ct. u32_to_be i @ u32_to_be it @ ct,
     decode_skm = \<lambda>bs. Some (Some (u32_from_be (bs ! 0) (bs ! 1) (bs ! 2) (bs ! 3)),
                              Some (u32_from_be (bs ! 4) (bs ! 5) (bs ! 6) (bs ! 7)), Some (drop 8 bs)),
     encode_skdm = \<lambda>i it ck sk. u32_to_be i @ u32_to_be it @ toy_pack ck @ sk,
     decode_skdm = \<lambda>bs.
       Some (Some (u32_from_be (bs ! 0) (bs ! 1) (bs ! 2) (bs ! 3)), Some (u32_from_be (bs ! 4) (bs ! 5) (bs ! 6) (bs ! 7)),
             Some (fst (toy_unpack (drop 8 bs))), Some (snd (toy_unpack (drop 8 bs))))\<rparr>"

definition toy_state :: sender_key_state where
  "toy_state = \<lparr>sk_id = Some 7, sk_chain = Some (Some 0, Some (replicate 32 0)),
     sk_signing = Some (Some (5 # replicate 32 6), Some (replicate 32 6)), sk_message_keys = []\<rparr>"

lemma toy_group_laws:
  "group_laws toy_group" "codec_laws toy_group"
  "signs_for toy_group (DjbPublicKey (replicate 32 6)) (DjbPrivateKey (replicate 32 6))"
proof -
  show "group_laws toy_group" "codec_laws toy_group"
    by (simp_all add: group_laws_def codec_laws_def hkdf_expands_def toy_group_def u32_to_be_def u32_be_roundtrip toy_cbc_laws)
  have "g_curve toy_group = toy_curve" by (simp add: toy_group_def)
  then show "signs_for toy_group (DjbPublicKey (replicate 32 6)) (DjbPrivateKey (replicate 32 6))"
    using toy_curve_laws by (simp add: signs_for_def toy_curve_keys)
qed

lemma toy_holds: "holds toy_group 0 (replicate 32 0) 0 [] toy_state"
  by (simp add: holds_def toy_state_def chain_at_def)

text \<open>A receiver at iteration c of a chain that kept the message keys of some earlier
  iterations answers a request for iteration i as follows. Below c it returns the kept key and forgets it,
  or reports a duplicate. From c on it refuses a jump of more than 25000 and the last iteration
  number; otherwise it returns the key of iteration i, moves to i + 1 and keeps the skipped keys, at most the
  newest 2000. Every key returned is the one the chain has at that iteration.\<close>

theorem sender_key_lookup:
  assumes "group_laws C" "holds C b seed c is st" "i < 2 ^ 32"
  shows "if i < c then
      (if i \<in> set is
       then \<exists>st'. get_sender_key C st (of_nat i) = Inr (key_at C b seed i, st') \<and> holds C b seed c (remove1 i is) st'
       else get_sender_key C st (of_nat i) = Throw (DuplicatedMessage (of_nat c) (of_nat i)))
    else if i - c > 25000 then get_sender_key C st (of_nat i) = Throw (InvalidMessage SenderKey)
    else if i + 1 = 2 ^ 32 then get_sender_key C st (of_nat i) = Throw InvalidState
    else \<exists>st'. get_sender_key C st (of_nat i) = Inr (key_at C b seed i, st')
           \<and> holds C b seed (i + 1) (drop (length (is @ [c..<i]) - 2000) (is @ [c..<i])) st'"
proof (cases "i < c")
  case True
  then show ?thesis
    using holds_stored [OF assms(1,2) True] get_sender_key_holds [OF assms(1,2) _ assms(3)] by auto
next
  case False
  then have "c \<le> i" by simp
  note ahead = holds_ahead [OF assms(1,2) this assms(3), unfolded MAX_FORWARD_JUMPS_def]
  show ?thesis
  proof (cases "i - c > 25000 \<or> i + 1 = 2 ^ 32")
    case True
    with False ahead show ?thesis by (elim disjE) presburger+
  next
    case ok: False
    then obtain st' where st': "get_sender_key C st (of_nat i) = Inr (key_at C b seed i, st')"
      using ahead by simp
    have "holds C b seed (i + 1) (keep (is @ [c..<i])) st'"
      using get_sender_key_holds [OF assms(1,2) st' assms(3)] False by simp
    then show ?thesis
      using False ok st' unfolding keep_def MAX_MESSAGE_KEYS_def by (simp only: if_False de_Morgan_disj) blast
  qed
qed

text \<open>However requests are ordered and repeated, a receiver hands out the message key of an
  iteration at most once.\<close>

theorem sender_keys_once:
  assumes "group_laws C" "holds C b seed c is st"
  shows "distinct (serve (get_sender_key C) st requests)"
  using sk.served_once [of C b seed st requests] assms by (auto simp: on_chain_def)

text \<open>C23: After a group message was decrypted, decrypting the same bytes again fails.\<close>

theorem group_replay_rejected:
  assumes "group_laws C" "store name = Some r"
    and "\<And>st. st \<in> set r \<Longrightarrow> \<exists>b seed c is. holds C b seed c is st"
    and "group_decrypt C bs store name = Inr (p, store')"
  shows "group_decrypt C bs store' name \<noteq> Inr x"
proof -
  obtain m st k st' where m: "skm_try_from C bs = Inr m" "sender_key_state_for_chain_id (skm_chain_id m) r = Some st"
      "get_sender_key C st (skm_iteration m) = Inr (k, st')"
      "store' = store(name \<mapsto> update_first (\<lambda>s. chain_id s = skm_chain_id m) st' r)"
    using group_decrypt_facts [OF assms(4,2)] by blast
  have st: "st \<in> set r" "chain_id st = skm_chain_id m"
    using m(2) by (auto simp: sender_key_state_for_chain_id_def find_Some_iff)
  then obtain b seed where chain: "on_chain C b seed st"
    using assms(1,3) unfolding on_chain_def by blast
  have "chain_id st' = skm_chain_id m"
    using get_sender_key_frame [OF m(3)] st(2) by (simp add: chain_id_def)
  then have found: "sender_key_state_for_chain_id (skm_chain_id m) (update_first (\<lambda>s. chain_id s = skm_chain_id m) st' r) = Some st'"
    using m(2) by (simp add: sender_key_state_for_chain_id_def find_update_first)
  have "get_sender_key C st' (skm_iteration m) \<noteq> Inr (k', st'')" for k' st''
    using sk.spent_refused [OF sk.request_valid [OF chain m(3)] sk.request_spends [OF chain m(3)]] .
  moreover have "store' name = Some (update_first (\<lambda>s. chain_id s = skm_chain_id m) st' r)"
    by (simp add: m(4))
  ultimately show ?thesis
    using group_decrypt_facts [of C bs store' name "fst x" "snd x"] m(1) found by fastforce
qed

lemma toy_encrypts: "\<exists>m s. group_encrypt toy_group [1] [''g'' \<mapsto> [toy_state]] ''g'' [1, 2] = Inr (m, s)"
  by (simp add: group_encrypt_def current_state_def state_chain_key_def toy_state_def sck_message_key_def smk_new_def
      toy_group_def signing_key_private_def skm_new_def sck_next_def Let_def private_deserialize_def toy_curve_keys
      aes_256_cbc_encrypt_into_def)

lemma toy_lookup:
  "sender_key_state_for_chain_id 7 [toy_state] = Some toy_state" "chain_id toy_state = 7"
  "signing_key_public toy_group toy_state = Some (DjbPublicKey (replicate 32 6))" "signing_key_private toy_group toy_state = Some (DjbPrivateKey (replicate 32 6))"
  by (simp_all add: sender_key_state_for_chain_id_def chain_id_def signing_key_private_def signing_key_public_def
      toy_state_def toy_group_def private_deserialize_def public_deserialize_def key_type_try_from_def toy_curve_keys)

lemma toy_decrypts:
  assumes "group_encrypt toy_group [1] [''g'' \<mapsto> [toy_state]] ''g'' [1, 2] = Inr (m, s)"
  shows "\<exists>r. group_decrypt toy_group (skm_serialized m) [''g'' \<mapsto> [toy_state]] ''g'' = Inr ([1, 2], r)"
proof -
  have st: "[''g'' \<mapsto> [toy_state]] ''g'' = Some [toy_state]" by simp
  show ?thesis
    using message_decrypts [where sender = "[''g'' \<mapsto> [toy_state]]" and name = "''g''" and receiver = "[''g'' \<mapsto> [toy_state]]" and grp = "''g''",
      OF toy_group_laws st toy_holds toy_lookup(4) assms st _ toy_holds toy_lookup(3)] toy_lookup(1,2)
    by auto
qed

theorem group_replay_rejected_witness:
  "\<exists>m s p r. group_encrypt toy_group [1] [''g'' \<mapsto> [toy_state]] ''g'' [1, 2] = Inr (m, s)
     \<and> group_decrypt toy_group (skm_serialized m) [''g'' \<mapsto> [toy_state]] ''g'' = Inr (p, r)
     \<and> (\<forall>x. group_decrypt toy_group (skm_serialized m) r ''g'' \<noteq> Inr x)"
proof -
  obtain m s where m: "group_encrypt toy_group [1] [''g'' \<mapsto> [toy_state]] ''g'' [1, 2] = Inr (m, s)"
    using toy_encrypts by blast
  obtain r where r: "group_decrypt toy_group (skm_serialized m) [''g'' \<mapsto> [toy_state]] ''g'' = Inr ([1, 2], r)"
    using toy_decrypts [OF m] by blast
  have h: "\<exists>b seed c is. holds toy_group b seed c is toy_state"
    using toy_holds by blast
  have "group_decrypt toy_group (skm_serialized m) r ''g'' \<noteq> Inr x" for x
    by (rule group_replay_rejected [OF toy_group_laws(1) _ _ r, of "[toy_state]"]) (simp_all add: h)
  with m r show ?thesis by blast
qed

lemma skdm_roundtrip:
  assumes "codec_laws C" "public_ok pub" "length key = 32"
  shows "skdm_try_from C (skdm_serialized (skdm_new C 3 cid it key pub)) = Inr (skdm_new C 3 cid it key pub)"
proof -
  have "length (public_serialize pub) = 33"
    using assms(2) by (cases pub) simp
  moreover have "length key + length (public_serialize pub) \<le> length (encode_skdm C cid it key (public_serialize pub))"
    using assms(1) unfolding codec_laws_def by blast
  ultimately show ?thesis
    using assms by (simp add: skdm_try_from_def skdm_new_def codec_laws_def SENDERKEY_MESSAGE_CURRENT_VERSION_def)
qed

text \<open>C24: A sender creates its key for a group and sends the distribution message, then at most 2000 messages. A
  receiver that parses and processes the distribution message decrypts every one of the messages that reaches it, each once, in
  whatever order they arrive and whichever are lost, to the plaintext that was sent.\<close>

theorem group_delivery:
  assumes "group_laws C" "codec_laws C" "curve_laws (g_curve C)" "signature_laws (g_curve C)"
    and "length seed = 32" "pair_ok (g_curve C) kp"
    and "sender name = None" "create_sender_key_distribution_message C name random seed kp sender = Inr (d, sender1)"
    and "group_encrypt_all C rnd sender1 name ps = Inr (ms, sender2)"
    and "receiver grp = None" "length ps \<le> 2000" "distinct ns" "\<forall>n \<in> set ns. n < length ps"
  shows "\<exists>d' receiver1 receiver2. skdm_try_from C (skdm_serialized d) = Inr d'
    \<and> process_sender_key_distribution_message C grp d' receiver = Inr receiver1
    \<and> group_decrypt_all C receiver1 grp (map (\<lambda>n. skm_serialized (ms ! n)) ns) = Inr (map ((!) ps) ns, receiver2)"
proof -
  obtain pub priv where kp: "kp = \<lparr>kp_public = pub, kp_private = priv\<rparr>" by (cases kp)
  have pub: "public_ok pub" "private_ok (g_curve C) priv" "signs_for C pub priv"
    using assms(3,4,6) pair_public_ok [OF assms(3,6)] by (auto simp: kp pair_ok_def signs_for_def)
  define cid where "cid = drop_bit 1 random"
  let ?state = "\<lambda>priv. \<lparr>sk_id = Some cid, sk_chain = Some (Some 0, Some seed),
      sk_signing = Some (Some (public_serialize pub), priv), sk_message_keys = []\<rparr>"
  have add: "add_sender_key_state C cid 0 seed pub priv' [] = Inr [?state (map_option private_serialize priv')]" for priv'
    using assms(5) by (simp add: add_sender_key_state_def remove_state_def remove_states_with_chain_id_def sks_new_def)
  define st where "st = ?state (Some (private_serialize priv))"
  define rt where "rt = ?state None"
  have created: "sender1 = sender(name \<mapsto> [st])" "d = skdm_new C 3 cid 0 seed pub"
    using assms(5,7,8) pub(1) unfolding create_sender_key_distribution_message_def cid_def [symmetric]
    by (auto simp: kp add st_def current_state_def state_chain_key_def
        signing_key_public_def message_version_def chain_id_def)
  have processed: "process_sender_key_distribution_message C grp d receiver = Inr (receiver(grp \<mapsto> [rt]))"
    using assms(10) by (simp add: process_sender_key_distribution_message_def created skdm_new_def add rt_def)
  have hold: "holds C 0 seed 0 [] st" "holds C 0 seed 0 [] rt"
    using assms(5) by (simp_all add: holds_def st_def rt_def chain_at_def)
  have keys: "signing_key_private C st = Some priv" "signing_key_public C rt = Some pub" "chain_id rt = chain_id st"
    using pub by (simp_all add: st_def rt_def signing_key_private_def signing_key_public_def chain_id_def)
  have sent: "\<exists>s st' rest js s'. s name = Some (st' # rest) \<and> holds C 0 seed n js st' \<and> chain_id st' = chain_id st
      \<and> signing_key_private C st' = Some priv \<and> group_encrypt C rnd s name (ps ! n) = Inr (ms ! n, s')" if n: "n < length ps" for n
  proof -
    have "sender1 name = Some (st # [])" by (simp add: created)
    from group_encrypt_all_at [OF assms(1) this hold(1) assms(9) n] obtain s st' s' where
      "s name = Some [st']" "holds C 0 seed n [] st'" "sk_id st' = sk_id st" "sk_signing st' = sk_signing st"
      "group_encrypt C rnd s name (ps ! n) = Inr (ms ! n, s')" by auto
    then show ?thesis
      using keys(1) unfolding chain_id_def signing_key_private_def by metis
  qed
  have "\<exists>r. group_decrypt_all C (receiver(grp \<mapsto> [rt])) grp (map (\<lambda>n. skm_serialized (ms ! n)) ns) = Inr (map ((!) ps) ns, r)"
    by (rule group_decrypt_in_any_order [OF assms(1,2) pub(3) sent assms(11) _ keys(3,2) hold(2), where D = "{}"])
       (use assms(12,13) in auto)
  then show ?thesis
    using processed skdm_roundtrip [OF assms(2) pub(1) assms(5)] created(2) by auto
qed

definition toy_pair :: key_pair where
  "toy_pair = \<lparr>kp_public = DjbPublicKey (replicate 32 6), kp_private = DjbPrivateKey (replicate 32 6)\<rparr>"

lemma toy_created:
  "\<exists>d. create_sender_key_distribution_message toy_group ''g'' 14 (replicate 32 0) toy_pair Map.empty = Inr (d, [''g'' \<mapsto> [toy_state]])"
proof -
  have "add_sender_key_state toy_group 7 0 (replicate 32 0) (DjbPublicKey (replicate 32 6)) (Some (DjbPrivateKey (replicate 32 6))) []
      = Inr [toy_state]"
    by (simp add: add_sender_key_state_def remove_state_def remove_states_with_chain_id_def sks_new_def toy_state_def)
  moreover have "state_chain_key toy_state = Some \<lparr>sck_iteration = 0, sck_key = replicate 32 0\<rparr>"
    by (simp add: state_chain_key_def toy_state_def)
  moreover have "drop_bit 1 (14 :: u32) = 7" by simp
  ultimately show ?thesis
    unfolding create_sender_key_distribution_message_def by (simp add: toy_pair_def current_state_def toy_lookup)
qed

lemma toy_encrypts_all: "\<exists>ms s. group_encrypt_all toy_group [1] [''g'' \<mapsto> [toy_state]] ''g'' [[1], [2], [3]] = Inr (ms, s)"
  by (simp add: group_encrypt_def current_state_def state_chain_key_def toy_state_def sck_message_key_def smk_new_def
      toy_group_def signing_key_private_def skm_new_def sck_next_def Let_def message_version_def chain_id_def
      private_deserialize_def toy_curve_keys set_sender_chain_key_def get_derivative_def aes_256_cbc_encrypt_into_def)

theorem group_delivery_witness:
  "\<exists>d d' s ms s' r r'. create_sender_key_distribution_message toy_group ''g'' 14 (replicate 32 0) toy_pair Map.empty = Inr (d, s)
    \<and> group_encrypt_all toy_group [1] s ''g'' [[1], [2], [3]] = Inr (ms, s')
    \<and> skdm_try_from toy_group (skdm_serialized d) = Inr d'
    \<and> process_sender_key_distribution_message toy_group ''h'' d' Map.empty = Inr r
    \<and> group_decrypt_all toy_group r ''h'' (map (\<lambda>n. skm_serialized (ms ! n)) [2, 0]) = Inr ([[3], [1]], r')"
proof -
  obtain d where d: "create_sender_key_distribution_message toy_group ''g'' 14 (replicate 32 0) toy_pair Map.empty = Inr (d, [''g'' \<mapsto> [toy_state]])"
    using toy_created by blast
  obtain ms s' where ms: "group_encrypt_all toy_group [1] [''g'' \<mapsto> [toy_state]] ''g'' [[1], [2], [3]] = Inr (ms, s')"
    using toy_encrypts_all by blast
  have curve: "g_curve toy_group = toy_curve" by (simp add: toy_group_def)
  have pair: "pair_ok (g_curve toy_group) toy_pair"
    by (simp add: pair_ok_def toy_pair_def curve toy_curve_keys)
  have "\<exists>d' r r'. skdm_try_from toy_group (skdm_serialized d) = Inr d'
    \<and> process_sender_key_distribution_message toy_group ''h'' d' Map.empty = Inr r
    \<and> group_decrypt_all toy_group r ''h'' (map (\<lambda>n. skm_serialized (ms ! n)) [2, 0]) = Inr (map ((!) [[1], [2], [3]]) [2, 0], r')"
    by (rule group_delivery [OF toy_group_laws(1,2) toy_curve_laws [folded curve] _ pair _ d ms]) simp_all
  with d ms show ?thesis by auto
qed

text \<open>C25: Adding a sender key state keeps a record of at most five states with different chain
  identifiers; the added chain comes first. A state that the record already has for the chain and the
  signing key is kept as it is, whatever iteration and key the new one names, so that a repeated
  distribution message cannot rewind a chain.\<close>

theorem sender_key_states_bounded:
  assumes "record_ok r" "add_sender_key_state C cid it key pub priv r = Inr r'"
  shows "record_ok r' \<and> (\<exists>st rest. r' = st # rest \<and> chain_id st = cid
    \<and> (\<forall>old. old \<in> set r \<and> chain_id old = cid \<and> signing_key_public C old = Some pub \<longrightarrow> st = old))"
proof -
  obtain e r1 where e: "remove_state C cid pub r = (e, r1)"
    by fastforce
  note rest = added_rest [OF remove_state_ok [OF e assms(1)], where n = 4 and cid = cid]
  obtain st where r': "r' = st # take 4 (remove_states_with_chain_id cid r1)"
      "(case e of None \<Rightarrow> sks_new C cid it key pub priv | Some state \<Rightarrow> Inr state) = Inr st"
    using assms(2) by (auto simp: add_sender_key_state_def e rmap_eq_Inr MAX_SENDER_KEY_STATES_def)
  have st: "chain_id st = cid"
    "\<forall>old. old \<in> set r \<and> chain_id old = cid \<and> signing_key_public C old = Some pub \<longrightarrow> st = old"
    using r'(2) remove_state_first [OF e assms(1)]
    by (auto simp: sks_new_def chain_id_def split: option.splits if_splits)
  then show ?thesis
    using rest by (simp add: r'(1) record_ok_def MAX_SENDER_KEY_STATES_def)
qed

theorem sender_key_states_bounded_witness:
  "record_ok [toy_state]
   \<and> add_sender_key_state toy_group 7 9 (replicate 32 1) (DjbPublicKey (replicate 32 6)) None [toy_state] = Inr [toy_state]
   \<and> (\<exists>st rest. [toy_state] = st # rest \<and> chain_id st = 7
      \<and> (\<forall>old. old \<in> set [toy_state] \<and> chain_id old = 7 \<and> signing_key_public toy_group old = Some (DjbPublicKey (replicate 32 6)) \<longrightarrow> st = old))"
proof -
  have ok: "record_ok [toy_state]"
    by (simp add: record_ok_def MAX_SENDER_KEY_STATES_def)
  have add: "add_sender_key_state toy_group 7 9 (replicate 32 1) (DjbPublicKey (replicate 32 6)) None [toy_state] = Inr [toy_state]"
    by (simp add: add_sender_key_state_def remove_state_def toy_lookup remove_states_with_chain_id_def)
  from ok add sender_key_states_bounded [OF ok add] show ?thesis by blast
qed

end
