(* ===== verification/Ratchet.thy ===== *)
theory Ratchet
  imports Signal
begin

text \<open>
  The double ratchet of one session (\<^verbatim>\<open>ratchet.rs\<close>, \<^verbatim>\<open>ratchet/keys.rs\<close>, the session state of
  \<^verbatim>\<open>state/session.rs\<close>, the session messages of \<^verbatim>\<open>protocol.rs\<close> and the per-state part of
  \<^verbatim>\<open>session_cipher.rs\<close>, under \<^verbatim>\<open>warp_core/libsignal/src/protocol\<close>). Key derivation, the message
  code, the block cipher, the curve's arithmetic and the protobuf codec are the parameter record
  \<open>session_crypto\<close>; random bytes are arguments. An operation on a mutable state returns the state with
  its result, so that what a failed operation leaves behind is part of the model. Logging and the reusable
  buffers are not modelled; counters wrap, as in a release build.
\<close>

unbundle bit_operations_syntax

section \<open>Operations on a mutable state\<close>

type_synonym ('a, 's) st = "'s \<Rightarrow> 'a sres \<times> 's"

definition sbind :: "('a, 's) st \<Rightarrow> ('a \<Rightarrow> ('b, 's) st) \<Rightarrow> ('b, 's) st" where
  "sbind m f s = (case m s of (Inl e, s') \<Rightarrow> (Inl e, s') | (Inr x, s') \<Rightarrow> f x s')"

definition sread :: "('s \<Rightarrow> 'a sres) \<Rightarrow> ('a, 's) st" where
  "sread f s = (f s, s)"

definition slift :: "'a sres \<Rightarrow> ('a, 's) st" where
  "slift r s = (r, s)"

definition smodify :: "('s \<Rightarrow> 's) \<Rightarrow> (unit, 's) st" where
  "smodify f s = (Inr (), f s)"

section \<open>Parameters\<close>

record ('p, 's) session_crypto =
  s_hkdf :: hkdf
  s_hmac :: "bytes \<Rightarrow> bytes \<Rightarrow> bytes"
  s_cbc :: cbc
  s_curve :: "('p, 's) curve"
  encode_sm :: "bytes \<Rightarrow> u32 \<Rightarrow> u32 \<Rightarrow> bytes \<Rightarrow> bytes"
  decode_sm :: "bytes \<Rightarrow> (bytes option \<times> u32 option \<times> u32 option \<times> bytes option) option"
  encode_pksm :: "u32 \<Rightarrow> u32 option \<Rightarrow> u32 \<Rightarrow> bytes \<Rightarrow> bytes \<Rightarrow> bytes \<Rightarrow> bytes"
  decode_pksm :: "bytes \<Rightarrow> (u32 option \<times> u32 option \<times> u32 option \<times> bytes option \<times> bytes option \<times> bytes option) option"

section \<open>Keys\<close>

record message_keys =
  mk_cipher :: bytes
  mk_mac :: bytes
  mk_iv :: bytes
  mk_counter :: u32

definition derive_message_keys ::
    "('p, 's) session_crypto \<Rightarrow> bytes \<Rightarrow> bytes option \<Rightarrow> u32 \<Rightarrow> message_keys sres" where
  "derive_message_keys C input_key_material optional_salt counter =
     (case s_hkdf C optional_salt input_key_material (as_bytes ''WhisperMessageKeys'') 80 of
        None \<Rightarrow> Inl Panic
      | Some okm \<Rightarrow>
          Inr \<lparr>mk_cipher = take 32 okm, mk_mac = take 32 (drop 32 okm), mk_iv = take 16 (drop 64 okm), mk_counter = counter\<rparr>)"

datatype key_generator = Keys message_keys | Seed bytes u32

fun generate_keys :: "('p, 's) session_crypto \<Rightarrow> key_generator \<Rightarrow> message_keys sres" where
  "generate_keys C (Seed seed counter) = derive_message_keys C seed None counter"
| "generate_keys C (Keys k) = Inr k"

text \<open>The stored form of message keys, chains and sessions, with the optional fields of the protobuf
  messages.\<close>

record stored_message_key =
  smk_cipher :: "bytes option"
  smk_mac :: "bytes option"
  smk_iv :: "bytes option"
  smk_index :: "u32 option"

definition into_pb :: "('p, 's) session_crypto \<Rightarrow> key_generator \<Rightarrow> stored_message_key sres" where
  "into_pb C g =
     rmap (\<lambda>k. \<lparr>smk_cipher = Some (mk_cipher k), smk_mac = Some (mk_mac k), smk_iv = Some (mk_iv k),
               smk_index = Some (mk_counter k)\<rparr>) (generate_keys C g)"

definition sized :: "nat \<Rightarrow> bytes option \<Rightarrow> bytes sres" where
  \<comment> \<open>a present field converted to an array\<close>
  "sized n b = (case b of Some b \<Rightarrow> if length b = n then Inr b else Throw InvalidSessionStructure
                        | None \<Rightarrow> Throw InvalidSessionStructure)"

definition from_pb :: "stored_message_key \<Rightarrow> key_generator sres" where
  "from_pb pb =
     rbind (sized 32 (smk_cipher pb)) (\<lambda>cipher.
     rbind (sized 32 (smk_mac pb)) (\<lambda>mac.
     rbind (sized 16 (smk_iv pb)) (\<lambda>iv.
       Inr (Keys \<lparr>mk_cipher = cipher, mk_mac = mac, mk_iv = iv,
                  mk_counter = (case smk_index pb of Some i \<Rightarrow> i | None \<Rightarrow> 0)\<rparr>))))"

record chain_key =
  ck_key :: bytes
  ck_index :: u32

definition next_chain_key :: "('p, 's) session_crypto \<Rightarrow> chain_key \<Rightarrow> chain_key" where
  "next_chain_key C k = \<lparr>ck_key = s_hmac C (ck_key k) [2], ck_index = ck_index k + 1\<rparr>"

definition chain_message_keys :: "('p, 's) session_crypto \<Rightarrow> chain_key \<Rightarrow> key_generator" where
  "chain_message_keys C k = Seed (s_hmac C (ck_key k) [1]) (ck_index k)"

definition create_chain ::
    "('p, 's) session_crypto \<Rightarrow> bytes \<Rightarrow> public_key \<Rightarrow> private_key \<Rightarrow> (bytes \<times> chain_key) sres" where
  "create_chain C root their_ratchet_key our_ratchet_key =
     (let shared_secret = calculate_agreement (s_curve C) our_ratchet_key their_ratchet_key
      in case s_hkdf C (Some root) shared_secret (as_bytes ''WhisperRatchet'') 64 of
           None \<Rightarrow> Inl Panic
         | Some derived_secret_bytes \<Rightarrow>
             Inr (take 32 derived_secret_bytes, \<lparr>ck_key = take 32 (drop 32 derived_secret_bytes), ck_index = 0\<rparr>))"

section \<open>The state of a session\<close>

record chain =
  ch_ratchet :: "bytes option"
  ch_private :: "bytes option"
  ch_key :: "(u32 option \<times> bytes option) option"
  ch_message_keys :: "stored_message_key list"

record pending_pre_key =
  pp_pre_key_id :: "u32 option"
  pp_signed_id :: "u32 option"
  pp_base_key :: "bytes option"

record session =
  ss_version :: "u32 option"
  ss_local_identity :: "bytes option"
  ss_remote_identity :: "bytes option"
  ss_root_key :: "bytes option"
  ss_previous_counter :: "u32 option"
  ss_sender_chain :: "chain option"
  ss_receiver_chains :: "chain list"
  ss_pending :: "pending_pre_key option"
  ss_remote_registration_id :: "u32 option"
  ss_local_registration_id :: "u32 option"
  ss_alice_base_key :: "bytes option"

definition or_empty :: "bytes option \<Rightarrow> bytes" where
  "or_empty b = (case b of Some b \<Rightarrow> b | None \<Rightarrow> [])"

definition session_new :: "byte \<Rightarrow> public_key \<Rightarrow> public_key \<Rightarrow> bytes \<Rightarrow> public_key \<Rightarrow> session" where
  "session_new version our_identity their_identity root_key alice_base_key =
     \<lparr>ss_version = Some (ucast version), ss_local_identity = Some (public_serialize our_identity),
      ss_remote_identity = Some (public_serialize their_identity), ss_root_key = Some root_key,
      ss_previous_counter = Some 0, ss_sender_chain = None, ss_receiver_chains = [], ss_pending = None,
      ss_remote_registration_id = Some 0, ss_local_registration_id = Some 0,
      ss_alice_base_key = Some (public_serialize alice_base_key)\<rparr>"

definition alice_base_key :: "session \<Rightarrow> bytes" where
  "alice_base_key s = or_empty (ss_alice_base_key s)"

definition session_version :: "session \<Rightarrow> u32" where
  "session_version s = (case ss_version s of None \<Rightarrow> 2 | Some v \<Rightarrow> if v = 0 then 2 else v)"

definition remote_identity_key :: "session \<Rightarrow> public_key option sres" where
  "remote_identity_key s =
     (let b = or_empty (ss_remote_identity s) in
      if length b = 0 then Inr None
      else rmap Some (ok_or (ok (public_deserialize b)) InvalidSessionStructure))"

definition local_identity_key :: "session \<Rightarrow> public_key sres" where
  "local_identity_key s = ok_or (ok (public_deserialize (or_empty (ss_local_identity s)))) InvalidSessionStructure"

definition session_with_self :: "session \<Rightarrow> bool sres" where
  "session_with_self s =
     rbind (remote_identity_key s) (\<lambda>remote_id.
       case remote_id of
         Some remote_id \<Rightarrow> rmap (\<lambda>local_id. public_serialize remote_id = public_serialize local_id) (local_identity_key s)
       | None \<Rightarrow> Inr False)"

definition previous_counter :: "session \<Rightarrow> u32" where
  "previous_counter s = (case ss_previous_counter s of Some c \<Rightarrow> c | None \<Rightarrow> 0)"

definition set_previous_counter :: "u32 \<Rightarrow> session \<Rightarrow> session" where
  "set_previous_counter ctr s = s\<lparr>ss_previous_counter := Some ctr\<rparr>"

definition session_root_key :: "session \<Rightarrow> bytes sres" where
  "session_root_key s = sized 32 (Some (or_empty (ss_root_key s)))"

definition set_root_key :: "bytes \<Rightarrow> session \<Rightarrow> session" where
  "set_root_key root_key s = s\<lparr>ss_root_key := Some root_key\<rparr>"

definition sender_ratchet_key :: "session \<Rightarrow> public_key sres" where
  "sender_ratchet_key s =
     rbind (ok_or (ss_sender_chain s) InvalidSessionStructure) (\<lambda>c.
     rbind (ok_or (ch_ratchet c) InvalidSessionStructure) (\<lambda>key_bytes.
     ok_or (ok (public_deserialize key_bytes)) InvalidSessionStructure))"

definition sender_ratchet_private_key :: "('p, 's) session_crypto \<Rightarrow> session \<Rightarrow> private_key sres" where
  "sender_ratchet_private_key C s =
     rbind (ok_or (ss_sender_chain s) InvalidSessionStructure) (\<lambda>c.
     rbind (ok_or (ch_private c) InvalidSessionStructure) (\<lambda>key_bytes.
     ok_or (ok (private_deserialize (s_curve C) key_bytes)) InvalidSessionStructure))"

fun chain_index :: "chain list \<Rightarrow> public_key \<Rightarrow> nat option sres" where
  "chain_index [] sender = Inr None"
| "chain_index (c # cs) sender =
     rbind (ok_or (ch_ratchet c) InvalidSessionStructure) (\<lambda>key_bytes.
     rbind (ok_or (ok (public_deserialize key_bytes)) InvalidSessionStructure) (\<lambda>chain_ratchet_key.
     if chain_ratchet_key = sender then Inr (Some 0)
     else rmap (map_option Suc) (chain_index cs sender)))"

definition chain_key_of :: "(u32 option \<times> bytes option) option \<Rightarrow> chain_key sres" where
  \<comment> \<open>the stored chain key of a sender or receiver chain\<close>
  "chain_key_of k =
     rbind (ok_or k InvalidSessionStructure) (\<lambda>(index, key).
     rbind (sized 32 key) (\<lambda>key.
     rbind (ok_or index InvalidSessionStructure) (\<lambda>index. Inr \<lparr>ck_key = key, ck_index = index\<rparr>)))"

definition get_receiver_chain_key :: "public_key \<Rightarrow> session \<Rightarrow> chain_key option sres" where
  "get_receiver_chain_key sender s =
     rbind (chain_index (ss_receiver_chains s) sender) (\<lambda>idx.
       case idx of
         None \<Rightarrow> Inr None
       | Some idx \<Rightarrow> rmap Some (chain_key_of (ch_key (ss_receiver_chains s ! idx))))"

definition add_receiver_chain :: "public_key \<Rightarrow> chain_key \<Rightarrow> session \<Rightarrow> session" where
  "add_receiver_chain sender k s =
     (let chain = \<lparr>ch_ratchet = Some (public_serialize sender), ch_private = Some [],
                   ch_key = Some (Some (ck_index k), Some (ck_key k)), ch_message_keys = []\<rparr>;
          chains = ss_receiver_chains s @ [chain]
      in s\<lparr>ss_receiver_chains := (if length chains > MAX_RECEIVER_CHAINS then tl chains else chains)\<rparr>)"

definition set_sender_chain :: "key_pair \<Rightarrow> chain_key \<Rightarrow> session \<Rightarrow> session" where
  "set_sender_chain sender k s =
     s\<lparr>ss_sender_chain := Some \<lparr>ch_ratchet = Some (public_serialize (kp_public sender)),
         ch_private = Some (private_serialize (kp_private sender)),
         ch_key = Some (Some (ck_index k), Some (ck_key k)), ch_message_keys = []\<rparr>\<rparr>"

definition get_sender_chain_key :: "session \<Rightarrow> chain_key sres" where
  "get_sender_chain_key s = rbind (ok_or (ss_sender_chain s) InvalidSessionStructure) (\<lambda>c. chain_key_of (ch_key c))"

definition set_session_chain_key :: "chain_key \<Rightarrow> session \<Rightarrow> session" where
  "set_session_chain_key k s =
     (let key = Some (Some (ck_index k), Some (ck_key k)) in
      s\<lparr>ss_sender_chain := Some (case ss_sender_chain s of
          None \<Rightarrow> \<lparr>ch_ratchet = Some [], ch_private = Some [], ch_key = key, ch_message_keys = []\<rparr>
        | Some c \<Rightarrow> c\<lparr>ch_key := key\<rparr>)\<rparr>)"

definition update_chain :: "nat \<Rightarrow> (chain \<Rightarrow> chain) \<Rightarrow> session \<Rightarrow> session" where
  "update_chain idx f s = s\<lparr>ss_receiver_chains := (ss_receiver_chains s)[idx := f (ss_receiver_chains s ! idx)]\<rparr>"

fun key_position :: "stored_message_key list \<Rightarrow> u32 \<Rightarrow> nat option sres" where
  "key_position [] counter = Inr None"
| "key_position (m # ms) counter =
     rbind (ok_or (smk_index m) InvalidSessionStructure) (\<lambda>idx.
     if idx = counter then Inr (Some 0) else rmap (map_option Suc) (key_position ms counter))"

definition get_message_keys :: "public_key \<Rightarrow> u32 \<Rightarrow> (key_generator option, session) st" where
  "get_message_keys sender counter =
     sbind (sread (\<lambda>s. chain_index (ss_receiver_chains s) sender)) (\<lambda>chain_idx.
     case chain_idx of
       None \<Rightarrow> slift (Inr None)
     | Some chain_idx \<Rightarrow>
         sbind (sread (\<lambda>s. key_position (ch_message_keys (ss_receiver_chains s ! chain_idx)) counter)) (\<lambda>position.
         case position of
           None \<Rightarrow> slift (Inr None)
         | Some position \<Rightarrow>
             sbind (sread (\<lambda>s. Inr (ch_message_keys (ss_receiver_chains s ! chain_idx) ! position))) (\<lambda>message_key.
             sbind (smodify (update_chain chain_idx (\<lambda>c. c\<lparr>ch_message_keys :=
                 take position (ch_message_keys c) @ drop (Suc position) (ch_message_keys c)\<rparr>))) (\<lambda>_.
             slift (rmap Some (from_pb message_key))))))"

definition set_message_keys :: "('p, 's) session_crypto \<Rightarrow> public_key \<Rightarrow> key_generator \<Rightarrow> (unit, session) st" where
  "set_message_keys C sender message_keys =
     sbind (sread (\<lambda>s. chain_index (ss_receiver_chains s) sender)) (\<lambda>chain_idx.
     case chain_idx of
       None \<Rightarrow> slift (Inl Panic)
     | Some chain_idx \<Rightarrow>
         sbind (slift (into_pb C message_keys)) (\<lambda>pb.
         smodify (update_chain chain_idx (\<lambda>c. c\<lparr>ch_message_keys :=
           (let keys = pb # ch_message_keys c in if length keys > MAX_MESSAGE_KEYS then butlast keys else keys)\<rparr>))))"

definition set_receiver_chain_key :: "public_key \<Rightarrow> chain_key \<Rightarrow> (unit, session) st" where
  "set_receiver_chain_key sender k =
     sbind (sread (\<lambda>s. chain_index (ss_receiver_chains s) sender)) (\<lambda>chain_idx.
     case chain_idx of
       None \<Rightarrow> slift (Inl Panic)
     | Some chain_idx \<Rightarrow>
         smodify (update_chain chain_idx (\<lambda>c. c\<lparr>ch_key := Some (Some (ck_index k), Some (ck_key k))\<rparr>)))"

definition set_unacknowledged_pre_key_message :: "u32 option \<Rightarrow> u32 \<Rightarrow> public_key \<Rightarrow> session \<Rightarrow> session" where
  "set_unacknowledged_pre_key_message pre_key_id signed_pre_key_id base_key s =
     s\<lparr>ss_pending := Some \<lparr>pp_pre_key_id = pre_key_id, pp_signed_id = Some signed_pre_key_id,
                         pp_base_key = Some (public_serialize base_key)\<rparr>\<rparr>"

record unacknowledged_items =
  ui_pre_key_id :: "u32 option"
  ui_signed_pre_key_id :: u32
  ui_base_key :: public_key

definition unacknowledged_pre_key_message_items :: "session \<Rightarrow> unacknowledged_items option sres" where
  "unacknowledged_pre_key_message_items s =
     (case ss_pending s of
        None \<Rightarrow> Inr None
      | Some pending \<Rightarrow>
          rbind (ok_or (pp_base_key pending) InvalidSessionStructure) (\<lambda>base_key.
          rbind (ok_or (ok (public_deserialize base_key)) InvalidSessionStructure) (\<lambda>base_key.
          Inr (Some \<lparr>ui_pre_key_id = pp_pre_key_id pending,
                     ui_signed_pre_key_id = (case pp_signed_id pending of Some i \<Rightarrow> i | None \<Rightarrow> 0),
                     ui_base_key = base_key\<rparr>))))"

definition clear_unacknowledged_pre_key_message :: "session \<Rightarrow> session" where
  "clear_unacknowledged_pre_key_message s = s\<lparr>ss_pending := None\<rparr>"

definition session_local_registration_id :: "session \<Rightarrow> u32" where
  "session_local_registration_id s = (case ss_local_registration_id s of Some i \<Rightarrow> i | None \<Rightarrow> 0)"

section \<open>Messages\<close>

definition CIPHERTEXT_MESSAGE_CURRENT_VERSION :: byte where "CIPHERTEXT_MESSAGE_CURRENT_VERSION = 3"
definition MIN_SUPPORTED_VERSION :: byte where "MIN_SUPPORTED_VERSION = 3"
definition MAX_SUPPORTED_VERSION :: byte where "MAX_SUPPORTED_VERSION = 4"

record signal_message =
  sm_version :: byte
  sm_ratchet_key :: public_key
  sm_counter :: u32
  sm_previous_counter :: u32
  sm_ciphertext :: bytes
  sm_serialized :: bytes

definition MAC_LENGTH :: nat where "MAC_LENGTH = 8"

definition compute_mac ::
    "('p, 's) session_crypto \<Rightarrow> public_key \<Rightarrow> public_key \<Rightarrow> bytes \<Rightarrow> bytes \<Rightarrow> bytes sres" where
  "compute_mac C sender_identity_key receiver_identity_key mac_key message =
     (if length mac_key \<noteq> 32 then Throw (InvalidMacKeyLength (length mac_key))
      else Inr (take MAC_LENGTH (s_hmac C mac_key
             (public_serialize sender_identity_key @ public_serialize receiver_identity_key @ message))))"

definition sm_new ::
    "('p, 's) session_crypto \<Rightarrow> byte \<Rightarrow> bytes \<Rightarrow> public_key \<Rightarrow> u32 \<Rightarrow> u32 \<Rightarrow> bytes \<Rightarrow> public_key \<Rightarrow> public_key \<Rightarrow> signal_message sres" where
  "sm_new C mversion mac_key ratchet_key counter previous ciphertext sender_identity receiver_identity =
     (let serialized = (push_bit 4 (mversion AND 15) OR CIPHERTEXT_MESSAGE_CURRENT_VERSION)
            # encode_sm C (public_serialize ratchet_key) counter previous ciphertext
      in rbind (compute_mac C sender_identity receiver_identity mac_key serialized) (\<lambda>mac.
         Inr \<lparr>sm_version = mversion, sm_ratchet_key = ratchet_key, sm_counter = counter, sm_previous_counter = previous,
              sm_ciphertext = ciphertext, sm_serialized = serialized @ mac\<rparr>))"

definition verify_mac :: "('p, 's) session_crypto \<Rightarrow> public_key \<Rightarrow> public_key \<Rightarrow> bytes \<Rightarrow> signal_message \<Rightarrow> bool sres" where
  "verify_mac C sender_identity receiver_identity mac_key m =
     (let n = length (sm_serialized m) - MAC_LENGTH in
      if length (sm_serialized m) < MAC_LENGTH then Inl Panic
      else
        rbind (compute_mac C sender_identity receiver_identity mac_key (take n (sm_serialized m))) (\<lambda>our_mac.
        Inr (our_mac = drop n (sm_serialized m))))"

definition sm_try_from :: "('p, 's) session_crypto \<Rightarrow> bytes \<Rightarrow> signal_message sres" where
  "sm_try_from C v =
     (if length v < MAC_LENGTH + 1 then Throw (CiphertextMessageTooShort (length v))
      else
        let mversion = drop_bit 4 (v ! 0) in
        if \<not> (MIN_SUPPORTED_VERSION \<le> mversion \<and> mversion \<le> MAX_SUPPORTED_VERSION)
        then Throw (UnrecognizedCiphertextVersion mversion)
        else
          rbind (ok_or (decode_sm C (drop 1 (take (length v - MAC_LENGTH) v))) InvalidProtobufEncoding) (\<lambda>(key, ctr, prev, ct).
          rbind (ok_or key InvalidProtobufEncoding) (\<lambda>key.
          rbind (lift_curve (public_deserialize key)) (\<lambda>key.
          rbind (ok_or ctr InvalidProtobufEncoding) (\<lambda>ctr.
          rbind (ok_or ct InvalidProtobufEncoding) (\<lambda>ct.
          Inr \<lparr>sm_version = mversion, sm_ratchet_key = key, sm_counter = ctr,
               sm_previous_counter = (case prev of Some p \<Rightarrow> p | None \<Rightarrow> 0), sm_ciphertext = ct, sm_serialized = v\<rparr>))))))"

record pre_key_message =
  pk_version :: byte
  pk_registration_id :: u32
  pk_pre_key_id :: "u32 option"
  pk_signed_pre_key_id :: u32
  pk_base_key :: public_key
  pk_identity_key :: public_key
  pk_message :: signal_message
  pk_serialized :: bytes

definition pksm_new ::
    "('p, 's) session_crypto \<Rightarrow> byte \<Rightarrow> u32 \<Rightarrow> u32 option \<Rightarrow> u32 \<Rightarrow> public_key \<Rightarrow> public_key \<Rightarrow> signal_message \<Rightarrow> pre_key_message" where
  "pksm_new C mversion registration_id pre_key_id signed_pre_key_id base_key identity_key message =
     \<lparr>pk_version = mversion, pk_registration_id = registration_id, pk_pre_key_id = pre_key_id,
      pk_signed_pre_key_id = signed_pre_key_id, pk_base_key = base_key, pk_identity_key = identity_key, pk_message = message,
      pk_serialized = (push_bit 4 (mversion AND 15) OR CIPHERTEXT_MESSAGE_CURRENT_VERSION)
        # encode_pksm C registration_id pre_key_id signed_pre_key_id (public_serialize base_key)
            (public_serialize identity_key) (sm_serialized message)\<rparr>"

definition pksm_try_from :: "('p, 's) session_crypto \<Rightarrow> bytes \<Rightarrow> pre_key_message sres" where
  "pksm_try_from C v =
     (if v = [] then Throw (CiphertextMessageTooShort 0)
      else
        let mversion = drop_bit 4 (v ! 0) in
        if \<not> (MIN_SUPPORTED_VERSION \<le> mversion \<and> mversion \<le> MAX_SUPPORTED_VERSION)
        then Throw (UnrecognizedCiphertextVersion mversion)
        else
          rbind (ok_or (decode_pksm C (drop 1 v)) InvalidProtobufEncoding) (\<lambda>(reg, pre, signed, base, ident, msg).
          rbind (ok_or base InvalidProtobufEncoding) (\<lambda>base.
          rbind (ok_or ident InvalidProtobufEncoding) (\<lambda>ident.
          rbind (ok_or msg InvalidProtobufEncoding) (\<lambda>msg.
          rbind (ok_or signed InvalidProtobufEncoding) (\<lambda>signed.
          rbind (lift_curve (public_deserialize base)) (\<lambda>base.
          rbind (lift_curve (public_deserialize ident)) (\<lambda>ident.
          rbind (sm_try_from C msg) (\<lambda>msg.
          Inr \<lparr>pk_version = mversion, pk_registration_id = (case reg of Some r \<Rightarrow> r | None \<Rightarrow> 0), pk_pre_key_id = pre,
               pk_signed_pre_key_id = signed, pk_base_key = base, pk_identity_key = ident, pk_message = msg,
               pk_serialized = v\<rparr>)))))))))"

datatype ciphertext_message =
    SignalMessage signal_message
  | PreKeySignalMessage pre_key_message
  | SenderKeyMessage bytes
  | PlaintextContent bytes

section \<open>Starting a session\<close>

definition derive_keys :: "('p, 's) session_crypto \<Rightarrow> bytes \<Rightarrow> (bytes \<times> chain_key) sres" where
  \<comment> \<open>the third part of the output is not used\<close>
  "derive_keys C secret_input =
     (case s_hkdf C None secret_input (as_bytes ''WhisperText'') 96 of
        None \<Rightarrow> Inl Panic
      | Some secrets \<Rightarrow> Inr (take 32 secrets, \<lparr>ck_key = take 32 (drop 32 secrets), ck_index = 0\<rparr>))"

record alice_parameters =
  al_identity_pair :: key_pair
  al_base_pair :: key_pair
  al_their_identity :: public_key
  al_their_signed_pre_key :: public_key
  al_their_one_time_pre_key :: "public_key option"
  al_their_ratchet_key :: public_key

record bob_parameters =
  bo_identity_pair :: key_pair
  bo_signed_pair :: key_pair
  bo_one_time_pair :: "key_pair option"
  bo_ratchet_pair :: key_pair
  bo_their_identity :: public_key
  bo_their_base_key :: public_key

definition initialize_alice_session :: "('p, 's) session_crypto \<Rightarrow> bytes \<Rightarrow> alice_parameters \<Rightarrow> session sres" where
  \<comment> \<open>the random bytes make the sending ratchet key\<close>
  "initialize_alice_session C rnd parameters =
     (let agree = calculate_agreement (s_curve C);
          sending_ratchet_key = key_pair_generate (s_curve C) rnd;
          our_base_private_key = kp_private (al_base_pair parameters);
          secrets = replicate 32 255
            @ agree (kp_private (al_identity_pair parameters)) (al_their_signed_pre_key parameters)
            @ agree our_base_private_key (al_their_identity parameters)
            @ agree our_base_private_key (al_their_signed_pre_key parameters)
            @ (case al_their_one_time_pre_key parameters of None \<Rightarrow> [] | Some k \<Rightarrow> agree our_base_private_key k)
      in rbind (derive_keys C secrets) (\<lambda>(root_key, chain_key).
         rbind (create_chain C root_key (al_their_ratchet_key parameters) (kp_private sending_ratchet_key))
           (\<lambda>(sending_root_key, sending_chain_key).
         Inr (set_sender_chain sending_ratchet_key sending_chain_key
               (add_receiver_chain (al_their_ratchet_key parameters) chain_key
                 (session_new 3 (kp_public (al_identity_pair parameters)) (al_their_identity parameters) sending_root_key
                   (kp_public (al_base_pair parameters))))))))"

definition initialize_bob_session :: "('p, 's) session_crypto \<Rightarrow> bob_parameters \<Rightarrow> session sres" where
  "initialize_bob_session C parameters =
     (let agree = calculate_agreement (s_curve C);
          secrets = replicate 32 255
            @ agree (kp_private (bo_signed_pair parameters)) (bo_their_identity parameters)
            @ agree (kp_private (bo_identity_pair parameters)) (bo_their_base_key parameters)
            @ agree (kp_private (bo_signed_pair parameters)) (bo_their_base_key parameters)
            @ (case bo_one_time_pair parameters of None \<Rightarrow> [] | Some k \<Rightarrow> agree (kp_private k) (bo_their_base_key parameters))
      in rbind (derive_keys C secrets) (\<lambda>(root_key, chain_key).
         Inr (set_sender_chain (bo_ratchet_pair parameters) chain_key
               (session_new 3 (kp_public (bo_identity_pair parameters)) (bo_their_identity parameters) root_key
                 (bo_their_base_key parameters)))))"

section \<open>Encryption and decryption with one state\<close>

definition encrypt_with_state :: "('p, 's) session_crypto \<Rightarrow> bytes \<Rightarrow> session \<Rightarrow> (ciphertext_message \<times> public_key \<times> session) sres" where
  "encrypt_with_state C ptext s =
     rbind (get_sender_chain_key s) (\<lambda>chain_key.
     rbind (generate_keys C (chain_message_keys C chain_key)) (\<lambda>message_keys.
     rbind (sender_ratchet_key s) (\<lambda>sender_ephemeral.
     rbind (if unat (session_version s) < 256 then Inr (ucast (session_version s)) else Throw InvalidSessionStructure) (\<lambda>version.
     rbind (local_identity_key s) (\<lambda>local_identity_key.
     rbind (remote_identity_key s) (\<lambda>their_identity_key.
     rbind (ok_or their_identity_key InvalidState) (\<lambda>their_identity_key.
     rbind (ok_or (ok (aes_256_cbc_encrypt_into (s_cbc C) ptext (mk_cipher message_keys) (mk_iv message_keys) []))
             InvalidSessionStructure) (\<lambda>ctext.
     rbind (unacknowledged_pre_key_message_items s) (\<lambda>items.
     rbind (sm_new C version (mk_mac message_keys) sender_ephemeral (ck_index chain_key) (previous_counter s) ctext
             local_identity_key their_identity_key) (\<lambda>message.
     Inr (case items of
            Some items \<Rightarrow>
              PreKeySignalMessage (pksm_new C version (session_local_registration_id s) (ui_pre_key_id items)
                (ui_signed_pre_key_id items) (ui_base_key items) local_identity_key message)
          | None \<Rightarrow> SignalMessage message,
          their_identity_key, set_session_chain_key (next_chain_key C chain_key) s)))))))))))"

definition get_or_create_chain_key :: "('p, 's) session_crypto \<Rightarrow> bytes \<Rightarrow> public_key \<Rightarrow> (chain_key, session) st" where
  "get_or_create_chain_key C rnd their_ephemeral =
     sbind (sread (get_receiver_chain_key their_ephemeral)) (\<lambda>chain.
     case chain of
       Some chain \<Rightarrow> slift (Inr chain)
     | None \<Rightarrow>
         sbind (sread session_root_key) (\<lambda>root_key.
         sbind (sread (sender_ratchet_private_key C)) (\<lambda>our_ephemeral.
         sbind (slift (create_chain C root_key their_ephemeral our_ephemeral)) (\<lambda>receiver_chain.
         let our_new_ephemeral = key_pair_generate (s_curve C) rnd in
         sbind (slift (create_chain C (fst receiver_chain) their_ephemeral (kp_private our_new_ephemeral))) (\<lambda>sender_chain.
         sbind (smodify (set_root_key (fst sender_chain))) (\<lambda>_.
         sbind (smodify (add_receiver_chain their_ephemeral (snd receiver_chain))) (\<lambda>_.
         sbind (sread get_sender_chain_key) (\<lambda>current.
         sbind (smodify (set_previous_counter (if ck_index current > 0 then ck_index current - 1 else 0))) (\<lambda>_.
         sbind (smodify (set_sender_chain our_new_ephemeral (snd sender_chain))) (\<lambda>_.
         slift (Inr (snd receiver_chain))))))))))))"

function skip_keys :: "('p, 's) session_crypto \<Rightarrow> public_key \<Rightarrow> u32 \<Rightarrow> chain_key \<Rightarrow> session \<Rightarrow> chain_key sres \<times> session" where
  "skip_keys C their_ephemeral counter chain_key s =
     (if ck_index chain_key < counter
      then case set_message_keys C their_ephemeral (chain_message_keys C chain_key) s of
             (Inl e, s') \<Rightarrow> (Inl e, s')
           | (Inr _, s') \<Rightarrow> skip_keys C their_ephemeral counter (next_chain_key C chain_key) s'
      else (Inr chain_key, s))"
  by pat_completeness auto
termination
proof (relation "measure (\<lambda>(_, _, counter, k, _). unat counter - unat (ck_index k))")
  fix C :: "('p, 's) session_crypto" and e counter and k :: chain_key and s s' :: session and r
  assume less: "ck_index k < counter"
  then have "unat (ck_index k + 1) = unat (ck_index k) + 1"
    by (rule u32_suc)
  with less show "((C, e, counter, next_chain_key C k, s'), (C, e, counter, k, s))
      \<in> measure (\<lambda>(_, _, counter, k, _). unat counter - unat (ck_index k))"
    by (simp add: next_chain_key_def word_less_nat_alt)
qed simp

declare skip_keys.simps [simp del]

definition get_or_create_message_key ::
    "('p, 's) session_crypto \<Rightarrow> public_key \<Rightarrow> ciphertext_type \<Rightarrow> chain_key \<Rightarrow> u32 \<Rightarrow> (key_generator, session) st" where
  "get_or_create_message_key C their_ephemeral typ chain_key counter =
     (if ck_index chain_key > counter
      then sbind (get_message_keys their_ephemeral counter) (\<lambda>keys.
           slift (ok_or keys (DuplicatedMessage (ck_index chain_key) counter)))
      else
        sbind (if unat (counter - ck_index chain_key) > MAX_FORWARD_JUMPS
               then sbind (sread session_with_self) (\<lambda>with_self.
                    slift (if with_self then Inr () else Throw (InvalidMessage typ)))
               else slift (Inr ())) (\<lambda>_.
        sbind (skip_keys C their_ephemeral counter chain_key) (\<lambda>chain_key.
        sbind (set_receiver_chain_key their_ephemeral (next_chain_key C chain_key)) (\<lambda>_.
        slift (Inr (chain_message_keys C chain_key))))))"

definition decrypt_message_with_state ::
    "('p, 's) session_crypto \<Rightarrow> bytes \<Rightarrow> ciphertext_type \<Rightarrow> signal_message \<Rightarrow> (bytes, session) st" where
  "decrypt_message_with_state C rnd typ m =
     sbind (sread (\<lambda>s. ok_or (ok (session_root_key s)) (InvalidMessage typ))) (\<lambda>_.
     sbind (sread (\<lambda>s. if ucast (sm_version m) \<noteq> session_version s then Throw (UnrecognizedMessageVersion (ucast (sm_version m)))
                       else Inr ())) (\<lambda>_.
     sbind (get_or_create_chain_key C rnd (sm_ratchet_key m)) (\<lambda>chain_key.
     sbind (get_or_create_message_key C (sm_ratchet_key m) typ chain_key (sm_counter m)) (\<lambda>message_key_gen.
     sbind (slift (generate_keys C message_key_gen)) (\<lambda>message_keys.
     sbind (sread (\<lambda>s. rbind (remote_identity_key s) (\<lambda>k. ok_or k InvalidSessionStructure))) (\<lambda>their_identity_key.
     sbind (sread local_identity_key) (\<lambda>our_identity_key.
     sbind (slift (verify_mac C their_identity_key our_identity_key (mk_mac message_keys) m)) (\<lambda>mac_valid.
     if \<not> mac_valid then slift (Throw (InvalidMessage typ))
     else
       sbind (slift (case aes_256_cbc_decrypt_into (s_cbc C) (sm_ciphertext m) (mk_cipher message_keys) (mk_iv message_keys) of
                       Inr ptext \<Rightarrow> Inr ptext
                     | Inl (Err decryption_error.BadKeyOrIv) \<Rightarrow> Throw InvalidSessionStructure
                     | Inl (Err BadCiphertext) \<Rightarrow> Throw (InvalidMessage typ)
                     | Inl Panic \<Rightarrow> Inl Panic
                     | Inl Diverge \<Rightarrow> Inl Diverge)) (\<lambda>ptext.
       sbind (smodify clear_unacknowledged_pre_key_message) (\<lambda>_.
       slift (Inr ptext)))))))))))"

end
