(* ===== verification/Session_Chains.thy ===== *)
theory Session_Chains
  imports Ratchet
begin

text \<open>
  The chains of a session: what the state of a receiver chain stands for, what a request for a message key returns, and that
  no key is handed out twice.
\<close>

section \<open>A receiver chain\<close>

lemmas st_defs = sbind_def sread_def slift_def smodify_def

definition session_laws :: "('p, 's) session_crypto \<Rightarrow> bool" where
  \<comment> \<open>the derivation expands to the length asked for, and the code has 32 bytes\<close>
  "session_laws C \<longleftrightarrow> hkdf_expands (s_hkdf C) \<and> (\<forall>k m. length (s_hmac C k m) = 32)"

definition ckey :: "('p, 's) session_crypto \<Rightarrow> bytes \<Rightarrow> nat \<Rightarrow> bytes" where
  \<comment> \<open>the chain key \<open>n\<close> steps after the first one\<close>
  "ckey C k n = ((\<lambda>k. s_hmac C k [2]) ^^ n) k"

definition mkey :: "('p, 's) session_crypto \<Rightarrow> bytes \<Rightarrow> nat \<Rightarrow> message_keys" where
  \<comment> \<open>the keys of message \<open>i\<close> of the chain that starts with \<open>k\<close>\<close>
  "mkey C k i =
     (let okm = the (s_hkdf C None (s_hmac C (ckey C k i) [1]) (as_bytes ''WhisperMessageKeys'') 80)
      in \<lparr>mk_cipher = take 32 okm, mk_mac = take 32 (drop 32 okm), mk_iv = take 16 (drop 64 okm), mk_counter = of_nat i\<rparr>)"

definition skey :: "('p, 's) session_crypto \<Rightarrow> bytes \<Rightarrow> nat \<Rightarrow> stored_message_key" where
  "skey C k i = \<lparr>smk_cipher = Some (mk_cipher (mkey C k i)), smk_mac = Some (mk_mac (mkey C k i)),
     smk_iv = Some (mk_iv (mkey C k i)), smk_index = Some (of_nat i)\<rparr>"

abbreviation at_index :: "('p, 's) session_crypto \<Rightarrow> bytes \<Rightarrow> nat \<Rightarrow> chain_key" where
  "at_index C k i \<equiv> \<lparr>ck_key = ckey C k i, ck_index = of_nat i\<rparr>"

definition rx :: "('p, 's) session_crypto \<Rightarrow> public_key \<Rightarrow> bytes \<Rightarrow> nat \<Rightarrow> nat list \<Rightarrow> chain \<Rightarrow> bool" where
  \<comment> \<open>the chain of ratchet key \<open>p\<close> is at message \<open>c\<close> and keeps the keys of the messages \<open>is\<close>\<close>
  "rx C p k c is ch \<longleftrightarrow> public_ok p \<and> length k = 32 \<and> c < 2 ^ 32 \<and> distinct is \<and> (\<forall>i \<in> set is. i < c) \<and> length is \<le> MAX_MESSAGE_KEYS
     \<and> ch_ratchet ch = Some (public_serialize p) \<and> ch_key ch = Some (Some (of_nat c), Some (ckey C k c))
     \<and> ch_message_keys ch = map (skey C k) is"

lemma length_ckey: "session_laws C \<Longrightarrow> length k = 32 \<Longrightarrow> length (ckey C k n) = 32"
  by (cases n) (simp_all add: ckey_def session_laws_def)

lemma next_at_index: "i + 1 < 2 ^ 32 \<Longrightarrow> next_chain_key C (at_index C k i) = at_index C k (i + 1)"
  by (simp add: next_chain_key_def ckey_def add.commute)

lemma generate_at_index:
  assumes "session_laws C"
  shows "generate_keys C (chain_message_keys C (at_index C k i)) = Inr (mkey C k i)"
    "into_pb C (chain_message_keys C (at_index C k i)) = Inr (skey C k i)"
    "from_pb (skey C k i) = Inr (Keys (mkey C k i))"
    "length (mk_cipher (mkey C k i)) = 32" "length (mk_mac (mkey C k i)) = 32" "length (mk_iv (mkey C k i)) = 16"
proof -
  have "hkdf_expands (s_hkdf C)" "(80 :: nat) \<le> 255 * 32" using assms by (simp_all add: session_laws_def)
  then obtain okm where okm: "s_hkdf C None (s_hmac C (ckey C k i) [1]) (as_bytes ''WhisperMessageKeys'') 80 = Some okm" "length okm = 80"
    using hkdf_expand by blast
  then show gen: "generate_keys C (chain_message_keys C (at_index C k i)) = Inr (mkey C k i)"
    by (simp add: chain_message_keys_def derive_message_keys_def mkey_def)
  show len: "length (mk_cipher (mkey C k i)) = 32" "length (mk_mac (mkey C k i)) = 32" "length (mk_iv (mkey C k i)) = 16"
    using okm by (simp_all add: mkey_def)
  have ctr: "mk_counter (mkey C k i) = of_nat i" by (simp add: mkey_def Let_def)
  then show "into_pb C (chain_message_keys C (at_index C k i)) = Inr (skey C k i)"
    by (simp add: into_pb_def gen skey_def)
  have "mkey C k i = \<lparr>mk_cipher = mk_cipher (mkey C k i), mk_mac = mk_mac (mkey C k i), mk_iv = mk_iv (mkey C k i), mk_counter = of_nat i\<rparr>"
    using ctr by (cases "mkey C k i") simp
  then show "from_pb (skey C k i) = Inr (Keys (mkey C k i))"
    using len by (simp add: from_pb_def skey_def sized_def)
qed

lemma chain_index_Some: "chain_index cs p = Inr (Some idx) \<Longrightarrow> idx < length cs"
proof (induction cs arbitrary: idx)
  case (Cons c cs)
  then show ?case
    by (auto simp: rbind_eq_Inr rmap_eq_Inr split: if_splits dest!: sym [of "Some _"])
qed simp

lemma chain_index_cong: "map ch_ratchet cs = map ch_ratchet cs' \<Longrightarrow> chain_index cs p = chain_index cs' p"
proof (induction cs arbitrary: cs')
  case (Cons c cs)
  then obtain c' cs'' where "cs' = c' # cs''" "ch_ratchet c = ch_ratchet c'" "map ch_ratchet cs = map ch_ratchet cs''"
    by (cases cs') auto
  with Cons.IH [of cs''] show ?case by (simp cong: if_cong)
qed simp

lemma chain_index_update:
  assumes "\<And>c. ch_ratchet (f c) = ch_ratchet c"
  shows "chain_index (ss_receiver_chains (update_chain idx f s)) p = chain_index (ss_receiver_chains s) p"
proof (rule chain_index_cong)
  have "(map ch_ratchet cs)[idx := ch_ratchet (cs ! idx)] = map ch_ratchet cs" for cs
  proof (cases "idx < length cs")
    case True
    then show ?thesis using list_update_id [of "map ch_ratchet cs" idx] by simp
  qed (simp add: list_update_beyond)
  then show "map ch_ratchet (ss_receiver_chains (update_chain idx f s)) = map ch_ratchet (ss_receiver_chains s)"
    by (simp add: update_chain_def map_update assms)
qed

lemma update_chain_twice:
  "idx < length (ss_receiver_chains s) \<Longrightarrow> update_chain idx g (update_chain idx f s) = update_chain idx (g \<circ> f) s"
  by (simp add: update_chain_def)

lemma update_chain_same:
  assumes "f (ss_receiver_chains s ! idx) = ss_receiver_chains s ! idx"
  shows "update_chain idx f s = s"
  using assms by (simp add: update_chain_def)

lemma update_chain_nth:
  "idx < length (ss_receiver_chains s) \<Longrightarrow> ss_receiver_chains (update_chain idx f s) ! idx = f (ss_receiver_chains s ! idx)"
  by (simp add: update_chain_def)

text \<open>Looking up, skipping and removing keys of the chain at position \<open>idx\<close>.\<close>

lemma rx_chain_key:
  assumes "session_laws C" "rx C p k c is ch"
  shows "chain_key_of (ch_key ch) = Inr (at_index C k c)"
  using assms length_ckey [of C k c] by (simp add: rx_def chain_key_of_def sized_def)

lemma key_position_skey:
  "\<forall>i \<in> set is. i < 2 ^ 32 \<Longrightarrow> j < 2 ^ 32 \<Longrightarrow>
   key_position (map (skey C k) is) (of_nat j) = Inr (if j \<in> set is then Some (length (takeWhile (\<lambda>i. i \<noteq> j) is)) else None)"
proof (induction "is")
  case (Cons i "is")
  then show ?case using u32_order(2) [of i j] by (auto simp: skey_def)
qed simp

lemma remove_at_position:
  "j \<in> set is \<Longrightarrow> let n = length (takeWhile (\<lambda>i. i \<noteq> j) is) in
     is ! n = j \<and> n < length is \<and> take n is @ drop (Suc n) is = remove1 j is"
  by (induction "is") (auto simp: Let_def)

lemma get_message_keys_rx:
  assumes "session_laws C" "chain_index (ss_receiver_chains s) p = Inr (Some idx)" "rx C p k c is (ss_receiver_chains s ! idx)" "j < 2 ^ 32"
  shows "get_message_keys p (of_nat j) s =
    (if j \<in> set is
     then (Inr (Some (Keys (mkey C k j))), update_chain idx (\<lambda>ch. ch\<lparr>ch_message_keys := map (skey C k) (remove1 j is)\<rparr>) s)
     else (Inr None, s))"
proof -
  define n where "n = length (takeWhile (\<lambda>i. i \<noteq> j) is)"
  have keys: "ch_message_keys (ss_receiver_chains s ! idx) = map (skey C k) is" "\<forall>i\<in>set is. i < 2 ^ 32"
    using assms(3) by (auto simp: rx_def)
  note pos = key_position_skey [OF keys(2) assms(4), of C k, folded n_def]
  show ?thesis
  proof (cases "j \<in> set is")
    case True
    have n: "is ! n = j" "n < length is" "take n is @ drop (Suc n) is = remove1 j is"
      using remove_at_position [OF True, folded n_def] by (simp_all add: Let_def)
    then have "take n (map (skey C k) is) @ drop (Suc n) (map (skey C k) is) = map (skey C k) (remove1 j is)"
      by (simp add: take_map drop_map flip: map_append)
    moreover have "map (skey C k) is ! n = skey C k j" using n by simp
    ultimately show ?thesis
      using True by (simp add: get_message_keys_def st_defs assms(2) keys(1) pos generate_at_index [OF assms(1)] update_chain_def)
  qed (simp add: get_message_keys_def st_defs assms(2) keys(1) pos)
qed

definition skipped :: "nat \<Rightarrow> nat \<Rightarrow> nat list \<Rightarrow> nat list" where
  \<comment> \<open>the keys kept after the messages from \<open>c\<close> up to \<open>i\<close> were skipped, newest first\<close>
  "skipped c i is = take MAX_MESSAGE_KEYS (rev [c..<i] @ is)"

lemma skipped_step:
  assumes "c < i" "length is \<le> MAX_MESSAGE_KEYS"
  shows "skipped (c + 1) i (take MAX_MESSAGE_KEYS (c # is)) = skipped c i is"
proof -
  have "rev [c..<i] = rev [c + 1..<i] @ [c]" using assms(1) by (simp add: upt_rec)
  then show ?thesis by (simp add: skipped_def min_def)
qed

lemma set_message_keys_rx:
  assumes "session_laws C" "chain_index (ss_receiver_chains s) p = Inr (Some idx)"
    and "ch_message_keys (ss_receiver_chains s ! idx) = map (skey C k) is" "length is \<le> MAX_MESSAGE_KEYS"
  shows "set_message_keys C p (chain_message_keys C (at_index C k c)) s =
    (Inr (), update_chain idx (\<lambda>ch. ch\<lparr>ch_message_keys := map (skey C k) (take MAX_MESSAGE_KEYS (c # is))\<rparr>) s)"
proof -
  have "(let keys = skey C k c # map (skey C k) is in if length keys > MAX_MESSAGE_KEYS then butlast keys else keys)
      = map (skey C k) (take MAX_MESSAGE_KEYS (c # is))"
  proof (cases "length is = MAX_MESSAGE_KEYS")
    case True
    then show ?thesis by (simp add: butlast_conv_take take_map take_Cons' MAX_MESSAGE_KEYS_def)
  next
    case False
    then show ?thesis using assms(4) by simp
  qed
  then show ?thesis
    using assms(2,3) generate_at_index(2) [OF assms(1), of k c]
    by (simp add: set_message_keys_def st_defs update_chain_def)
qed

lemma skip_keys_rx:
  assumes "session_laws C" "chain_index (ss_receiver_chains s) p = Inr (Some idx)"
    and "ch_message_keys (ss_receiver_chains s ! idx) = map (skey C k) is" "length is \<le> MAX_MESSAGE_KEYS" "c \<le> i" "i < 2 ^ 32"
  shows "skip_keys C p (of_nat i) (at_index C k c) s =
    (Inr (at_index C k i), update_chain idx (\<lambda>ch. ch\<lparr>ch_message_keys := map (skey C k) (skipped c i is)\<rparr>) s)"
  using assms(2-6)
proof (induction "i - c" arbitrary: c s "is")
  case 0
  then have "c = i" by simp
  moreover have "update_chain idx (\<lambda>ch. ch\<lparr>ch_message_keys := map (skey C k) is\<rparr>) s = s"
    by (rule update_chain_same) (simp flip: 0(3))
  ultimately show ?case
    using 0 by (simp add: skip_keys.simps skipped_def)
next
  case (Suc d)
  then have c: "c < i" "c < 2 ^ 32" "c + 1 < 2 ^ 32" by auto
  have idx: "idx < length (ss_receiver_chains s)" using chain_index_Some [OF Suc.prems(1)] .
  let ?f = "\<lambda>is ch. ch\<lparr>ch_message_keys := map (skey C k) is\<rparr>"
  let ?s = "update_chain idx (?f (take MAX_MESSAGE_KEYS (c # is))) s"
  have "skip_keys C p (of_nat i) (at_index C k c) s = skip_keys C p (of_nat i) (at_index C k (c + 1)) ?s"
    using set_message_keys_rx [OF assms(1) Suc.prems(1-3), of c] u32_order(1) [OF c(2) Suc.prems(5)] c(1) next_at_index [OF c(3), of C k]
    by (subst skip_keys.simps) simp
  also have "\<dots> = (Inr (at_index C k i), update_chain idx (?f (skipped (c + 1) i (take MAX_MESSAGE_KEYS (c # is)))) ?s)"
  proof (rule Suc.hyps(1))
    show "chain_index (ss_receiver_chains ?s) p = Inr (Some idx)"
      using Suc.prems(1) by (simp add: chain_index_update)
    show "ch_message_keys (ss_receiver_chains ?s ! idx) = map (skey C k) (take MAX_MESSAGE_KEYS (c # is))"
      using idx by (simp add: update_chain_nth)
  qed (use Suc c in auto)
  also have "\<dots> = (Inr (at_index C k i), update_chain idx (?f (skipped c i is)) s)"
    using idx by (simp add: skipped_step [OF c(1) Suc.prems(3), simplified] update_chain_twice comp_def)
  finally show ?case .
qed

lemma set_receiver_chain_key_rx:
  assumes "chain_index (ss_receiver_chains s) p = Inr (Some idx)"
  shows "set_receiver_chain_key p ck s = (Inr (), update_chain idx (\<lambda>ch. ch\<lparr>ch_key := Some (Some (ck_index ck), Some (ck_key ck))\<rparr>) s)"
  using assms by (simp add: set_receiver_chain_key_def st_defs)

text \<open>A request for a key of the chain: a kept key is returned and forgotten, a key that is gone is reported, and a key ahead moves
  the chain, unless it is too far ahead in a session with someone else.\<close>

lemma message_key_behind:
  assumes "session_laws C" "chain_index (ss_receiver_chains s) p = Inr (Some idx)" "rx C p k c is (ss_receiver_chains s ! idx)" "i < c"
  shows "get_or_create_message_key C p mtype (at_index C k c) (of_nat i) s =
    (if i \<in> set is
     then (Inr (Keys (mkey C k i)), update_chain idx (\<lambda>ch. ch\<lparr>ch_message_keys := map (skey C k) (remove1 i is)\<rparr>) s)
     else (Throw (DuplicatedMessage (of_nat c) (of_nat i)), s))"
proof -
  have "c < 2 ^ 32" using assms(3) by (simp add: rx_def)
  with assms(4) have i: "i < 2 ^ 32" "(of_nat i :: u32) < of_nat c"
    using u32_order(1) [of i c] by auto
  then show ?thesis
    using get_message_keys_rx [OF assms(1-3) i(1)] by (simp add: get_or_create_message_key_def sbind_def slift_def)
qed

lemma message_key_too_far:
  assumes "c < 2 ^ 32" "i < 2 ^ 32" "i - c > MAX_FORWARD_JUMPS" "session_with_self s = Inr False"
  shows "get_or_create_message_key C p mtype (at_index C k c) (of_nat i) s = (Throw (InvalidMessage mtype), s)"
proof -
  have "c \<le> i" using assms(3) by (simp add: MAX_FORWARD_JUMPS_def)
  then show ?thesis
    using assms u32_order(1) [OF assms(2,1)] u32_order(4) [OF assms(1,2)] by (simp add: get_or_create_message_key_def st_defs)
qed

lemma message_key_ahead:
  assumes "session_laws C" "chain_index (ss_receiver_chains s) p = Inr (Some idx)" "rx C p k c is (ss_receiver_chains s ! idx)"
    and "c \<le> i" "i + 1 < 2 ^ 32" "i - c \<le> MAX_FORWARD_JUMPS \<or> session_with_self s = Inr True"
  shows "get_or_create_message_key C p mtype (at_index C k c) (of_nat i) s =
    (Inr (chain_message_keys C (at_index C k i)),
     update_chain idx (\<lambda>ch. ch\<lparr>ch_message_keys := map (skey C k) (skipped c i is),
       ch_key := Some (Some (of_nat (i + 1)), Some (ckey C k (i + 1)))\<rparr>) s)"
proof -
  have c: "c < 2 ^ 32" "length is \<le> MAX_MESSAGE_KEYS" "ch_message_keys (ss_receiver_chains s ! idx) = map (skey C k) is"
    using assms(3) by (simp_all add: rx_def)
  have i: "i < 2 ^ 32" using assms(5) by simp
  have idx: "idx < length (ss_receiver_chains s)" using chain_index_Some [OF assms(2)] .
  let ?s = "update_chain idx (\<lambda>ch. ch\<lparr>ch_message_keys := map (skey C k) (skipped c i is)\<rparr>) s"
  have idx': "chain_index (ss_receiver_chains ?s) p = Inr (Some idx)"
    using assms(2) by (simp add: chain_index_update)
  have jump: "sbind (if unat (of_nat i - of_nat c :: u32) > MAX_FORWARD_JUMPS
      then sbind (sread session_with_self) (\<lambda>with_self. slift (if with_self then Inr () else Throw (InvalidMessage mtype)))
      else slift (Inr ())) f s = f () s" for f :: "unit \<Rightarrow> (key_generator, session) st"
    using u32_order(4) [OF c(1) i assms(4)] assms(6) by (auto simp: st_defs)
  have "\<not> (of_nat i :: u32) < of_nat c"
    using u32_order(1) [OF i c(1)] assms(4) by simp
  then show ?thesis
    using skip_keys_rx [OF assms(1,2) c(3,2) assms(4) i] set_receiver_chain_key_rx [OF idx', of "at_index C k (i + 1)"]
      next_at_index [OF assms(5), of C k]
    by (simp add: get_or_create_message_key_def jump)
       (simp add: sbind_def slift_def update_chain_twice [OF idx] comp_def)
qed

lemma rx_removed:
  assumes "rx C p k c is ch"
  shows "rx C p k c (remove1 i is) (ch\<lparr>ch_message_keys := map (skey C k) (remove1 i is)\<rparr>)"
  using assms by (auto simp: rx_def length_remove1 dest: notin_set_remove1 intro: order.trans [OF diff_le_self])

lemma rx_moved:
  assumes "rx C p k c is ch" "c \<le> i" "i + 1 < 2 ^ 32"
  shows "rx C p k (i + 1) (skipped c i is)
    (ch\<lparr>ch_message_keys := map (skey C k) (skipped c i is), ch_key := Some (Some (of_nat (i + 1)), Some (ckey C k (i + 1)))\<rparr>)"
proof -
  have "distinct (rev [c..<i] @ is)" "\<forall>j\<in>set (rev [c..<i] @ is). j < i + 1"
    using assms(1,2) by (auto simp: rx_def)
  then have "distinct (skipped c i is)" "\<forall>j\<in>set (skipped c i is). j < i + 1"
    unfolding skipped_def by (metis distinct_take, meson in_set_takeD)
  then show ?thesis
    using assms by (simp add: rx_def skipped_def)
qed

definition spent_index :: "('p, 's) session_crypto \<Rightarrow> public_key \<Rightarrow> bytes \<Rightarrow> nat \<Rightarrow> session \<Rightarrow> bool" where
  \<comment> \<open>the chain of the ratchet key is past message \<open>i\<close> and does not keep its key\<close>
  "spent_index C p k i s \<longleftrightarrow> (\<exists>idx c is. chain_index (ss_receiver_chains s) p = Inr (Some idx) \<and> rx C p k c is (ss_receiver_chains s ! idx)
     \<and> i < c \<and> i \<notin> set is)"

lemma message_key_rx:
  assumes "session_laws C" "chain_index (ss_receiver_chains s) p = Inr (Some idx)" "rx C p k c is (ss_receiver_chains s ! idx)"
    and "i \<in> set is \<or> c \<le> i \<and> i - c \<le> MAX_FORWARD_JUMPS \<and> i + 1 < 2 ^ 32"
  shows "\<exists>g ch c' is'. get_or_create_message_key C p mtype (at_index C k c) (of_nat i) s = (Inr g, update_chain idx (\<lambda>_. ch) s)
    \<and> generate_keys C g = Inr (mkey C k i) \<and> rx C p k c' is' ch \<and> i < c' \<and> i \<notin> set is'"
proof (cases "i < c")
  case True
  moreover have "distinct is" using assms(3) by (simp add: rx_def)
  ultimately show ?thesis
    using message_key_behind [OF assms(1-3) True, of mtype] assms(4) rx_removed [OF assms(3), of i]
    by (auto simp: update_chain_def intro!: exI [of _ c] exI [of _ "remove1 i is"])
next
  case False
  then have i: "c \<le> i" "i + 1 < 2 ^ 32" "i - c \<le> MAX_FORWARD_JUMPS \<or> session_with_self s = Inr True"
    using assms(3,4) by (auto simp: rx_def)
  have "i \<notin> set (rev [c..<i] @ is)" using assms(3) i(1) by (auto simp: rx_def)
  then have "i \<notin> set (skipped c i is)" unfolding skipped_def by (meson in_set_takeD)
  then show ?thesis
    using message_key_ahead [OF assms(1-3) i, of mtype] rx_moved [OF assms(3) i(1,2)] generate_at_index(1) [OF assms(1), of k i]
    by (auto simp: update_chain_def intro!: exI [of _ "i + 1"] exI [of _ "skipped c i is"])
qed

lemma spent_index_update:
  assumes "chain_index (ss_receiver_chains s) p = Inr (Some idx)" "rx C p k c is (ss_receiver_chains s ! idx)"
    and "rx C p k c' is' ch" "i < c'" "i \<notin> set is'"
  shows "spent_index C p k i (update_chain idx (\<lambda>_. ch) s)"
proof -
  have idx: "idx < length (ss_receiver_chains s)" using chain_index_Some [OF assms(1)] .
  have "map ch_ratchet (ss_receiver_chains (update_chain idx (\<lambda>_. ch) s)) = map ch_ratchet (ss_receiver_chains s)"
    using assms(2,3) idx by (intro nth_equalityI) (auto simp: update_chain_def rx_def nth_list_update)
  from chain_index_cong [OF this] assms(1)
  have "chain_index (ss_receiver_chains (update_chain idx (\<lambda>_. ch) s)) p = Inr (Some idx)" by simp
  moreover have "ss_receiver_chains (update_chain idx (\<lambda>_. ch) s) ! idx = ch" using idx by (simp add: update_chain_nth)
  ultimately show ?thesis using assms(3-5) unfolding spent_index_def by metis
qed

lemma replay_key:
  assumes "session_laws C" "spent_index C p k i s" "i < 2 ^ 32"
  obtains c where "get_receiver_chain_key p s = Inr (Some (at_index C k c))"
    "get_or_create_message_key C p mtype (at_index C k c) (of_nat i) s = (Throw (DuplicatedMessage (of_nat c) (of_nat i)), s)"
proof -
  obtain idx c "is" where h: "chain_index (ss_receiver_chains s) p = Inr (Some idx)" "rx C p k c is (ss_receiver_chains s ! idx)" "i < c" "i \<notin> set is"
    using assms(2) by (auto simp: spent_index_def)
  show thesis
    using message_key_behind [OF assms(1) h(1-3), of mtype] h(1,4) rx_chain_key [OF assms(1) h(2)]
    by (intro that [of c]) (simp_all add: get_receiver_chain_key_def)
qed

section \<open>Keys are handed out once\<close>

definition request_key :: "('p, 's) session_crypto \<Rightarrow> ciphertext_type \<Rightarrow> public_key \<Rightarrow> session \<Rightarrow> u32 \<Rightarrow> (key_generator \<times> session) sres" where
  \<comment> \<open>the key of a message of a known chain; the last counter, after which the index wraps to 0, is left out\<close>
  "request_key C mtype p s i =
     (if i = - 1 then Throw InvalidState
      else case get_receiver_chain_key p s of
             Inl e \<Rightarrow> Inl e
           | Inr None \<Rightarrow> Throw InvalidState
           | Inr (Some ck) \<Rightarrow>
               (case get_or_create_message_key C p mtype ck i s of
                  (Inr g, s') \<Rightarrow> Inr (g, s')
                | (Inl e, _) \<Rightarrow> Inl e))"

definition has_chain :: "('p, 's) session_crypto \<Rightarrow> public_key \<Rightarrow> session \<Rightarrow> bool" where
  "has_chain C p s \<longleftrightarrow> session_laws C
     \<and> (\<exists>idx k c is. chain_index (ss_receiver_chains s) p = Inr (Some idx) \<and> rx C p k c is (ss_receiver_chains s ! idx))"

definition spent_key :: "public_key \<Rightarrow> session \<Rightarrow> u32 \<Rightarrow> bool" where
  \<comment> \<open>the chain is past the message and does not keep its key\<close>
  "spent_key p s i \<longleftrightarrow> (\<exists>idx j ck. chain_index (ss_receiver_chains s) p = Inr (Some idx)
     \<and> ch_key (ss_receiver_chains s ! idx) = Some (Some j, ck) \<and> i < j
     \<and> (\<forall>m \<in> set (ch_message_keys (ss_receiver_chains s ! idx)). smk_index m \<noteq> Some i))"

lemma spent_key_iff:
  assumes "chain_index (ss_receiver_chains s) p = Inr (Some idx)" "rx C p k c is (ss_receiver_chains s ! idx)" "n < 2 ^ 32"
  shows "spent_key p s (of_nat n) \<longleftrightarrow> n < c \<and> n \<notin> set is"
proof -
  have c: "c < 2 ^ 32" "\<forall>i\<in>set is. i < 2 ^ 32" using assms(2) by (auto simp: rx_def)
  have "(\<forall>m \<in> set (map (skey C k) is). smk_index m \<noteq> Some (of_nat n)) \<longleftrightarrow> n \<notin> set is"
    using c(2) u32_order(2) [OF _ assms(3)] by (auto simp: skey_def)
  then show ?thesis
    using assms(1,2) u32_order(1) [OF assms(3) c(1)] by (simp add: spent_key_def rx_def)
qed

lemma last_counter: "n < 2 ^ 32 \<Longrightarrow> (of_nat n :: u32) \<noteq> - 1 \<Longrightarrow> n + 1 < 2 ^ 32"
  by (cases "n = 2 ^ 32 - 1") auto

lemma request_key_rx:
  assumes "session_laws C" "chain_index (ss_receiver_chains s) p = Inr (Some idx)" "rx C p k c is (ss_receiver_chains s ! idx)"
    and "n < 2 ^ 32" "request_key C mtype p s (of_nat n) = Inr (g, s')"
  obtains c' is' where "chain_index (ss_receiver_chains s') p = Inr (Some idx)" "rx C p k c' is' (ss_receiver_chains s' ! idx)"
    "c \<le> c'" "n < c'" "n \<notin> set is'" "\<And>m. m < c \<Longrightarrow> m \<notin> set is \<Longrightarrow> m \<notin> set is'"
proof -
  have idx: "idx < length (ss_receiver_chains s)" using chain_index_Some [OF assms(2)] .
  have "get_receiver_chain_key p s = Inr (Some (at_index C k c))"
    using assms(2) rx_chain_key [OF assms(1,3)] by (simp add: get_receiver_chain_key_def)
  then have g: "get_or_create_message_key C p mtype (at_index C k c) (of_nat n) s = (Inr g, s')" "(of_nat n :: u32) \<noteq> - 1"
    using assms(5) by (auto simp: request_key_def split: if_splits prod.splits sum.splits)
  have n: "n + 1 < 2 ^ 32" using last_counter [OF assms(4) g(2)] .
  show ?thesis
  proof (cases "n < c")
    case True
    then have "n \<in> set is" "s' = update_chain idx (\<lambda>ch. ch\<lparr>ch_message_keys := map (skey C k) (remove1 n is)\<rparr>) s"
      using message_key_behind [OF assms(1-3) True, of mtype] g(1) by (simp_all split: if_splits)
    moreover have "distinct is" using assms(3) by (simp add: rx_def)
    ultimately show ?thesis
      using True assms(2) rx_removed [OF assms(3), of n] idx
      by (intro that [of c "remove1 n is"]) (simp_all add: chain_index_update update_chain_nth set_remove1_eq)
  next
    case False
    then have "c \<le> n" by simp
    have "n - c \<le> MAX_FORWARD_JUMPS \<or> session_with_self s = Inr True"
    proof (rule ccontr)
      assume far: "\<not> ?thesis"
      have c: "c < 2 ^ 32" using assms(3) by (simp add: rx_def)
      have "\<not> (of_nat n :: u32) < of_nat c" "unat (of_nat n - of_nat c :: u32) > MAX_FORWARD_JUMPS"
        using u32_order(1) [OF assms(4) c] u32_order(4) [OF c assms(4) \<open>c \<le> n\<close>] far False by auto
      then show False
        using g(1) far by (cases "session_with_self s") (auto simp: get_or_create_message_key_def st_defs)
    qed
    from message_key_ahead [OF assms(1-3) \<open>c \<le> n\<close> n this, of mtype] g(1)
    have s': "s' = update_chain idx (\<lambda>ch. ch\<lparr>ch_message_keys := map (skey C k) (skipped c n is),
        ch_key := Some (Some (of_nat (n + 1)), Some (ckey C k (n + 1)))\<rparr>) s"
      by simp
    have sub: "set (skipped c n is) \<subseteq> {c..<n} \<union> set is"
      unfolding skipped_def using set_take_subset [of MAX_MESSAGE_KEYS "rev [c..<n] @ is"] by auto
    have "\<forall>i\<in>set is. i < c" using assms(3) by (simp add: rx_def)
    then show ?thesis
      using rx_moved [OF assms(3) \<open>c \<le> n\<close> n] sub False assms(2) idx
      by (intro that [of "n + 1" "skipped c n is"]) (auto simp: s' chain_index_update update_chain_nth)
  qed
qed

interpretation session_keys: one_time_keys "request_key C mtype p" "has_chain C p" "spent_key p" for C mtype p
proof
  fix s s' :: session and i j :: u32 and g
  assume valid: "has_chain C p s"
  obtain n where n: "i = of_nat n" "n < 2 ^ 32" by (rule u32_nat)
  obtain m where m: "j = of_nat m" "m < 2 ^ 32" by (rule u32_nat)
  obtain idx k c "is" where laws: "session_laws C" and h: "chain_index (ss_receiver_chains s) p = Inr (Some idx)"
      "rx C p k c is (ss_receiver_chains s ! idx)"
    using valid by (auto simp: has_chain_def)
  {
    assume "request_key C mtype p s i = Inr (g, s')"
    then obtain c' is' where h': "chain_index (ss_receiver_chains s') p = Inr (Some idx)" "rx C p k c' is' (ss_receiver_chains s' ! idx)"
        "c \<le> c'" "n < c'" "n \<notin> set is'" "\<And>m. m < c \<Longrightarrow> m \<notin> set is \<Longrightarrow> m \<notin> set is'"
      using request_key_rx [OF laws h n(2)] n(1) by metis
    show "has_chain C p s'" using laws h' by (auto simp: has_chain_def)
    show "spent_key p s' i" using spent_key_iff [OF h'(1,2) n(2)] h'(4,5) by (simp add: n(1))
    show "spent_key p s' j" if "spent_key p s j"
      using that spent_key_iff [OF h m(2)] spent_key_iff [OF h'(1,2) m(2)] h'(3,6) by (auto simp: m(1))
  }
  show "request_key C mtype p s i \<noteq> Inr (g, s')" if "spent_key p s i"
  proof
    assume r: "request_key C mtype p s i = Inr (g, s')"
    have spent: "n < c" "n \<notin> set is" using that spent_key_iff [OF h n(2)] by (simp_all add: n(1))
    have "get_receiver_chain_key p s = Inr (Some (at_index C k c))"
      using h(1) rx_chain_key [OF laws h(2)] by (simp add: get_receiver_chain_key_def)
    then show False
      using r message_key_behind [OF laws h spent(1), of mtype] spent(2) by (simp add: request_key_def n(1) split: if_splits)
  qed
qed

end
