(* ===== verification/Conversation.thy ===== *)
theory Conversation
  imports Session_Chains
begin

text \<open>
  Two parties that talk over one session: each sends when it likes, and the network delivers, delays, reorders and loses
  messages. The invariant describes both states by one sequence of ratchet keys, of which a party owns every second
  one, and by the root and chain keys that the sequence determines. It gives that every message that is still
  deliverable decrypts to what was sent.
\<close>

unbundle bit_operations_syntax

section \<open>The conversation\<close>

record conv =
  cv_state :: "bool \<Rightarrow> session"
  cv_sent :: "(bool \<times> signal_message \<times> bytes) set"
  cv_keys :: "public_key set"

text \<open>\<open>True\<close> is the party that started the session. A message is kept with its sender and its plaintext, \<open>cv_keys\<close> are the ratchet
  keys in use so far.\<close>

fun inner_message :: "ciphertext_message \<Rightarrow> signal_message option" where
  "inner_message (SignalMessage m) = Some m"
| "inner_message (PreKeySignalMessage m) = Some (pk_message m)"
| "inner_message _ = None"

definition derivable :: "chain \<Rightarrow> u32 \<Rightarrow> bool" where
  \<comment> \<open>the chain keeps the key of the message, or has not reached it and is near enough\<close>
  "derivable ch counter \<longleftrightarrow>
     (case chain_key_of (ch_key ch) of
        Inl _ \<Rightarrow> False
      | Inr ck \<Rightarrow>
          if counter < ck_index ck then (case key_position (ch_message_keys ch) counter of Inr (Some _) \<Rightarrow> True | _ \<Rightarrow> False)
          else unat (counter - ck_index ck) \<le> MAX_FORWARD_JUMPS)"

definition deliverable :: "conv \<Rightarrow> bool \<Rightarrow> signal_message \<Rightarrow> bool" where
  \<comment> \<open>the receiver can get the key from a chain that it has or from the sender's current ratchet key\<close>
  "deliverable v x m \<longleftrightarrow>
     (let chains = ss_receiver_chains (cv_state v (\<not> x)) in
      case chain_index chains (sm_ratchet_key m) of
        Inl _ \<Rightarrow> False
      | Inr None \<Rightarrow> sender_ratchet_key (cv_state v x) = Inr (sm_ratchet_key m) \<and> unat (sm_counter m) \<le> MAX_FORWARD_JUMPS
      | Inr (Some idx) \<Rightarrow> derivable (chains ! idx) (sm_counter m))"

definition fresh :: "('p, 's) session_crypto \<Rightarrow> conv \<Rightarrow> bytes \<Rightarrow> bool" where
  \<comment> \<open>the random bytes make a new ratchet key\<close>
  "fresh C v rnd \<longleftrightarrow> length rnd = 32 \<and> kp_public (key_pair_generate (s_curve C) rnd) \<notin> cv_keys v"

inductive conv_step :: "('p, 's) session_crypto \<Rightarrow> conv \<Rightarrow> conv \<Rightarrow> bool" for C where
  send: "encrypt_with_state C p (cv_state v x) = Inr (msg, their_identity, s) \<Longrightarrow> inner_message msg = Some m \<Longrightarrow>
    sm_counter m \<noteq> - 1 \<Longrightarrow>
    conv_step C v (v\<lparr>cv_state := (cv_state v)(x := s), cv_sent := insert (x, m, p) (cv_sent v)\<rparr>)"
| receive: "(x, m, p) \<in> cv_sent v \<Longrightarrow> deliverable v x m \<Longrightarrow> fresh C v rnd \<Longrightarrow>
    decrypt_message_with_state C rnd mtype m (cv_state v (\<not> x)) = (r, s) \<Longrightarrow>
    conv_step C v (v\<lparr>cv_state := (cv_state v)(\<not> x := s),
      cv_keys := insert (kp_public (key_pair_generate (s_curve C) rnd)) (cv_keys v)\<rparr>)"

section \<open>The invariant\<close>

definition kept :: "nat \<Rightarrow> nat list" where
  \<comment> \<open>the epochs whose chains the owner of epoch \<open>m\<close> keeps\<close>
  "kept m = (let es = filter (\<lambda>e. odd (m - e)) [0..<m] in drop (length es - MAX_RECEIVER_CHAINS) es)"

definition ratchets :: "('p, 's) session_crypto \<Rightarrow> (nat \<Rightarrow> key_pair) \<Rightarrow> (nat \<Rightarrow> bytes) \<Rightarrow> (nat \<Rightarrow> bytes) \<Rightarrow> nat \<Rightarrow> bool" where
  "ratchets C kp R K n \<longleftrightarrow>
     (\<forall>i \<le> n. pair_ok (s_curve C) (kp i) \<and> length (R i) = 32 \<and> length (K i) = 32)
   \<and> inj_on (\<lambda>i. kp_public (kp i)) {..n}
   \<and> (\<forall>i < n. create_chain C (R i) (kp_public (kp i)) (kp_private (kp (Suc i))) = Inr (R (Suc i), at_index C (K (Suc i)) 0))"

definition party ::
    "('p, 's) session_crypto \<Rightarrow> public_key \<Rightarrow> public_key \<Rightarrow> (nat \<Rightarrow> key_pair) \<Rightarrow> (nat \<Rightarrow> bytes) \<Rightarrow> (nat \<Rightarrow> bytes) \<Rightarrow> nat \<Rightarrow> nat \<Rightarrow> session \<Rightarrow> bool" where
  "party C me peer kp R K m t s \<longleftrightarrow>
     ss_version s = Some 3 \<and> ss_local_identity s = Some (public_serialize me) \<and> ss_remote_identity s = Some (public_serialize peer)
   \<and> ss_root_key s = Some (R m) \<and> t < 2 ^ 32 \<and> (\<exists>items. unacknowledged_pre_key_message_items s = Inr items)
   \<and> (\<exists>keys. ss_sender_chain s = Some \<lparr>ch_ratchet = Some (public_serialize (kp_public (kp m))),
        ch_private = Some (private_serialize (kp_private (kp m))), ch_key = Some (Some (of_nat t), Some (ckey C (K m) t)),
        ch_message_keys = keys\<rparr>)
   \<and> list_all2 (\<lambda>e ch. \<exists>c is. rx C (kp_public (kp e)) (K e) c is ch) (kept m) (ss_receiver_chains s)"

definition sealed_msg ::
    "('p, 's) session_crypto \<Rightarrow> public_key \<Rightarrow> public_key \<Rightarrow> public_key \<Rightarrow> bytes \<Rightarrow> nat \<Rightarrow> signal_message \<Rightarrow> bytes \<Rightarrow> bool" where
  \<comment> \<open>message \<open>i\<close> of the chain that starts with key \<open>k\<close>\<close>
  "sealed_msg C me peer ratchet k i m p \<longleftrightarrow>
     sm_version m = 3 \<and> sm_ratchet_key m = ratchet \<and> sm_counter m = of_nat i
   \<and> verify_mac C me peer (mk_mac (mkey C k i)) m = Inr True
   \<and> aes_256_cbc_decrypt_into (s_cbc C) (sm_ciphertext m) (mk_cipher (mkey C k i)) (mk_iv (mkey C k i)) = Inr p"

definition conv_rel ::
    "('p, 's) session_crypto \<Rightarrow> (bool \<Rightarrow> public_key) \<Rightarrow> (nat \<Rightarrow> key_pair) \<Rightarrow> (nat \<Rightarrow> bytes) \<Rightarrow> (nat \<Rightarrow> bytes) \<Rightarrow> (bool \<Rightarrow> nat) \<Rightarrow>
     (nat \<Rightarrow> nat) \<Rightarrow> nat \<Rightarrow> conv \<Rightarrow> bool" where
  \<comment> \<open>party \<open>x\<close> is in epoch \<open>ep x\<close>, and \<open>t j\<close> messages were sent in epoch \<open>j\<close>\<close>
  "conv_rel C ident kp R K ep t n v \<longleftrightarrow>
     odd (ep True) \<and> even (ep False) \<and> (\<exists>x. n = ep x \<and> n = Suc (ep (\<not> x)))
   \<and> ratchets C kp R K n \<and> (\<forall>i \<le> n. kp_public (kp i) \<in> cv_keys v)
   \<and> (\<forall>x. party C (ident x) (ident (\<not> x)) kp R K (ep x) (t (ep x)) (cv_state v x))
   \<and> (\<forall>x m p. (x, m, p) \<in> cv_sent v \<longrightarrow>
        (\<exists>j i. j \<le> ep x \<and> odd j = x \<and> i < t j \<and> t j < 2 ^ 32 \<and> sealed_msg C (ident x) (ident (\<not> x)) (kp_public (kp j)) (K j) i m p))"

definition conv_inv :: "('p, 's) session_crypto \<Rightarrow> (bool \<Rightarrow> public_key) \<Rightarrow> conv \<Rightarrow> bool" where
  "conv_inv C ident v \<longleftrightarrow> (\<exists>kp R K ep t n. conv_rel C ident kp R K ep t n v)"

section \<open>Epochs\<close>

lemma kept_step: "kept (m + 2) = (let es = kept m @ [m + 1] in if length es > MAX_RECEIVER_CHAINS then tl es else es)"
proof -
  define es where "es = filter (\<lambda>e. odd (m - e)) [0..<m]"
  have "filter (\<lambda>e. odd (m + 2 - e)) [0..<m + 2] = es @ [m + 1]"
  proof -
    have "filter (\<lambda>e. odd (m + 2 - e)) [0..<m] = es"
      unfolding es_def by (rule filter_cong) (auto simp: Suc_diff_le less_imp_le_nat)
    then show ?thesis by simp
  qed
  then have "kept (m + 2) = drop (length es + 1 - MAX_RECEIVER_CHAINS) (es @ [m + 1])"
    by (simp add: kept_def)
  moreover have "kept m = drop (length es - MAX_RECEIVER_CHAINS) es"
    by (simp add: kept_def es_def Let_def)
  moreover have "tl (drop (length es - 5) es @ [m + 1]) = drop (length es - 4) es @ [m + 1]" if "length es \<ge> 5"
  proof -
    have "length es - 4 = Suc (length es - 5)" "drop (length es - 5) es \<noteq> []" using that by auto
    then show ?thesis by (simp add: drop_Suc tl_drop)
  qed
  ultimately show ?thesis
    by (cases "length es \<ge> 5") (simp_all add: Let_def MAX_RECEIVER_CHAINS_def)
qed

lemma kept_less: "e \<in> set (kept m) \<Longrightarrow> e < m \<and> odd (m - e)"
  unfolding kept_def Let_def by (drule in_set_dropD) simp

lemma kept_previous: "0 < m \<Longrightarrow> m - 1 \<in> set (kept m)"
proof (induction m rule: less_induct)
  case (less m)
  show ?case
  proof (cases "m < 2")
    case True
    then have "m = 1" using less.prems by simp
    then show ?thesis by (simp add: kept_def MAX_RECEIVER_CHAINS_def)
  next
    case False
    then obtain k where k: "m = k + 2" by (metis add.commute le_Suc_ex not_less)
    show ?thesis
      unfolding k kept_step Let_def by (auto simp: MAX_RECEIVER_CHAINS_def tl_append split: list.split)
  qed
qed

lemma kept_inj:
  assumes "ratchets C kp R K n" "m \<le> n" "j \<le> n"
  shows "inj_on (\<lambda>i. kp_public (kp i)) (insert j (set (kept m)))"
proof (rule inj_on_subset)
  show "inj_on (\<lambda>i. kp_public (kp i)) {..n}" using assms(1) by (simp add: ratchets_def)
  show "insert j (set (kept m)) \<subseteq> {..n}" using assms(2,3) by (auto dest: kept_less)
qed

lemma distinct_kept: "distinct (kept m)"
  by (simp add: kept_def Let_def)

section \<open>Finding chains\<close>

lemma chain_index_rx:
  assumes "list_all2 (\<lambda>e ch. \<exists>c is. rx C (pub e) (K e) c is ch) es chs" "inj_on pub (insert j (set es))"
  shows "chain_index chs (pub j) = Inr (if j \<in> set es then Some (length (takeWhile (\<lambda>e. e \<noteq> j) es)) else None)"
  using assms
proof (induction es chs rule: list_all2_induct)
  case (Cons e es ch chs)
  have "ch_ratchet ch = Some (public_serialize (pub e))" "public_ok (pub e)"
    using Cons.hyps(1) by (auto simp: rx_def)
  moreover have "pub e = pub j \<longleftrightarrow> e = j"
    using inj_on_eq_iff [OF Cons.prems, of e j] by simp
  moreover have "inj_on pub (insert j (set es))"
    using Cons.prems by (rule inj_on_subset) auto
  ultimately show ?case
    using Cons.IH by simp
qed simp

lemma takeWhile_position: "j \<in> set es \<Longrightarrow> length (takeWhile (\<lambda>e. e \<noteq> j) es) < length es \<and> es ! length (takeWhile (\<lambda>e. e \<noteq> j) es) = j"
  by (induction es) auto

lemma party_identities:
  assumes "party C me peer kp R K m t s" "public_ok me" "public_ok peer" "length (R m) = 32"
  shows "local_identity_key s = Inr me" "remote_identity_key s = Inr (Some peer)" "session_version s = 3"
    "session_root_key s = Inr (R m)"
proof -
  have "length (public_serialize peer) \<noteq> 0" by (cases peer) simp
  then show "local_identity_key s = Inr me" "remote_identity_key s = Inr (Some peer)" "session_version s = 3"
      "session_root_key s = Inr (R m)"
    using assms by (simp_all add: party_def local_identity_key_def remote_identity_key_def session_version_def
        session_root_key_def or_empty_def sized_def)
qed

lemma party_sender:
  assumes "party C me peer kp R K m t s" "ratchets C kp R K n" "m \<le> n" "session_laws C" "curve_laws (s_curve C)"
  shows "sender_ratchet_key s = Inr (kp_public (kp m))" "sender_ratchet_private_key C s = Inr (kp_private (kp m))"
    "get_sender_chain_key s = Inr (at_index C (K m) t)" "length (R m) = 32" "pair_ok (s_curve C) (kp m)"
proof -
  have "pair_ok (s_curve C) (kp m)" "length (R m) = 32" "length (K m) = 32"
    using assms(2,3) by (auto simp: ratchets_def)
  moreover from this have "public_ok (kp_public (kp m))" "private_ok (s_curve C) (kp_private (kp m))" "length (ckey C (K m) t) = 32"
    using pair_public_ok [OF assms(5)] length_ckey [OF assms(4)] by (auto simp: pair_ok_def)
  ultimately show "sender_ratchet_key s = Inr (kp_public (kp m))" "sender_ratchet_private_key C s = Inr (kp_private (kp m))"
      "get_sender_chain_key s = Inr (at_index C (K m) t)" "length (R m) = 32" "pair_ok (s_curve C) (kp m)"
    using assms(1) by (auto simp: party_def sender_ratchet_key_def sender_ratchet_private_key_def get_sender_chain_key_def
        chain_key_of_def sized_def)
qed

lemma ratchets_both:
  assumes "ratchets C kp R K n" "i < n" "curve_laws (s_curve C)"
  shows "create_chain C (R i) (kp_public (kp (Suc i))) (kp_private (kp i)) = Inr (R (Suc i), at_index C (K (Suc i)) 0)"
proof -
  have "calculate_agreement (s_curve C) (kp_private (kp i)) (kp_public (kp (Suc i)))
      = calculate_agreement (s_curve C) (kp_private (kp (Suc i))) (kp_public (kp i))"
    using assms by (intro agreement_commutes) (auto simp: ratchets_def)
  then have "create_chain C (R i) (kp_public (kp (Suc i))) (kp_private (kp i))
      = create_chain C (R i) (kp_public (kp i)) (kp_private (kp (Suc i)))"
    by (simp add: create_chain_def)
  then show ?thesis using assms(1,2) by (simp add: ratchets_def)
qed

lemma create_chain_total:
  assumes "session_laws C"
  obtains r k where "create_chain C root pub priv = Inr (r, at_index C k 0)" "length r = 32" "length k = 32"
proof -
  have "hkdf_expands (s_hkdf C)" "(64 :: nat) \<le> 255 * 32" using assms by (simp_all add: session_laws_def)
  then obtain okm where "s_hkdf C (Some root) (calculate_agreement (s_curve C) priv pub) (as_bytes ''WhisperRatchet'') 64 = Some okm"
      "length okm = 64"
    using hkdf_expand by blast
  then show thesis
    by (intro that [of "take 32 okm" "take 32 (drop 32 okm)"]) (simp_all add: create_chain_def ckey_def)
qed

section \<open>Receiving\<close>

lemma decrypt_sealed:
  assumes "session_root_key s = Inr root" "session_version s = 3" "sealed_msg C peer me ratchet k i m p"
    and "get_or_create_chain_key C rnd ratchet s = (Inr ck, s1)"
    and "get_or_create_message_key C ratchet mtype ck (of_nat i) s1 = (Inr g, s2)"
    and "generate_keys C g = Inr (mkey C k i)" "remote_identity_key s2 = Inr (Some peer)" "local_identity_key s2 = Inr me"
  shows "decrypt_message_with_state C rnd mtype m s = (Inr p, clear_unacknowledged_pre_key_message s2)"
proof -
  have m: "sm_version m = 3" "sm_ratchet_key m = ratchet" "sm_counter m = of_nat i"
      "verify_mac C peer me (mk_mac (mkey C k i)) m = Inr True"
      "aes_256_cbc_decrypt_into (s_cbc C) (sm_ciphertext m) (mk_cipher (mkey C k i)) (mk_iv (mkey C k i)) = Inr p"
    using assms(3) by (simp_all add: sealed_msg_def)
  show ?thesis
    using assms(1,2,4-8) by (simp add: decrypt_message_with_state_def st_defs m)
qed

lemma party_clear: "party C me peer kp R K m t s \<Longrightarrow> party C me peer kp R K m t (clear_unacknowledged_pre_key_message s)"
  by (simp add: party_def clear_unacknowledged_pre_key_message_def unacknowledged_pre_key_message_items_def)

lemma spent_index_clear: "spent_index C p k i s \<Longrightarrow> spent_index C p k i (clear_unacknowledged_pre_key_message s)"
  by (simp add: spent_index_def clear_unacknowledged_pre_key_message_def)

lemma party_update:
  assumes "party C me peer kp R K m t s" "idx < length (kept m)" "rx C (kp_public (kp (kept m ! idx))) (K (kept m ! idx)) c is ch"
  shows "party C me peer kp R K m t (update_chain idx (\<lambda>_. ch) s)"
proof -
  have "list_all2 (\<lambda>e ch. \<exists>c is. rx C (kp_public (kp e)) (K e) c is ch) ((kept m)[idx := kept m ! idx]) ((ss_receiver_chains s)[idx := ch])"
    using assms by (intro list_all2_update_cong) (auto simp: party_def)
  then show ?thesis using assms(1) by (simp add: party_def update_chain_def unacknowledged_pre_key_message_items_def)
qed

lemma message_key_party:
  assumes laws: "session_laws C"
    and p: "party C me peer kp R K m t s" "ratchets C kp R K n" "m \<le> n" "j \<in> set (kept m)" "i + 1 < 2 ^ 32"
    and idx: "chain_index (ss_receiver_chains s) (kp_public (kp j)) = Inr (Some idx)" "derivable (ss_receiver_chains s ! idx) (of_nat i)"
  shows "\<exists>ck g s'. chain_key_of (ch_key (ss_receiver_chains s ! idx)) = Inr ck
    \<and> get_or_create_message_key C (kp_public (kp j)) mtype ck (of_nat i) s = (Inr g, s')
    \<and> generate_keys C g = Inr (mkey C (K j) i) \<and> party C me peer kp R K m t s' \<and> spent_index C (kp_public (kp j)) (K j) i s'"
proof -
  have inj: "inj_on (\<lambda>i. kp_public (kp i)) (insert j (set (kept m)))"
    by (rule kept_inj [OF p(2,3)]) (use kept_less [OF p(4)] p(3) in simp)
  have chains: "list_all2 (\<lambda>e ch. \<exists>c is. rx C (kp_public (kp e)) (K e) c is ch) (kept m) (ss_receiver_chains s)"
    using p(1) by (simp add: party_def)
  from chain_index_rx [where pub = "\<lambda>i. kp_public (kp i)", OF chains inj] idx(1) p(4)
  have pos: "idx < length (kept m)" "kept m ! idx = j"
    using takeWhile_position [OF p(4)] by auto
  then obtain c "is" where rx: "rx C (kp_public (kp j)) (K j) c is (ss_receiver_chains s ! idx)"
    using list_all2_nthD [OF chains, of idx] by auto
  have c: "c < 2 ^ 32" "\<forall>i\<in>set is. i < 2 ^ 32" using rx by (auto simp: rx_def)
  have i: "i < 2 ^ 32" using p(5) by simp
  have ck: "chain_key_of (ch_key (ss_receiver_chains s ! idx)) = Inr (at_index C (K j) c)" by (rule rx_chain_key [OF laws rx])
  have "i \<in> set is \<or> c \<le> i \<and> i - c \<le> MAX_FORWARD_JUMPS \<and> i + 1 < 2 ^ 32"
  proof (cases "i < c")
    case True
    then have "\<exists>pos. key_position (map (skey C (K j)) is) (of_nat i) = Inr (Some pos)"
      using idx(2) u32_order(1) [OF i c(1)] rx by (simp add: derivable_def ck rx_def split: sum.splits option.splits)
    then show ?thesis using key_position_skey [OF c(2) i, of C "K j"] by (auto split: if_splits)
  next
    case False
    then have "unat (of_nat i - of_nat c :: u32) \<le> MAX_FORWARD_JUMPS"
      using idx(2) u32_order(1) [OF i c(1)] by (simp add: derivable_def ck)
    then show ?thesis using u32_order(4) [OF c(1) i] False p(5) by simp
  qed
  from message_key_rx [OF laws idx(1) rx this, of mtype]
  obtain g ch c' is' where g: "get_or_create_message_key C (kp_public (kp j)) mtype (at_index C (K j) c) (of_nat i) s = (Inr g, update_chain idx (\<lambda>_. ch) s)"
      "generate_keys C g = Inr (mkey C (K j) i)" "rx C (kp_public (kp j)) (K j) c' is' ch" "i < c'" "i \<notin> set is'"
    by blast
  have "party C me peer kp R K m t (update_chain idx (\<lambda>_. ch) s)"
    by (rule party_update [OF p(1) pos(1)]) (use g(3) pos(2) in auto)
  then show ?thesis using ck g(1,2) spent_index_update [OF idx(1) rx g(3-5)] by blast
qed

lemma receive_known:
  assumes laws: "session_laws C" "public_ok me" "public_ok peer"
    and p: "party C me peer kp R K m t s" "ratchets C kp R K n" "m \<le> n" "j \<in> set (kept m)" "i + 1 < 2 ^ 32"
    and idx: "chain_index (ss_receiver_chains s) (kp_public (kp j)) = Inr (Some idx)" "derivable (ss_receiver_chains s ! idx) (of_nat i)"
    and msg: "sealed_msg C peer me (kp_public (kp j)) (K j) i msg pt"
  shows "\<exists>s'. decrypt_message_with_state C rnd mtype msg s = (Inr pt, s') \<and> party C me peer kp R K m t s'
    \<and> spent_index C (kp_public (kp j)) (K j) i s'"
proof -
  obtain ck g s' where k: "chain_key_of (ch_key (ss_receiver_chains s ! idx)) = Inr ck"
      "get_or_create_message_key C (kp_public (kp j)) mtype ck (of_nat i) s = (Inr g, s')"
      "generate_keys C g = Inr (mkey C (K j) i)" "party C me peer kp R K m t s'" "spent_index C (kp_public (kp j)) (K j) i s'"
    using message_key_party [OF laws(1) p idx, of mtype] by blast
  have R: "length (R m) = 32" using p(2,3) by (simp add: ratchets_def)
  have "get_or_create_chain_key C rnd (kp_public (kp j)) s = (Inr ck, s)"
    using idx(1) k(1) by (simp add: get_or_create_chain_key_def get_receiver_chain_key_def st_defs)
  from decrypt_sealed [OF party_identities(4,3) [OF p(1) laws(2,3) R] msg this k(2,3) party_identities(2,1) [OF k(4) laws(2,3) R]]
  show ?thesis using party_clear [OF k(4)] spent_index_clear [OF k(5)] by blast
qed

lemma party_cong:
  assumes "party C me peer kp R K m t s" "\<And>i. i \<le> m \<Longrightarrow> kp' i = kp i \<and> R' i = R i \<and> K' i = K i"
  shows "party C me peer kp' R' K' m t s"
proof -
  have "list_all2 (\<lambda>e ch. \<exists>c is. rx C (kp_public (kp' e)) (K' e) c is ch) (kept m) (ss_receiver_chains s)
      = list_all2 (\<lambda>e ch. \<exists>c is. rx C (kp_public (kp e)) (K e) c is ch) (kept m) (ss_receiver_chains s)"
  proof (rule list.rel_cong)
    fix e ch assume "e \<in> set (kept m)"
    then have "kp' e = kp e" "K' e = K e" using assms(2) [of e] kept_less [of e m] by auto
    then show "(\<exists>c is. rx C (kp_public (kp' e)) (K' e) c is ch) = (\<exists>c is. rx C (kp_public (kp e)) (K e) c is ch)" by simp
  qed simp_all
  then show ?thesis using assms(1) assms(2) [of m] by (simp add: party_def)
qed

lemma ratchets_extend:
  assumes "ratchets C kp R K (Suc m)" "pair_ok (s_curve C) p" "\<And>i. i \<le> Suc m \<Longrightarrow> kp_public (kp i) \<noteq> kp_public p"
    and "create_chain C (R (Suc m)) (kp_public (kp (Suc m))) (kp_private p) = Inr (r, at_index C k 0)" "length r = 32" "length k = 32"
  shows "ratchets C (kp(m + 2 := p)) (R(m + 2 := r)) (K(m + 2 := k)) (m + 2)"
proof -
  have "inj_on (\<lambda>i. kp_public ((kp(m + 2 := p)) i)) {..m + 2}"
  proof -
    have "inj_on (\<lambda>i. kp_public (kp i)) {..Suc m}" using assms(1) by (simp add: ratchets_def)
    moreover have "{..m + 2} = insert (m + 2) {..Suc m}" by auto
    ultimately show ?thesis using assms(3) assms(3) [symmetric] by (simp add: inj_on_def)
  qed
  then show ?thesis
    using assms by (auto simp: ratchets_def le_Suc_eq less_Suc_eq)
qed

lemma list_all2_tl: "list_all2 P xs ys \<Longrightarrow> list_all2 P (tl xs) (tl ys)"
  by (cases xs; cases ys) auto

lemma new_chain_party:
  assumes laws: "session_laws C" "curve_laws (s_curve C)"
    and p: "party C me peer kp R K m t s" "ratchets C kp R K (Suc m)"
    and new: "p = key_pair_generate (s_curve C) rnd" "create_chain C (R (Suc m)) (kp_public (kp (Suc m))) (kp_private p) = Inr (r, at_index C k 0)"
  obtains s1 where
    "get_or_create_chain_key C rnd (kp_public (kp (Suc m))) s = (Inr (at_index C (K (Suc m)) 0), s1)"
    "ch_key (last (ss_receiver_chains s1)) = Some (Some 0, Some (ckey C (K (Suc m)) 0))"
    "party C me peer (kp(m + 2 := p)) (R(m + 2 := r)) (K(m + 2 := k)) (m + 2) 0 s1"
proof -
  let ?kp = "kp(m + 2 := p)" and ?K = "K(m + 2 := k)" and ?pub = "\<lambda>e. kp_public (kp e)"
  let ?rel = "\<lambda>kp K e ch. \<exists>c is. rx C (kp_public (kp e)) (K e) c is ch"
  have rs: "list_all2 (?rel kp K) (kept m) (ss_receiver_chains s)" using p(1) by (simp add: party_def)
  have "Suc m \<notin> set (kept m)" using kept_less [of "Suc m" m] by auto
  then have none: "get_receiver_chain_key (?pub (Suc m)) s = Inr None"
    using chain_index_rx [where pub = ?pub, OF rs kept_inj [OF p(2), of m "Suc m"]] by (simp add: get_receiver_chain_key_def)
  note snd = party_sender [OF p le_SucI [OF order.refl] laws]
  define ch where "ch = \<lparr>ch_ratchet = Some (public_serialize (?pub (Suc m))), ch_private = Some [],
    ch_key = Some (Some 0, Some (ckey C (K (Suc m)) 0)), ch_message_keys = []\<rparr>"
  define chs where "chs = (let cs = ss_receiver_chains s @ [ch] in if length cs > MAX_RECEIVER_CHAINS then tl cs else cs)"
  define s1 where "s1 = set_sender_chain p (at_index C k 0) (set_previous_counter (if (of_nat t :: u32) > 0 then of_nat t - 1 else 0)
    ((set_root_key r s)\<lparr>ss_receiver_chains := chs\<rparr>))"
  have root: "session_root_key s = Inr (R m)" using p(1) snd(4) by (simp add: party_def session_root_key_def or_empty_def sized_def)
  have "get_sender_chain_key ((set_root_key r s)\<lparr>ss_receiver_chains := chs\<rparr>) = Inr (at_index C (K m) t)"
    using snd(3) by (simp add: get_sender_chain_key_def set_root_key_def)
  moreover have "add_receiver_chain (?pub (Suc m)) (at_index C (K (Suc m)) 0) (set_root_key r s) = (set_root_key r s)\<lparr>ss_receiver_chains := chs\<rparr>"
    by (simp add: add_receiver_chain_def chs_def ch_def set_root_key_def Let_def)
  ultimately have "get_or_create_chain_key C rnd (?pub (Suc m)) s = (Inr (at_index C (K (Suc m)) 0), s1)"
    using none root snd(2) ratchets_both [OF p(2) lessI laws(2)] new(2)
    by (simp add: get_or_create_chain_key_def st_defs new(1) [symmetric] s1_def Let_def)
  moreover have "ch_key (last (ss_receiver_chains s1)) = Some (Some 0, Some (ckey C (K (Suc m)) 0))"
    by (simp add: s1_def set_sender_chain_def set_previous_counter_def chs_def ch_def Let_def MAX_RECEIVER_CHAINS_def tl_append
        split: list.split)
  moreover have "party C me peer ?kp (R(m + 2 := r)) ?K (m + 2) 0 s1"
  proof -
    have rs': "list_all2 (?rel ?kp ?K) (kept m) (ss_receiver_chains s)"
      using party_cong [OF p(1), of ?kp "R(m + 2 := r)" ?K] by (simp add: party_def)
    have "length (K (Suc m)) = 32" "public_ok (?pub (Suc m))"
      using p(2) pair_public_ok [OF laws(2)] by (auto simp: ratchets_def)
    then have "?rel ?kp ?K (m + 1) ch"
      by (auto simp: rx_def ch_def intro!: exI [of _ 0])
    then have all: "list_all2 (?rel ?kp ?K) (kept m @ [m + 1]) (ss_receiver_chains s @ [ch])"
      by (intro list_all2_appendI [OF rs']) simp
    then have "list_all2 (?rel ?kp ?K) (kept (m + 2)) chs"
      using list_all2_tl [OF all] list_all2_lengthD [OF rs'] by (simp only: kept_step chs_def Let_def split: if_split) simp
    then show ?thesis
      using p(1) by (simp add: party_def s1_def set_sender_chain_def set_previous_counter_def set_root_key_def
          unacknowledged_pre_key_message_items_def)
  qed
  ultimately show thesis by (rule that)
qed

lemma last_chain_index:
  assumes "party C me peer kp R K (m + 2) t s" "ratchets C kp R K (m + 2)"
  obtains idx where "chain_index (ss_receiver_chains s) (kp_public (kp (Suc m))) = Inr (Some idx)"
    "ss_receiver_chains s ! idx = last (ss_receiver_chains s)"
proof -
  have chains: "list_all2 (\<lambda>e ch. \<exists>c is. rx C (kp_public (kp e)) (K e) c is ch) (kept (m + 2)) (ss_receiver_chains s)"
    using assms(1) by (simp add: party_def)
  have "kept (m + 2) = butlast (kept (m + 2)) @ [Suc m]"
    unfolding kept_step Let_def by (auto simp: MAX_RECEIVER_CHAINS_def tl_append split: list.split)
  then obtain ys where ys: "kept (m + 2) = ys @ [Suc m]" by blast
  then have "Suc m \<notin> set ys" using distinct_kept [of "m + 2"] by simp
  then have n: "length (takeWhile (\<lambda>e. e \<noteq> Suc m) (kept (m + 2))) = length ys" "Suc m \<in> set (kept (m + 2))"
    unfolding ys by (simp_all add: takeWhile_append)
  have len: "length (ss_receiver_chains s) = Suc (length ys)" using list_all2_lengthD [OF chains] unfolding ys by simp
  then have "ss_receiver_chains s \<noteq> []" by auto
  then have "ss_receiver_chains s ! length ys = last (ss_receiver_chains s)"
    using len by (simp add: last_conv_nth)
  moreover have "inj_on (\<lambda>i. kp_public (kp i)) (insert (Suc m) (set (kept (m + 2))))"
    by (rule kept_inj [OF assms(2)]) simp_all
  from chain_index_rx [where pub = "\<lambda>i. kp_public (kp i)", OF chains this]
  have "chain_index (ss_receiver_chains s) (kp_public (kp (Suc m))) = Inr (Some (length ys))"
    unfolding n(1) using n(2) by (simp only: if_True)
  ultimately show thesis by (intro that [of "length ys"])
qed

lemma receive_new:
  assumes laws: "session_laws C" "curve_laws (s_curve C)" "public_ok me" "public_ok peer"
    and p: "party C me peer kp R K m t s" "ratchets C kp R K (Suc m)"
    and new: "length rnd = 32" "p = key_pair_generate (s_curve C) rnd" "\<And>i. i \<le> Suc m \<Longrightarrow> kp_public (kp i) \<noteq> kp_public p"
    and msg: "sealed_msg C peer me (kp_public (kp (Suc m))) (K (Suc m)) i msg pt" "i \<le> MAX_FORWARD_JUMPS"
  shows "\<exists>s' r k. decrypt_message_with_state C rnd mtype msg s = (Inr pt, s')
    \<and> ratchets C (kp(m + 2 := p)) (R(m + 2 := r)) (K(m + 2 := k)) (m + 2)
    \<and> party C me peer (kp(m + 2 := p)) (R(m + 2 := r)) (K(m + 2 := k)) (m + 2) 0 s'
    \<and> spent_index C (kp_public (kp (Suc m))) (K (Suc m)) i s'"
proof -
  obtain r k where rk: "create_chain C (R (Suc m)) (kp_public (kp (Suc m))) (kp_private p) = Inr (r, at_index C k 0)"
      "length r = 32" "length k = 32"
    by (rule create_chain_total [OF laws(1)])
  let ?kp = "kp(m + 2 := p)" and ?R = "R(m + 2 := r)" and ?K = "K(m + 2 := k)"
  have "pair_ok (s_curve C) p" unfolding new(2) using generate_ok [OF laws(2) new(1)] .
  then have rs: "ratchets C ?kp ?R ?K (m + 2)" by (rule ratchets_extend [OF p(2) _ new(3) rk])
  obtain s1 where s1: "get_or_create_chain_key C rnd (kp_public (kp (Suc m))) s = (Inr (at_index C (K (Suc m)) 0), s1)"
      "ch_key (last (ss_receiver_chains s1)) = Some (Some 0, Some (ckey C (K (Suc m)) 0))" "party C me peer ?kp ?R ?K (m + 2) 0 s1"
    by (rule new_chain_party [OF laws(1,2) p new(2) rk(1)])
  obtain idx where idx: "chain_index (ss_receiver_chains s1) (kp_public (?kp (Suc m))) = Inr (Some idx)"
      "ss_receiver_chains s1 ! idx = last (ss_receiver_chains s1)"
    by (rule last_chain_index [OF s1(3) rs])
  have i: "i + 1 < 2 ^ 32" "i < 2 ^ 32" using msg(2) by (simp_all add: MAX_FORWARD_JUMPS_def)
  have "length (K (Suc m)) = 32" using p(2) by (simp add: ratchets_def)
  then have ck: "chain_key_of (ch_key (ss_receiver_chains s1 ! idx)) = Inr (at_index C (K (Suc m)) 0)"
    using length_ckey [OF laws(1)] by (simp add: idx(2) s1(2) chain_key_of_def sized_def)
  have "derivable (ss_receiver_chains s1 ! idx) (of_nat i)"
    using msg(2) u32_order(4) [of 0 i] i(2) by (simp add: derivable_def ck)
  moreover have "Suc m \<in> set (kept (m + 2))" using kept_previous [of "m + 2"] by simp
  ultimately obtain ck g s' where g: "chain_key_of (ch_key (ss_receiver_chains s1 ! idx)) = Inr ck"
      "get_or_create_message_key C (kp_public (?kp (Suc m))) mtype ck (of_nat i) s1 = (Inr g, s')"
      "generate_keys C g = Inr (mkey C (?K (Suc m)) i)" "party C me peer ?kp ?R ?K (m + 2) 0 s'"
      "spent_index C (kp_public (?kp (Suc m))) (?K (Suc m)) i s'"
    using message_key_party [OF laws(1) s1(3) rs order.refl _ i(1) idx(1), of mtype] by blast
  have same: "?kp (Suc m) = kp (Suc m)" "?K (Suc m) = K (Suc m)" "ck = at_index C (K (Suc m)) 0" using g(1) ck by simp_all
  have R: "length (R m) = 32" "length (?R (m + 2)) = 32" using p(2) rk(2) by (simp_all add: ratchets_def)
  from decrypt_sealed [OF party_identities(4,3) [OF p(1) laws(3,4) R(1)] msg(1) s1(1)
    g(2,3) [unfolded same] party_identities(2,1) [OF g(4) laws(3,4) R(2)]]
  show ?thesis using party_clear [OF g(4)] rs spent_index_clear [OF g(5) [unfolded same]] by blast
qed

section \<open>Sending\<close>

lemma sm_new_verifies:
  assumes "session_laws C" "length mac_key = 32"
  obtains m where "sm_new C 3 mac_key ratchet counter previous ct me peer = Inr m" "verify_mac C me peer mac_key m = Inr True"
    "sm_version m = 3" "sm_ratchet_key m = ratchet" "sm_counter m = counter" "sm_ciphertext m = ct"
proof -
  define body where "body = (push_bit 4 (3 AND 15) OR CIPHERTEXT_MESSAGE_CURRENT_VERSION)
    # encode_sm C (public_serialize ratchet) counter previous ct"
  define mac where "mac = take MAC_LENGTH (s_hmac C mac_key (public_serialize me @ public_serialize peer @ body))"
  define m where "m = \<lparr>sm_version = 3, sm_ratchet_key = ratchet, sm_counter = counter, sm_previous_counter = previous,
    sm_ciphertext = ct, sm_serialized = body @ mac\<rparr>"
  have mac: "compute_mac C me peer mac_key body = Inr mac" using assms(2) by (simp add: compute_mac_def mac_def)
  have "length mac = MAC_LENGTH" using assms(1) by (simp add: mac_def session_laws_def MAC_LENGTH_def)
  with mac have "verify_mac C me peer mac_key m = Inr True" by (simp add: verify_mac_def m_def)
  moreover have "sm_new C 3 mac_key ratchet counter previous ct me peer = Inr m"
    using mac by (simp add: sm_new_def m_def body_def)
  ultimately show thesis by (intro that [of m]) (simp_all add: m_def)
qed

lemma send_party:
  assumes laws: "session_laws C" "curve_laws (s_curve C)" "cbc_laws (s_cbc C)" "public_ok me" "public_ok peer"
    and p: "party C me peer kp R K m t s" "ratchets C kp R K n" "m \<le> n"
  obtains msg sm s' where "encrypt_with_state C p s = Inr (msg, peer, s')" "inner_message msg = Some sm"
    "sealed_msg C me peer (kp_public (kp m)) (K m) t sm p" "t + 1 < 2 ^ 32 \<longrightarrow> party C me peer kp R K m (t + 1) s'"
proof -
  note snd = party_sender [OF p laws(1,2)]
  note ids = party_identities [OF p(1) laws(4,5) snd(4)]
  note gen = generate_at_index [OF laws(1), of "K m" t]
  obtain items where items: "unacknowledged_pre_key_message_items s = Inr items" using p(1) by (auto simp: party_def)
  obtain ct where ct: "aes_256_cbc_encrypt_into (s_cbc C) p (mk_cipher (mkey C (K m) t)) (mk_iv (mkey C (K m) t)) [] = Inr ct"
    using cbc_total gen(4,6) by blast
  obtain sm where sm: "sm_new C 3 (mk_mac (mkey C (K m) t)) (kp_public (kp m)) (of_nat t) (previous_counter s) ct me peer = Inr sm"
      "verify_mac C me peer (mk_mac (mkey C (K m) t)) sm = Inr True"
      "sm_version sm = 3" "sm_ratchet_key sm = kp_public (kp m)" "sm_counter sm = of_nat t" "sm_ciphertext sm = ct"
    by (rule sm_new_verifies [OF laws(1) gen(5)])
  define s' where "s' = set_session_chain_key (next_chain_key C (at_index C (K m) t)) s"
  define msg where "msg = (case items of
      Some items \<Rightarrow> PreKeySignalMessage (pksm_new C 3 (session_local_registration_id s) (ui_pre_key_id items)
        (ui_signed_pre_key_id items) (ui_base_key items) me sm)
    | None \<Rightarrow> SignalMessage sm)"
  have "encrypt_with_state C p s = Inr (msg, peer, s')"
    using snd(1,3) ids ct sm(1) gen(1) items by (simp add: encrypt_with_state_def msg_def s'_def)
  moreover have "inner_message msg = Some sm" by (cases items) (simp_all add: msg_def pksm_new_def)
  moreover have "sealed_msg C me peer (kp_public (kp m)) (K m) t sm p"
    using sm cbc_roundtrip [OF laws(3) ct] by (simp add: sealed_msg_def)
  moreover have "t + 1 < 2 ^ 32 \<longrightarrow> party C me peer kp R K m (t + 1) s'"
    using p(1) next_at_index [of t C "K m"]
    by (auto simp: s'_def party_def set_session_chain_key_def unacknowledged_pre_key_message_items_def)
  ultimately show thesis by (rule that)
qed

section \<open>Every step keeps the invariant\<close>

definition crypto_ok :: "('p, 's) session_crypto \<Rightarrow> bool" where
  "crypto_ok C \<longleftrightarrow> session_laws C \<and> curve_laws (s_curve C) \<and> cbc_laws (s_cbc C)"

lemma conv_rel_facts:
  assumes "conv_rel C ident kp R K ep t n v"
  shows "odd (ep True) \<and> even (ep False)" "\<And>x. ep x \<le> n" "ep x = Suc (ep (\<not> x)) \<and> n = ep x \<or> ep (\<not> x) = Suc (ep x) \<and> n = ep (\<not> x)"
    "ratchets C kp R K n" "\<And>i. i \<le> n \<Longrightarrow> kp_public (kp i) \<in> cv_keys v"
    "\<And>x. party C (ident x) (ident (\<not> x)) kp R K (ep x) (t (ep x)) (cv_state v x)"
    "\<And>x m p. (x, m, p) \<in> cv_sent v \<Longrightarrow>
       \<exists>j i. j \<le> ep x \<and> odd j = x \<and> i < t j \<and> t j < 2 ^ 32 \<and> sealed_msg C (ident x) (ident (\<not> x)) (kp_public (kp j)) (K j) i m p"
proof -
  have "\<exists>z. n = ep z \<and> n = Suc (ep (\<not> z))" using assms by (simp only: conv_rel_def)
  then obtain z where z: "n = ep z" "n = Suc (ep (\<not> z))" by blast
  show "ep x \<le> n" for x using z by (cases "x = z") auto
  show "ep x = Suc (ep (\<not> x)) \<and> n = ep x \<or> ep (\<not> x) = Suc (ep x) \<and> n = ep (\<not> x)"
    using z by (cases "x = z") auto
qed (use assms in \<open>simp_all add: conv_rel_def\<close>)

lemma conv_rel_update:
  assumes "conv_rel C ident kp R K ep t n v" "party C (ident y) (ident (\<not> y)) kp R K (ep y) (t (ep y)) s"
  shows "conv_rel C ident kp R K ep t n (v\<lparr>cv_state := (cv_state v)(y := s), cv_keys := insert q (cv_keys v)\<rparr>)"
  using assms conv_rel_facts(6) [OF assms(1), of "\<not> y"] by (simp add: conv_rel_def)

lemma conv_rel_ratchet:
  assumes rel: "conv_rel C ident kp R K ep t n v" "n = Suc (ep y)"
    and new: "ratchets C (kp(n + 1 := p)) (R(n + 1 := r)) (K(n + 1 := k)) (n + 1)"
      "party C (ident y) (ident (\<not> y)) (kp(n + 1 := p)) (R(n + 1 := r)) (K(n + 1 := k)) (n + 1) 0 s"
  shows "conv_rel C ident (kp(n + 1 := p)) (R(n + 1 := r)) (K(n + 1 := k)) (ep(y := n + 1)) (t(n + 1 := 0)) (n + 1)
    (v\<lparr>cv_state := (cv_state v)(y := s), cv_keys := insert (kp_public p) (cv_keys v)\<rparr>)"
proof -
  note facts = conv_rel_facts [OF rel(1)]
  let ?kp = "kp(n + 1 := p)" and ?R = "R(n + 1 := r)" and ?K = "K(n + 1 := k)" and ?ep = "ep(y := n + 1)" and ?t = "t(n + 1 := 0)"
    and ?v = "v\<lparr>cv_state := (cv_state v)(y := s), cv_keys := insert (kp_public p) (cv_keys v)\<rparr>"
  have n: "ep (\<not> y) = n" using facts(3) [of y] rel(2) by linarith
  have "odd (?ep True) \<and> even (?ep False)" using facts(1) rel(2) by (cases y) simp_all
  moreover have "\<exists>x. n + 1 = ?ep x \<and> n + 1 = Suc (?ep (\<not> x))" using n by (intro exI [of _ y]) simp
  moreover have "kp_public (?kp i) \<in> insert (kp_public p) (cv_keys v)" if "i \<le> n + 1" for i
    using that facts(5) [of i] by (cases "i = n + 1") auto
  moreover have "party C (ident x) (ident (\<not> x)) ?kp ?R ?K (?ep x) (?t (?ep x)) (((cv_state v)(y := s)) x)" for x
  proof (cases "x = y")
    case False
    then have "x = (\<not> y)" by auto
    moreover have "party C (ident (\<not> y)) (ident (\<not> \<not> y)) ?kp ?R ?K (ep (\<not> y)) (t (ep (\<not> y))) (cv_state v (\<not> y))"
      by (rule party_cong [OF facts(6)]) (simp add: n)
    ultimately show ?thesis using n by simp
  qed (use new(2) in simp)
  moreover have "\<exists>j i. j \<le> ?ep x \<and> odd j = x \<and> i < ?t j \<and> ?t j < 2 ^ 32
      \<and> sealed_msg C (ident x) (ident (\<not> x)) (kp_public (?kp j)) (?K j) i m pt" if sent: "(x, m, pt) \<in> cv_sent v" for x m pt
  proof -
    obtain j i where "j \<le> ep x" "odd j = x" "i < t j" "t j < 2 ^ 32" "sealed_msg C (ident x) (ident (\<not> x)) (kp_public (kp j)) (K j) i m pt"
      using facts(7) [OF sent] by blast
    moreover have "ep x \<le> n" "ep x \<le> ?ep x" using facts(2) [of x] facts(2) [of y] by simp_all
    ultimately show ?thesis by (intro exI [of _ j] exI [of _ i]) simp
  qed
  moreover have "cv_state ?v = (cv_state v)(y := s)" "cv_sent ?v = cv_sent v" "cv_keys ?v = insert (kp_public p) (cv_keys v)"
    by simp_all
  ultimately show ?thesis using new(1) unfolding conv_rel_def by (metis (no_types, lifting))
qed

lemma conv_invI: "conv_rel C ident kp R K ep t n v \<Longrightarrow> conv_inv C ident v"
  unfolding conv_inv_def by blast

lemma receive_inv:
  assumes ok: "crypto_ok C" "\<And>x. public_ok (ident x)"
    and v: "conv_inv C ident v" "(x, m, p) \<in> cv_sent v" "deliverable v x m" "fresh C v rnd"
  obtains s where "decrypt_message_with_state C rnd mtype m (cv_state v (\<not> x)) = (Inr p, s)"
    "conv_inv C ident (v\<lparr>cv_state := (cv_state v)(\<not> x := s),
       cv_keys := insert (kp_public (key_pair_generate (s_curve C) rnd)) (cv_keys v)\<rparr>)"
    "\<exists>k i. spent_index C (sm_ratchet_key m) k i s \<and> sm_counter m = of_nat i \<and> i < 2 ^ 32"
proof -
  have laws: "session_laws C" "curve_laws (s_curve C)" using ok(1) by (simp_all add: crypto_ok_def)
  obtain kp R K ep t n where rel: "conv_rel C ident kp R K ep t n v" using v(1) by (auto simp: conv_inv_def)
  note facts = conv_rel_facts [OF rel]
  obtain j i where j: "j \<le> ep x" "i < t j" "t j < 2 ^ 32" and msg: "sealed_msg C (ident x) (ident (\<not> x)) (kp_public (kp j)) (K j) i m p"
    using facts(7) [OF v(2)] by blast
  have m: "sm_ratchet_key m = kp_public (kp j)" "sm_counter m = of_nat i" and i: "i + 1 < 2 ^ 32" "i < 2 ^ 32"
    using msg j by (simp_all add: sealed_msg_def)
  define y where "y = (\<not> x)"
  have party: "party C (ident y) (ident x) kp R K (ep y) (t (ep y)) (cv_state v y)" using facts(6) [of y] by (simp add: y_def)
  then have chains: "list_all2 (\<lambda>e ch. \<exists>c is. rx C (kp_public (kp e)) (K e) c is ch) (kept (ep y)) (ss_receiver_chains (cv_state v y))"
    by (simp add: party_def)
  have jn: "j \<le> n" using j(1) facts(2) [of x] by simp
  note idx = chain_index_rx [where pub = "\<lambda>i. kp_public (kp i)", OF chains kept_inj [OF facts(4) facts(2) jn]]
  let ?new = "key_pair_generate (s_curve C) rnd"
  have "\<exists>s. decrypt_message_with_state C rnd mtype m (cv_state v y) = (Inr p, s)
      \<and> conv_inv C ident (v\<lparr>cv_state := (cv_state v)(y := s), cv_keys := insert (kp_public ?new) (cv_keys v)\<rparr>)
      \<and> spent_index C (kp_public (kp j)) (K j) i s"
  proof (cases "j \<in> set (kept (ep y))")
    case True
    then have "\<exists>idx. chain_index (ss_receiver_chains (cv_state v y)) (kp_public (kp j)) = Inr (Some idx)" using idx by simp
    then obtain idx where idx': "chain_index (ss_receiver_chains (cv_state v y)) (kp_public (kp j)) = Inr (Some idx)" ..
    then have "derivable (ss_receiver_chains (cv_state v y) ! idx) (of_nat i)"
      using v(3) by (simp add: deliverable_def m y_def)
    then obtain s where s: "decrypt_message_with_state C rnd mtype m (cv_state v y) = (Inr p, s)"
        "party C (ident y) (ident x) kp R K (ep y) (t (ep y)) s" "spent_index C (kp_public (kp j)) (K j) i s"
      using receive_known [OF laws(1) ok(2) ok(2) party facts(4) facts(2) True i(1) idx' _ msg [folded y_def], of rnd mtype] by blast
    then have "conv_rel C ident kp R K ep t n (v\<lparr>cv_state := (cv_state v)(y := s), cv_keys := insert (kp_public ?new) (cv_keys v)\<rparr>)"
      by (intro conv_rel_update [OF rel]) (simp add: y_def)
    then show ?thesis using s(1,3) conv_invI by blast
  next
    case False
    then have none: "chain_index (ss_receiver_chains (cv_state v y)) (kp_public (kp j)) = Inr None" using idx by simp
    have far: "sender_ratchet_key (cv_state v x) = Inr (kp_public (kp j))" "i \<le> MAX_FORWARD_JUMPS"
      using v(3) none u32_order(3) [OF i(2) i(2)] by (simp_all add: deliverable_def m y_def)
    then have "kp_public (kp j) = kp_public (kp (ep x))"
      using party_sender(1) [OF facts(6) facts(4) facts(2) laws, of x] by simp
    moreover have "inj_on (\<lambda>i. kp_public (kp i)) {..n}" using facts(4) by (simp add: ratchets_def)
    ultimately have jx: "j = ep x" using jn facts(2) [of x] by (auto dest: inj_onD)
    have "ep y \<noteq> Suc (ep x)" using kept_previous [of "ep y"] False jx by auto
    then have ep: "ep x = Suc (ep y)" "n = Suc (ep y)" using facts(3) [of x] unfolding y_def by linarith+
    have new: "length rnd = 32" "\<And>i. i \<le> Suc (ep y) \<Longrightarrow> kp_public (kp i) \<noteq> kp_public ?new"
      using v(4) facts(5) unfolding fresh_def ep(2) by (simp, metis)
    have msg': "sealed_msg C (ident x) (ident y) (kp_public (kp (Suc (ep y)))) (K (Suc (ep y))) i m p"
      using msg by (simp add: y_def [symmetric] jx ep(1) [unfolded y_def])
    obtain s r k where s: "decrypt_message_with_state C rnd mtype m (cv_state v y) = (Inr p, s)"
        "ratchets C (kp(n + 1 := ?new)) (R(n + 1 := r)) (K(n + 1 := k)) (n + 1)"
        "party C (ident y) (ident x) (kp(n + 1 := ?new)) (R(n + 1 := r)) (K(n + 1 := k)) (n + 1) 0 s"
        "spent_index C (kp_public (kp j)) (K j) i s"
      using receive_new [OF laws ok(2) ok(2) party facts(4) [unfolded ep(2)] new(1) refl new(2) msg' far(2), of mtype] ep jx by auto
    have "party C (ident y) (ident (\<not> y)) (kp(n + 1 := ?new)) (R(n + 1 := r)) (K(n + 1 := k)) (n + 1) 0 s"
      using s(3) by (simp add: y_def)
    from conv_invI [OF conv_rel_ratchet [OF rel ep(2) s(2) this]] s(1,4) show ?thesis by blast
  qed
  then show thesis using that m i(2) unfolding y_def by metis
qed

lemma conv_rel_send:
  assumes rel: "conv_rel C ident kp R K ep t n v" "t (ep x) + 1 < 2 ^ 32"
    and new: "party C (ident x) (ident (\<not> x)) kp R K (ep x) (t (ep x) + 1) s"
      "sealed_msg C (ident x) (ident (\<not> x)) (kp_public (kp (ep x))) (K (ep x)) (t (ep x)) m p"
  shows "conv_rel C ident kp R K ep (t(ep x := t (ep x) + 1)) n
    (v\<lparr>cv_state := (cv_state v)(x := s), cv_sent := insert (x, m, p) (cv_sent v)\<rparr>)" (is "conv_rel _ _ _ _ _ _ ?t _ ?v")
proof -
  note facts = conv_rel_facts [OF rel(1)]
  have "party C (ident z) (ident (\<not> z)) kp R K (ep z) (?t (ep z)) (cv_state ?v z)" for z
  proof (cases "z = x")
    case False
    moreover from False have "ep z \<noteq> ep x" using facts(1) by (cases z; cases x) auto
    ultimately show ?thesis using facts(6) [of z] by simp
  qed (use new(1) in simp)
  moreover have "\<exists>j i. j \<le> ep z \<and> odd j = z \<and> i < ?t j \<and> ?t j < 2 ^ 32
      \<and> sealed_msg C (ident z) (ident (\<not> z)) (kp_public (kp j)) (K j) i m' p'" if sent: "(z, m', p') \<in> cv_sent ?v" for z m' p'
  proof (cases "(z, m', p') \<in> cv_sent v")
    case True
    from facts(7) [OF this] obtain j i where "j \<le> ep z" "odd j = z" "i < t j" "t j < 2 ^ 32"
        "sealed_msg C (ident z) (ident (\<not> z)) (kp_public (kp j)) (K j) i m' p'"
      by blast
    then show ?thesis using rel(2) by - (rule exI [of _ j], rule exI [of _ i], auto)
  next
    case False
    then have "z = x" "m' = m" "p' = p" using sent by simp_all
    moreover have "odd (ep x) = x" using facts(1) by (cases x) simp_all
    ultimately show ?thesis using new(2) rel(2) by - (rule exI [of _ "ep x"], rule exI [of _ "t (ep x)"], simp)
  qed
  moreover have "cv_keys ?v = cv_keys v" by simp
  ultimately show ?thesis using rel(1) unfolding conv_rel_def by (metis (no_types, lifting))
qed

lemma send_total:
  assumes ok: "crypto_ok C" "\<And>x. public_ok (ident x)" and rel: "conv_rel C ident kp R K ep t n v"
  obtains msg m s where "encrypt_with_state C p (cv_state v x) = Inr (msg, ident (\<not> x), s)" "inner_message msg = Some m"
    "sealed_msg C (ident x) (ident (\<not> x)) (kp_public (kp (ep x))) (K (ep x)) (t (ep x)) m p"
    "t (ep x) + 1 < 2 ^ 32 \<longrightarrow> party C (ident x) (ident (\<not> x)) kp R K (ep x) (t (ep x) + 1) s"
proof -
  have laws: "session_laws C" "curve_laws (s_curve C)" "cbc_laws (s_cbc C)" using ok(1) by (simp_all add: crypto_ok_def)
  show thesis
    by (rule send_party [OF laws ok(2) ok(2) conv_rel_facts(6,4,2) [OF rel]]) (rule that)
qed

lemma send_inv:
  assumes ok: "crypto_ok C" "\<And>x. public_ok (ident x)" and "conv_inv C ident v"
    and enc: "encrypt_with_state C p (cv_state v x) = Inr (msg, who, s)" "inner_message msg = Some m" "sm_counter m \<noteq> - 1"
  shows "conv_inv C ident (v\<lparr>cv_state := (cv_state v)(x := s), cv_sent := insert (x, m, p) (cv_sent v)\<rparr>)"
proof -
  obtain kp R K ep t n where rel: "conv_rel C ident kp R K ep t n v" using assms(3) by (auto simp: conv_inv_def)
  obtain msg' m' s' where e: "encrypt_with_state C p (cv_state v x) = Inr (msg', ident (\<not> x), s')" "inner_message msg' = Some m'"
      "sealed_msg C (ident x) (ident (\<not> x)) (kp_public (kp (ep x))) (K (ep x)) (t (ep x)) m' p"
      "t (ep x) + 1 < 2 ^ 32 \<longrightarrow> party C (ident x) (ident (\<not> x)) kp R K (ep x) (t (ep x) + 1) s'"
    by (rule send_total [OF ok rel])
  then have same: "m' = m" "s' = s" using enc(1,2) by simp_all
  have "sm_counter m = of_nat (t (ep x))" "t (ep x) < 2 ^ 32"
    using e(3) conv_rel_facts(6) [OF rel, of x] by (simp_all add: sealed_msg_def party_def same)
  then have "t (ep x) + 1 < 2 ^ 32" using enc(3) last_counter by metis
  from conv_invI [OF conv_rel_send [OF rel this e(4) [rule_format, OF this, unfolded same] e(3) [unfolded same]]]
  show ?thesis .
qed

lemma conv_step_inv:
  assumes "conv_step C v v'" "crypto_ok C" "\<And>x. public_ok (ident x)" "conv_inv C ident v"
  shows "conv_inv C ident v'"
  using assms(1)
proof cases
  case (send p x msg who s m)
  then show ?thesis using send_inv [OF assms(2-4)] by blast
next
  case (receive x m p rnd mtype r s)
  then show ?thesis using receive_inv [OF assms(2-4) receive(2-4), of mtype] by (metis prod.inject)
qed

lemma conv_steps_inv:
  assumes "(conv_step C)\<^sup>*\<^sup>* v v'" "crypto_ok C" "\<And>x. public_ok (ident x)" "conv_inv C ident v"
  shows "conv_inv C ident v'"
  using assms(1)
proof induction
  case base
  show ?case by (rule assms(4))
next
  case (step v1 v2)
  show ?case by (rule conv_step_inv [OF step.hyps(2) assms(2) _ step.IH]) (rule assms(3))
qed

section \<open>The start\<close>

definition alice_side :: "key_pair \<Rightarrow> key_pair \<Rightarrow> public_key \<Rightarrow> public_key \<Rightarrow> public_key option \<Rightarrow> alice_parameters" where
  \<comment> \<open>what the party that starts a session takes from the other's bundle, whose signed key is also its first ratchet key\<close>
  "alice_side identity base their_identity their_signed their_one_time =
     \<lparr>al_identity_pair = identity, al_base_pair = base, al_their_identity = their_identity, al_their_signed_pre_key = their_signed,
      al_their_one_time_pre_key = their_one_time, al_their_ratchet_key = their_signed\<rparr>"

definition bob_side :: "key_pair \<Rightarrow> key_pair \<Rightarrow> key_pair option \<Rightarrow> public_key \<Rightarrow> public_key \<Rightarrow> bob_parameters" where
  "bob_side identity signed_pair one_time their_identity their_base =
     \<lparr>bo_identity_pair = identity, bo_signed_pair = signed_pair, bo_one_time_pair = one_time, bo_ratchet_pair = signed_pair,
      bo_their_identity = their_identity, bo_their_base_key = their_base\<rparr>"

lemma derive_keys_total:
  assumes "session_laws C"
  obtains r k where "derive_keys C x = Inr (r, at_index C k 0)" "length r = 32" "length k = 32"
proof -
  have "hkdf_expands (s_hkdf C)" "(96 :: nat) \<le> 255 * 32" using assms by (simp_all add: session_laws_def)
  then obtain okm where "s_hkdf C None x (as_bytes ''WhisperText'') 96 = Some okm" "length okm = 96"
    using hkdf_expand by blast
  then show thesis
    by (intro that [of "take 32 okm" "take 32 (drop 32 okm)"]) (simp_all add: derive_keys_def ckey_def)
qed

lemma start_parties:
  assumes laws: "session_laws C" "curve_laws (s_curve C)" and rnd: "length rnd = 32" "g = key_pair_generate (s_curve C) rnd"
    and pairs: "pair_ok (s_curve C) ia" "pair_ok (s_curve C) ba" "pair_ok (s_curve C) ib" "pair_ok (s_curve C) sb"
      "\<And>k. ob = Some k \<Longrightarrow> pair_ok (s_curve C) k" "kp_public sb \<noteq> kp_public g"
  obtains a b kp R K where
    "initialize_alice_session C rnd (alice_side ia ba (kp_public ib) (kp_public sb) (map_option kp_public ob)) = Inr a"
    "initialize_bob_session C (bob_side ib sb ob (kp_public ia) (kp_public ba)) = Inr b"
    "ratchets C kp R K 1" "kp 0 = sb" "kp 1 = g"
    "party C (kp_public ia) (kp_public ib) kp R K 1 0 a" "party C (kp_public ib) (kp_public ia) kp R K 0 0 b"
proof -
  let ?agree = "calculate_agreement (s_curve C)"
  note comm = agreement_commutes [OF laws(2)]
  define x where "x = replicate 32 255 @ ?agree (kp_private ia) (kp_public sb) @ ?agree (kp_private ba) (kp_public ib)
    @ ?agree (kp_private ba) (kp_public sb) @ (case ob of None \<Rightarrow> [] | Some k \<Rightarrow> ?agree (kp_private ba) (kp_public k))"
  have x': "replicate 32 255 @ ?agree (kp_private sb) (kp_public ia) @ ?agree (kp_private ib) (kp_public ba)
    @ ?agree (kp_private sb) (kp_public ba) @ (case ob of None \<Rightarrow> [] | Some k \<Rightarrow> ?agree (kp_private k) (kp_public ba)) = x"
    using comm [OF pairs(1,4)] comm [OF pairs(2,3)] comm [OF pairs(2,4)] comm [OF pairs(2) pairs(5)]
    by (cases ob) (simp_all add: x_def)
  obtain r0 k0 where d: "derive_keys C x = Inr (r0, at_index C k0 0)" "length r0 = 32" "length k0 = 32"
    by (rule derive_keys_total [OF laws(1)])
  obtain r1 k1 where c: "create_chain C r0 (kp_public sb) (kp_private g) = Inr (r1, at_index C k1 0)" "length r1 = 32" "length k1 = 32"
    by (rule create_chain_total [OF laws(1)])
  define kp where "kp i = (if i = 0 then sb else g)" for i :: nat
  define R where "R i = (if i = 0 then r0 else r1)" for i :: nat
  define K where "K i = (if i = 0 then k0 else k1)" for i :: nat
  have g: "pair_ok (s_curve C) g" unfolding rnd(2) using generate_ok [OF laws(2) rnd(1)] .
  define b where "b = set_sender_chain sb (at_index C k0 0) (session_new 3 (kp_public ib) (kp_public ia) r0 (kp_public ba))"
  define a where "a = set_sender_chain g (at_index C k1 0) (add_receiver_chain (kp_public sb) (at_index C k0 0)
    (session_new 3 (kp_public ia) (kp_public ib) r1 (kp_public ba)))"
  have "initialize_bob_session C (bob_side ib sb ob (kp_public ia) (kp_public ba)) = Inr b"
    using d(1) by (simp add: initialize_bob_session_def bob_side_def x' b_def Let_def cong: option.case_cong)
  moreover have "initialize_alice_session C rnd (alice_side ia ba (kp_public ib) (kp_public sb) (map_option kp_public ob)) = Inr a"
    using d(1) c(1)
    by (simp add: initialize_alice_session_def alice_side_def a_def rnd(2) [symmetric] case_map_option comp_def Let_def
        x_def [symmetric] cong: option.case_cong)
  moreover have "ratchets C kp R K 1"
  proof -
    have "{..1 :: nat} = {0, 1}" by auto
    then show ?thesis
      using g pairs(4,6) d c by (auto simp: ratchets_def kp_def R_def K_def le_Suc_eq)
  qed
  moreover have "party C (kp_public ib) (kp_public ia) kp R K 0 0 b"
    by (simp add: party_def b_def set_sender_chain_def session_new_def kp_def R_def K_def unacknowledged_pre_key_message_items_def kept_def)
  moreover have "party C (kp_public ia) (kp_public ib) kp R K 1 0 a"
    using d(3) pair_public_ok [OF laws(2) pairs(4)]
    by (simp add: party_def a_def set_sender_chain_def add_receiver_chain_def session_new_def kp_def R_def K_def
        unacknowledged_pre_key_message_items_def kept_def MAX_RECEIVER_CHAINS_def rx_def exI [of _ 0])
  ultimately show thesis by (intro that [of a b kp R K]) (simp_all add: kp_def)
qed

definition start_conv ::
    "('p, 's) session_crypto \<Rightarrow> bytes \<Rightarrow> key_pair \<Rightarrow> key_pair \<Rightarrow> key_pair \<Rightarrow> key_pair \<Rightarrow> key_pair option \<Rightarrow> u32 option \<Rightarrow> u32 \<Rightarrow> conv sres" where
  \<comment> \<open>both ends of a session that is set up from a bundle, before the first message\<close>
  "start_conv C rnd ia ba ib sb ob pre_key_id signed_id =
     rbind (initialize_alice_session C rnd (alice_side ia ba (kp_public ib) (kp_public sb) (map_option kp_public ob))) (\<lambda>a.
     rbind (initialize_bob_session C (bob_side ib sb ob (kp_public ia) (kp_public ba))) (\<lambda>b.
     Inr \<lparr>cv_state = (\<lambda>x. if x then set_unacknowledged_pre_key_message pre_key_id signed_id (kp_public ba) a else b), cv_sent = {},
          cv_keys = {kp_public sb, kp_public (key_pair_generate (s_curve C) rnd)}\<rparr>))"

lemma party_pending:
  assumes "party C me peer kp R K m t s" "public_ok b"
  shows "party C me peer kp R K m t (set_unacknowledged_pre_key_message i j b s)"
  using assms by (simp add: party_def set_unacknowledged_pre_key_message_def unacknowledged_pre_key_message_items_def)

lemma start_inv:
  assumes ok: "crypto_ok C" and rnd: "length rnd = 32" "kp_public sb \<noteq> kp_public (key_pair_generate (s_curve C) rnd)"
    and pairs: "pair_ok (s_curve C) ia" "pair_ok (s_curve C) ba" "pair_ok (s_curve C) ib" "pair_ok (s_curve C) sb"
      "\<And>k. ob = Some k \<Longrightarrow> pair_ok (s_curve C) k"
  obtains v where "start_conv C rnd ia ba ib sb ob i j = Inr v"
    "conv_inv C (\<lambda>x. if x then kp_public ia else kp_public ib) v"
proof -
  let ?g = "key_pair_generate (s_curve C) rnd"
  have laws: "session_laws C" "curve_laws (s_curve C)" using ok by (simp_all add: crypto_ok_def)
  obtain a b kp R K where
    s: "initialize_alice_session C rnd (alice_side ia ba (kp_public ib) (kp_public sb) (map_option kp_public ob)) = Inr a"
      "initialize_bob_session C (bob_side ib sb ob (kp_public ia) (kp_public ba)) = Inr b" and
    rs: "ratchets C kp R K 1" "kp 0 = sb" "kp 1 = ?g" and
    p: "party C (kp_public ia) (kp_public ib) kp R K 1 0 a" "party C (kp_public ib) (kp_public ia) kp R K 0 0 b"
    using start_parties [OF laws rnd(1) refl pairs rnd(2)] by blast
  define v where "v = \<lparr>cv_state = (\<lambda>x. if x then set_unacknowledged_pre_key_message i j (kp_public ba) a else b), cv_sent = {},
    cv_keys = {kp_public sb, kp_public ?g}\<rparr>"
  have "party C (kp_public ia) (kp_public ib) kp R K 1 0 (set_unacknowledged_pre_key_message i j (kp_public ba) a)"
    by (rule party_pending [OF p(1) pair_public_ok [OF laws(2) pairs(2)]])
  then have "conv_rel C (\<lambda>x. if x then kp_public ia else kp_public ib) kp R K (\<lambda>x. if x then 1 else 0) (\<lambda>_. 0) 1 v"
    using p(2) rs by (auto simp: conv_rel_def v_def le_Suc_eq)
  then have "conv_inv C (\<lambda>x. if x then kp_public ia else kp_public ib) v" by (rule conv_invI)
  moreover have "start_conv C rnd ia ba ib sb ob i j = Inr v" by (simp add: start_conv_def s v_def)
  ultimately show thesis by (rule that [rotated])
qed

section \<open>Sound states\<close>

definition sound_chain :: "chain \<Rightarrow> bool" where
  "sound_chain ch \<longleftrightarrow> (\<exists>p. public_ok p \<and> ch_ratchet ch = Some (public_serialize p)) \<and> (\<exists>k. chain_key_of (ch_key ch) = Inr k)
     \<and> length (ch_message_keys ch) \<le> MAX_MESSAGE_KEYS \<and> (\<forall>m \<in> set (ch_message_keys ch). (\<exists>g. from_pb m = Inr g) \<and> smk_index m \<noteq> None)"

definition sound_session :: "('p, 's) session_crypto \<Rightarrow> session \<Rightarrow> bool" where
  \<comment> \<open>every field that is read is there, in its format, and the limits hold\<close>
  "sound_session C s \<longleftrightarrow> session_version s = 3 \<and> (\<exists>k. local_identity_key s = Inr k) \<and> (\<exists>k. remote_identity_key s = Inr (Some k))
     \<and> (\<exists>r. session_root_key s = Inr r) \<and> (\<exists>k. sender_ratchet_key s = Inr k) \<and> (\<exists>k. sender_ratchet_private_key C s = Inr k)
     \<and> (\<exists>k. get_sender_chain_key s = Inr k) \<and> (\<exists>i. unacknowledged_pre_key_message_items s = Inr i)
     \<and> length (ss_receiver_chains s) \<le> MAX_RECEIVER_CHAINS \<and> (\<forall>ch \<in> set (ss_receiver_chains s). sound_chain ch)"

lemma length_kept: "length (kept m) \<le> MAX_RECEIVER_CHAINS"
  by (simp add: kept_def Let_def)

lemma rx_sound: "session_laws C \<Longrightarrow> rx C p k c is ch \<Longrightarrow> sound_chain ch"
  using rx_chain_key [of C p k c "is" ch] generate_at_index(3) [of C k]
  by (auto simp: sound_chain_def rx_def) (simp add: skey_def)

lemma party_sound:
  assumes "session_laws C" "curve_laws (s_curve C)" "party C me peer kp R K m t s" "ratchets C kp R K n" "m \<le> n"
    and "public_ok me" "public_ok peer"
  shows "sound_session C s"
proof -
  note snd = party_sender [OF assms(3-5,1,2)]
  have chains: "list_all2 (\<lambda>e ch. \<exists>c is. rx C (kp_public (kp e)) (K e) c is ch) (kept m) (ss_receiver_chains s)"
    "\<exists>i. unacknowledged_pre_key_message_items s = Inr i" using assms(3) by (simp_all add: party_def)
  have "sound_chain ch" if "ch \<in> set (ss_receiver_chains s)" for ch
    using that chains(1) rx_sound [OF assms(1)] by (auto simp: list_all2_conv_all_nth in_set_conv_nth)
  moreover have "length (ss_receiver_chains s) \<le> MAX_RECEIVER_CHAINS"
    using list_all2_lengthD [OF chains(1)] length_kept [of m] by simp
  ultimately show ?thesis
    using party_identities [OF assms(3,6,7) snd(4)] snd chains(2) by (simp add: sound_session_def)
qed

lemma conv_sound:
  assumes "crypto_ok C" "\<And>x. public_ok (ident x)" "conv_inv C ident v"
  shows "sound_session C (cv_state v x)"
proof -
  obtain kp R K ep t n where rel: "conv_rel C ident kp R K ep t n v" using assms(3) by (auto simp: conv_inv_def)
  show ?thesis
    using party_sound [OF _ _ conv_rel_facts(6,4,2) [OF rel] assms(2,2)] assms(1) by (simp add: crypto_ok_def)
qed

section \<open>An instance\<close>

text \<open>Keys are zeros and the codes of numbers and texts are written one after the other.\<close>

definition toy_u32 :: "nat \<Rightarrow> bytes \<Rightarrow> u32" where
  "toy_u32 n bs = u32_from_be (bs ! n) (bs ! (n + 1)) (bs ! (n + 2)) (bs ! (n + 3))"

definition toy_session :: "(4 word, 4 word) session_crypto" where
  "toy_session = \<lparr>s_hkdf = \<lambda>_ _ _ n. Some (replicate n 0), s_hmac = \<lambda>_ _. replicate 32 0, s_cbc = toy_cbc, s_curve = toy_curve,
     encode_sm = \<lambda>k i p c. u32_to_be i @ u32_to_be p @ toy_pack k @ c,
     decode_sm = \<lambda>bs. Some (Some (fst (toy_unpack (drop 8 bs))), Some (toy_u32 0 bs), Some (toy_u32 4 bs),
       Some (snd (toy_unpack (drop 8 bs)))),
     encode_pksm = \<lambda>r p s b i m. u32_to_be r @ u32_to_be s @ (case p of None \<Rightarrow> [0, 0, 0, 0, 0] | Some p \<Rightarrow> 1 # u32_to_be p)
       @ toy_pack b @ toy_pack i @ m,
     decode_pksm = \<lambda>bs. let (b, x) = toy_unpack (drop 13 bs); (i, m) = toy_unpack x in
       Some (Some (toy_u32 0 bs), if bs ! 8 = 0 then None else Some (toy_u32 9 bs),
         Some (toy_u32 4 bs), Some b, Some i, Some m)\<rparr>"

definition toy_key :: "byte \<Rightarrow> key_pair" where
  "toy_key b = \<lparr>kp_public = DjbPublicKey (replicate 32 b), kp_private = DjbPrivateKey (replicate 32 b)\<rparr>"

lemma toy_session_curve [simp]: "s_curve toy_session = toy_curve"
  by (simp add: toy_session_def)

lemma toy_session_ok: "crypto_ok toy_session"
  using toy_curve_laws(1) toy_cbc_laws by (simp add: crypto_ok_def session_laws_def hkdf_expands_def toy_session_def)

lemma toy_key_ok [simp]: "pair_ok toy_curve (toy_key b)" "public_ok (kp_public (toy_key b))"
  by (simp_all add: toy_key_def pair_ok_def toy_curve_keys)

lemma toy_generate [simp]: "key_pair_generate toy_curve (replicate 32 b) = toy_key b"
  by (simp add: key_pair_generate_def toy_key_def toy_curve_keys Let_def)

lemma toy_key_public [simp]: "kp_public (toy_key b) = kp_public (toy_key c) \<longleftrightarrow> b = c"
  by (simp add: toy_key_def)

definition toy_chain :: "byte \<Rightarrow> bytes \<Rightarrow> chain" where
  "toy_chain b private = \<lparr>ch_ratchet = Some (5 # replicate 32 b), ch_private = Some private, ch_key = Some (Some 0, Some (replicate 32 0)),
     ch_message_keys = []\<rparr>"

definition toy_end :: "byte \<Rightarrow> byte \<Rightarrow> chain \<Rightarrow> chain list \<Rightarrow> session" where
  "toy_end me peer sender receivers =
     \<lparr>ss_version = Some 3, ss_local_identity = Some (5 # replicate 32 me), ss_remote_identity = Some (5 # replicate 32 peer),
      ss_root_key = Some (replicate 32 0), ss_previous_counter = Some 0, ss_sender_chain = Some sender, ss_receiver_chains = receivers,
      ss_pending = None, ss_remote_registration_id = Some 0, ss_local_registration_id = Some 0,
      ss_alice_base_key = Some (5 # replicate 32 2)\<rparr>"

definition toy_conv :: conv where
  "toy_conv = \<lparr>cv_state = (\<lambda>x. if x then set_unacknowledged_pre_key_message (Some 8) 9 (kp_public (toy_key 2))
        (toy_end 1 3 (toy_chain 5 (replicate 32 5)) [toy_chain 4 []])
      else toy_end 3 1 (toy_chain 4 (replicate 32 4)) []),
     cv_sent = {}, cv_keys = {kp_public (toy_key 4), kp_public (toy_key 5)}\<rparr>"

lemma toy_start: "start_conv toy_session (replicate 32 5) (toy_key 1) (toy_key 2) (toy_key 3) (toy_key 4) (Some (toy_key 6)) (Some 8) 9 = Inr toy_conv"
proof -
  have hkdf: "s_hkdf toy_session x y z n = Some (replicate n 0)" for x y z n by (simp add: toy_session_def)
  show ?thesis
    by (simp add: start_conv_def initialize_alice_session_def initialize_bob_session_def derive_keys_def create_chain_def hkdf
        alice_side_def bob_side_def set_sender_chain_def add_receiver_chain_def session_new_def MAX_RECEIVER_CHAINS_def
        toy_conv_def toy_end_def toy_chain_def toy_key_def Let_def cong: if_cong)
qed

lemma toy_send:
  obtains msg m s where "encrypt_with_state toy_session [1, 2] (cv_state toy_conv True) = Inr (msg, kp_public (toy_key 3), s)"
    "inner_message msg = Some m" "sm_counter m = 0" "sm_ratchet_key m = kp_public (toy_key 5)" "sender_ratchet_key s = Inr (kp_public (toy_key 5))"
proof -
  have prim: "s_hkdf toy_session x y z n = Some (replicate n 0)" "s_hmac toy_session k d = replicate 32 0" "s_cbc toy_session = toy_cbc"
    for x y z n k d by (simp_all add: toy_session_def)
  have "\<exists>msg s. encrypt_with_state toy_session [1, 2] (cv_state toy_conv True) = Inr (msg, kp_public (toy_key 3), s)
      \<and> (\<exists>m. inner_message msg = Some m \<and> sm_counter m = 0 \<and> sm_ratchet_key m = kp_public (toy_key 5))
      \<and> sender_ratchet_key s = Inr (kp_public (toy_key 5))"
    by (simp add: encrypt_with_state_def get_sender_chain_key_def sender_ratchet_key_def session_version_def local_identity_key_def
        remote_identity_key_def unacknowledged_pre_key_message_items_def set_unacknowledged_pre_key_message_def
        chain_key_of_def sized_def or_empty_def chain_message_keys_def derive_message_keys_def prim
        aes_256_cbc_encrypt_into_def public_deserialize_def key_type_try_from_def sm_new_def compute_mac_def pksm_new_def
        set_session_chain_key_def toy_conv_def toy_end_def toy_chain_def toy_key_def Let_def)
  then show thesis using that by blast
qed

lemma toy_sent:
  obtains v m where "(conv_step toy_session)\<^sup>*\<^sup>* toy_conv v" "(True, m, [1, 2]) \<in> cv_sent v" "deliverable v True m"
    "fresh toy_session v (replicate 32 7)" "sm_counter m = 0"
proof -
  obtain msg m s where m: "encrypt_with_state toy_session [1, 2] (cv_state toy_conv True) = Inr (msg, kp_public (toy_key 3), s)"
      "inner_message msg = Some m" "sm_counter m = 0" "sm_ratchet_key m = kp_public (toy_key 5)" "sender_ratchet_key s = Inr (kp_public (toy_key 5))"
    by (rule toy_send)
  define v where "v = toy_conv\<lparr>cv_state := (cv_state toy_conv)(True := s), cv_sent := insert (True, m, [1, 2]) (cv_sent toy_conv)\<rparr>"
  have "conv_step toy_session toy_conv v"
    unfolding v_def by (rule conv_step.send [OF m(1,2)]) (simp add: m(3))
  then have "(conv_step toy_session)\<^sup>*\<^sup>* toy_conv v" by blast
  then show thesis
    using m(3-5) by (intro that [of v m]) (simp_all add: deliverable_def fresh_def v_def toy_conv_def toy_end_def)
qed

section \<open>Properties\<close>

lemma reachable_inv:
  assumes ok: "crypto_ok C" and rnd: "length rnd = 32" "kp_public sb \<noteq> kp_public (key_pair_generate (s_curve C) rnd)"
    and pairs: "\<forall>k \<in> {ia, ba, ib, sb} \<union> set_option ob. pair_ok (s_curve C) k"
    and run: "start_conv C rnd ia ba ib sb ob i j = Inr v0" "(conv_step C)\<^sup>*\<^sup>* v0 v"
  defines "ident \<equiv> \<lambda>x. if x then kp_public ia else kp_public ib"
  shows "\<And>x. public_ok (ident x)" "conv_inv C ident v"
proof -
  have "curve_laws (s_curve C)" using ok by (simp add: crypto_ok_def)
  from pair_public_ok [OF this, of ia] pair_public_ok [OF this, of ib] pairs
  show ids: "public_ok (ident x)" for x by (simp add: ident_def)
  obtain v1 where "start_conv C rnd ia ba ib sb ob i j = Inr v1" "conv_inv C ident v1"
    unfolding ident_def
    by (rule start_inv [OF ok rnd, where ia = ia and ba = ba and ib = ib and ob = ob and i = i and j = j]) (use pairs in auto)
  then have "conv_inv C ident v0" using run(1) by simp
  then show "conv_inv C ident v" using conv_steps_inv [OF run(2) ok, of ident] ids by blast
qed

text \<open>C1: Two parties set up a session from one party's keys and then send as they like, while the network delays,
  reorders, repeats and loses messages. In every state that they can reach, a message that was sent and that is still deliverable
  (the receiver keeps its key, has its chain and is at most the allowed jump behind, or does not know the sender's current
  ratchet key yet) decrypts to exactly what was sent, whoever sent it, however often the ratchet has turned in between.\<close>

theorem conversation_delivery:
  assumes "crypto_ok C" "length rnd = 32" "kp_public sb \<noteq> kp_public (key_pair_generate (s_curve C) rnd)"
    and "\<forall>k \<in> {ia, ba, ib, sb} \<union> set_option ob. pair_ok (s_curve C) k"
    and "start_conv C rnd ia ba ib sb ob i j = Inr v0" "(conv_step C)\<^sup>*\<^sup>* v0 v"
    and "(x, m, p) \<in> cv_sent v" "deliverable v x m" "fresh C v rnd'"
  shows "\<exists>s. decrypt_message_with_state C rnd' mtype m (cv_state v (\<not> x)) = (Inr p, s)"
  using receive_inv [OF assms(1) reachable_inv [OF assms(1-6)] assms(7-9), of mtype] by blast

theorem conversation_delivery_witness:
  "\<exists>v m s. (conv_step toy_session)\<^sup>*\<^sup>* toy_conv v \<and> (True, m, [1, 2]) \<in> cv_sent v
     \<and> decrypt_message_with_state toy_session (replicate 32 7) PreKey m (cv_state v False) = (Inr [1, 2], s)"
proof -
  obtain v m where run: "(conv_step toy_session)\<^sup>*\<^sup>* toy_conv v" and v: "(True, m, [1, 2]) \<in> cv_sent v" "deliverable v True m"
      "fresh toy_session v (replicate 32 7)"
    by (rule toy_sent)
  have "\<exists>s. decrypt_message_with_state toy_session (replicate 32 7) PreKey m (cv_state v (\<not> True)) = (Inr [1, 2], s)"
    by (rule conversation_delivery [OF toy_session_ok _ _ _ toy_start run v]) simp_all
  then show ?thesis using run v(1) by auto
qed

lemma replay_fails:
  assumes "session_laws C" "spent_index C (sm_ratchet_key m) k i s" "sm_counter m = of_nat i" "i < 2 ^ 32" "sm_version m = 3"
    and "session_version s = 3" "session_root_key s = Inr r"
  shows "\<exists>c. decrypt_message_with_state C rnd mtype m s = (Throw (DuplicatedMessage c (sm_counter m)), s)"
proof -
  obtain c where "get_receiver_chain_key (sm_ratchet_key m) s = Inr (Some (at_index C k c))"
      "get_or_create_message_key C (sm_ratchet_key m) mtype (at_index C k c) (of_nat i) s = (Throw (DuplicatedMessage (of_nat c) (of_nat i)), s)"
    by (rule replay_key [OF assms(1,2,4)])
  then show ?thesis
    using assms(3,5-7) by (simp add: decrypt_message_with_state_def get_or_create_chain_key_def st_defs)
qed

text \<open>C2: In every state of a conversation, after a message was decrypted, decrypting it again with the new state fails as a
  duplicate and changes nothing, whether its key was kept from earlier, derived from a known chain or derived from a new
  ratchet key.\<close>

theorem conversation_no_replay:
  assumes "crypto_ok C" "length rnd = 32" "kp_public sb \<noteq> kp_public (key_pair_generate (s_curve C) rnd)"
    and "\<forall>k \<in> {ia, ba, ib, sb} \<union> set_option ob. pair_ok (s_curve C) k"
    and "start_conv C rnd ia ba ib sb ob i j = Inr v0" "(conv_step C)\<^sup>*\<^sup>* v0 v"
    and "(x, m, p) \<in> cv_sent v" "deliverable v x m" "fresh C v rnd'"
    and "decrypt_message_with_state C rnd' mtype m (cv_state v (\<not> x)) = (r, s)"
  shows "\<exists>c. decrypt_message_with_state C rnd'' mtype' m s = (Throw (DuplicatedMessage c (sm_counter m)), s)"
proof -
  note inv = reachable_inv [OF assms(1-6)]
  obtain s' where s': "decrypt_message_with_state C rnd' mtype m (cv_state v (\<not> x)) = (Inr p, s')"
      "conv_inv C (\<lambda>x. if x then kp_public ia else kp_public ib) (v\<lparr>cv_state := (cv_state v)(\<not> x := s'),
        cv_keys := insert (kp_public (key_pair_generate (s_curve C) rnd')) (cv_keys v)\<rparr>)"
      "\<exists>k i. spent_index C (sm_ratchet_key m) k i s' \<and> sm_counter m = of_nat i \<and> i < 2 ^ 32"
    by (rule receive_inv [OF assms(1) inv assms(7-9)])
  have s: "s' = s" using s'(1) assms(10) by simp
  have "sound_session C s"
    using conv_sound [OF assms(1) inv(1) s'(2), of "\<not> x"] by (simp add: s)
  moreover obtain kp R K ep t n where rel: "conv_rel C (\<lambda>x. if x then kp_public ia else kp_public ib) kp R K ep t n v"
    using inv(2) by (auto simp: conv_inv_def)
  moreover have "sm_version m = 3" using conv_rel_facts(7) [OF rel assms(7)] unfolding sealed_msg_def by blast
  moreover have "session_laws C" using assms(1) by (simp add: crypto_ok_def)
  ultimately show ?thesis
    using s'(3) replay_fails [of C m _ _ s] unfolding s sound_session_def by blast
qed

theorem conversation_no_replay_witness:
  "\<exists>v m s c. (conv_step toy_session)\<^sup>*\<^sup>* toy_conv v
     \<and> decrypt_message_with_state toy_session (replicate 32 7) PreKey m (cv_state v False) = (Inr [1, 2], s)
     \<and> decrypt_message_with_state toy_session (replicate 32 8) PreKey m s = (Throw (DuplicatedMessage c 0), s)"
proof -
  obtain v m where run: "(conv_step toy_session)\<^sup>*\<^sup>* toy_conv v" and v: "(True, m, [1, 2]) \<in> cv_sent v" "deliverable v True m"
      "fresh toy_session v (replicate 32 7)" "sm_counter m = 0"
    by (rule toy_sent)
  have ok: "length (replicate 32 (5 :: byte)) = 32"
      "kp_public (toy_key 4) \<noteq> kp_public (key_pair_generate (s_curve toy_session) (replicate 32 5))"
      "\<forall>k \<in> {toy_key 1, toy_key 2, toy_key 3, toy_key 4} \<union> set_option (Some (toy_key 6)). pair_ok (s_curve toy_session) k"
    by simp_all
  obtain s where s: "decrypt_message_with_state toy_session (replicate 32 7) PreKey m (cv_state v (\<not> True)) = (Inr [1, 2], s)"
    by (rule receive_inv [OF toy_session_ok reachable_inv [OF toy_session_ok ok toy_start run] v(1-3)])
  obtain c where "decrypt_message_with_state toy_session (replicate 32 8) PreKey m s = (Throw (DuplicatedMessage c (sm_counter m)), s)"
    using conversation_no_replay [OF toy_session_ok ok toy_start run v(1-3) s] by blast
  then show ?thesis using run s v(4) by (metis (full_types))
qed

text \<open>C3: In every state of a conversation either party can encrypt any text: no field that encryption reads is missing or
  malformed, and the message carries the ratchet key of the sender's chain.\<close>

theorem conversation_sends:
  assumes "crypto_ok C" "length rnd = 32" "kp_public sb \<noteq> kp_public (key_pair_generate (s_curve C) rnd)"
    and "\<forall>k \<in> {ia, ba, ib, sb} \<union> set_option ob. pair_ok (s_curve C) k"
    and "start_conv C rnd ia ba ib sb ob i j = Inr v0" "(conv_step C)\<^sup>*\<^sup>* v0 v"
  shows "\<exists>msg m s. encrypt_with_state C p (cv_state v x) = Inr (msg, if x then kp_public ib else kp_public ia, s)
    \<and> inner_message msg = Some m \<and> sender_ratchet_key (cv_state v x) = Inr (sm_ratchet_key m)"
proof -
  note inv = reachable_inv [OF assms]
  from inv(2) obtain kp R K ep t n where rel: "conv_rel C (\<lambda>x. if x then kp_public ia else kp_public ib) kp R K ep t n v"
    by (auto simp: conv_inv_def)
  have laws: "session_laws C" "curve_laws (s_curve C)" using assms(1) by (simp_all add: crypto_ok_def)
  have "sender_ratchet_key (cv_state v x) = Inr (kp_public (kp (ep x)))"
    by (rule party_sender(1) [OF conv_rel_facts(6,4,2) [OF rel] laws])
  then show ?thesis
    by (rule_tac send_total [OF assms(1) inv(1) rel, where p = p and x = x]) (auto simp: sealed_msg_def)
qed

theorem conversation_sends_witness:
  "\<exists>msg m s. encrypt_with_state toy_session [3] (cv_state toy_conv False) = Inr (msg, kp_public (toy_key 1), s)
     \<and> inner_message msg = Some m \<and> sender_ratchet_key (cv_state toy_conv False) = Inr (sm_ratchet_key m)"
  using conversation_sends [OF toy_session_ok _ _ _ toy_start rtranclp.rtrancl_refl, of "[3]" False] by simp

text \<open>C4: Every state of a conversation is sound: version, identities, root key, sender chain and pending message can be
  read, there are at most five receiver chains, each has a readable ratchet key and chain key and keeps at most 2000 readable
  message keys.\<close>

theorem session_states_sound:
  assumes "crypto_ok C" "length rnd = 32" "kp_public sb \<noteq> kp_public (key_pair_generate (s_curve C) rnd)"
    and "\<forall>k \<in> {ia, ba, ib, sb} \<union> set_option ob. pair_ok (s_curve C) k"
    and "start_conv C rnd ia ba ib sb ob i j = Inr v0" "(conv_step C)\<^sup>*\<^sup>* v0 v"
  shows "sound_session C (cv_state v x)"
  using conv_sound [OF assms(1) reachable_inv [OF assms]] by blast

theorem session_states_sound_witness: "sound_session toy_session (cv_state toy_conv True)"
  using session_states_sound [OF toy_session_ok _ _ _ toy_start rtranclp.rtrancl_refl, of True] by simp

end
