(* ===== verification/Tables.thy ===== *)
theory Tables
  imports Sync Curve "HOL-Library.AList"
begin

text \<open>
  What the two database backends share: the errors of a store, the tables with their primary keys
  (\<^verbatim>\<open>schema.rs\<close> of both storage crates), the execution of a statement on a blocking thread, the retry loop of the
  writes that matter most, and the device data. A table is a list of rows, each with its primary key, in
  the order in which the rows were inserted; a query without an order is modelled in that order. What the pool, the engine and
  the runtime do to an attempt is a value of type \<open>attempt\<close>, an argument of every operation.
\<close>

unbundle bit_operations_syntax

section \<open>Errors and attempts\<close>

type_synonym i32 = "32 word"
type_synonym i64 = "64 word"

datatype store_error =
    Io string
  | Serialization string
  | NotFound string
  | Backend string
  | Connection string
  | Database string
  | Migration string
  | DeviceNotFound i32

type_synonym 'a store_result = "('a, store_error) result"

fun error_text :: "store_error \<Rightarrow> string" where
  \<comment> \<open>the text of an error, up to the number in the last case\<close>
  "error_text (Io e) = ''I/O error: '' @ e"
| "error_text (Serialization e) = ''Serialization/deserialization error: '' @ e"
| "error_text (NotFound e) = ''Item not found: '' @ e"
| "error_text (Backend e) = ''Database backend error: '' @ e"
| "error_text (Connection e) = ''Database connection error: '' @ e"
| "error_text (Database e) = ''Database operation error: '' @ e"
| "error_text (Migration e) = ''Migration error: '' @ e"
| "error_text (DeviceNotFound i) = ''Device with ID not found''"

fun contains :: "string \<Rightarrow> string \<Rightarrow> bool" where
  "contains p [] \<longleftrightarrow> p = []"
| "contains p (c # s) \<longleftrightarrow> take (length p) (c # s) = p \<or> contains p s"

text \<open>
  An attempt runs its statements, is refused by the pool or the engine before it changes anything, or its task is
  lost. Where the code first waits for a permit of the semaphore, that may be closed. The texts
  of errors that come from other packages are not modelled: they are empty.
\<close>

datatype attempt = Done | Refused store_error | Lost string | Closed string

definition blocking :: "attempt \<Rightarrow> ('d \<Rightarrow> 'a store_result \<times> 'd) \<Rightarrow> 'd \<Rightarrow> 'a store_result \<times> 'd" where
  \<comment> \<open>one closure on a blocking thread, without a permit\<close>
  "blocking att f db =
     (case att of Refused e \<Rightarrow> (Throw e, db) | Lost m \<Rightarrow> (Throw (Database m), db) | _ \<Rightarrow> f db)"

definition query :: "('d \<Rightarrow> 'a) \<Rightarrow> 'd \<Rightarrow> 'a store_result \<times> 'd" where
  "query f db = (Inr (f db), db)"

definition execute :: "('d \<Rightarrow> 'd) \<Rightarrow> 'd \<Rightarrow> unit store_result \<times> 'd" where
  "execute f db = (Inr (), f db)"

fun execute_each :: "(nat \<Rightarrow> attempt) \<Rightarrow> nat \<Rightarrow> ('d \<Rightarrow> 'd) list \<Rightarrow> 'd \<Rightarrow> unit store_result \<times> 'd" where
  \<comment> \<open>statements one after the other, outside a transaction: those before a refused one stay\<close>
  "execute_each att i [] db = (Inr (), db)"
| "execute_each att i (f # fs) db =
     (case att i of Refused e \<Rightarrow> (Throw e, db)
                  | Lost m \<Rightarrow> (Throw (Database m), db)
                  | _ \<Rightarrow> execute_each att (Suc i) fs (f db))"

definition and_then :: "('d \<Rightarrow> 'a store_result \<times> 'd) \<Rightarrow> ('a \<Rightarrow> 'd \<Rightarrow> 'b store_result \<times> 'd) \<Rightarrow> 'd \<Rightarrow> 'b store_result \<times> 'd" where
  \<comment> \<open>two statements of one closure, outside a transaction\<close>
  "and_then m k db = (case m db of (Inl e, db') \<Rightarrow> (Inl e, db') | (Inr x, db') \<Rightarrow> k x db')"

definition MAX_RETRIES :: nat where "MAX_RETRIES = 5"

definition retriable :: "store_error \<Rightarrow> bool" where
  "retriable e \<longleftrightarrow> contains ''locked'' (error_text e) \<or> contains ''busy'' (error_text e)"

function retry_loop :: "(nat \<Rightarrow> attempt) \<Rightarrow> string \<Rightarrow> string \<Rightarrow> ('d \<Rightarrow> 'd) \<Rightarrow> nat \<Rightarrow> 'd \<Rightarrow> unit store_result \<times> nat list \<times> 'd" where
  \<comment> \<open>with the texts of the two errors of its own; the second component is the list of waits, in milliseconds\<close>
  "retry_loop att sem what f n db =
     (if n > MAX_RETRIES then (Throw (Database what), [], db)
      else case att n of
             Done \<Rightarrow> (Inr (), [], f db)
           | Refused e \<Rightarrow>
               if retriable e \<and> n < MAX_RETRIES
               then let (r, waits, db') = retry_loop att sem what f (n + 1) db in (r, 10 * 2 ^ n # waits, db')
               else (Throw e, [], db)
           | Lost m \<Rightarrow> (Throw (Database (''Task join error: '' @ m)), [], db)
           | Closed m \<Rightarrow> (Throw (Database (sem @ m)), [], db))"
  by pat_completeness auto
termination by (relation "measure (\<lambda>(_, _, _, _, n, _). Suc MAX_RETRIES - n)") auto

declare retry_loop.simps [simp del]

section \<open>Devices\<close>

record 'a core_device =
  cd_pn :: "jid option"
  cd_lid :: "jid option"
  cd_registration_id :: u32
  cd_noise_key :: key_pair
  cd_identity_key :: key_pair
  cd_signed_pre_key :: key_pair
  cd_signed_pre_key_id :: u32
  cd_signed_pre_key_signature :: bytes
  cd_adv_secret_key :: bytes
  cd_account :: "'a option"
  cd_push_name :: string
  cd_app_version_primary :: u32
  cd_app_version_secondary :: u32
  cd_app_version_tertiary :: u32
  cd_app_version_last_fetched_ms :: i64
  cd_edge_routing_info :: "bytes option"

definition device_new :: "('p, 's) curve \<Rightarrow> bytes \<Rightarrow> bytes \<Rightarrow> bytes \<Rightarrow> bytes \<Rightarrow> bytes \<Rightarrow> 'a core_device" where
  \<comment> \<open>the random bytes of the identity key, the signed key, the signature, the secret and the connection key\<close>
  "device_new K rnd_identity rnd_signed rnd_signature adv_secret rnd_noise =
     (let identity_key_pair = key_pair_generate K rnd_identity;
          signed_pre_key = key_pair_generate K rnd_signed
      in \<lparr>cd_pn = None, cd_lid = None, cd_registration_id = 3718719151, cd_noise_key = key_pair_generate K rnd_noise,
          cd_identity_key = identity_key_pair, cd_signed_pre_key = signed_pre_key, cd_signed_pre_key_id = 1,
          cd_signed_pre_key_signature =
            private_sign K (kp_private identity_key_pair) [public_serialize (kp_public signed_pre_key)] rnd_signature,
          cd_adv_secret_key = adv_secret, cd_account = None, cd_push_name = '''', cd_app_version_primary = 2,
          cd_app_version_secondary = 3000, cd_app_version_tertiary = 1031424117, cd_app_version_last_fetched_ms = 0,
          cd_edge_routing_info = None\<rparr>)"

datatype 'a device_command =
    SetId "jid option"
  | SetLid "jid option"
  | SetPushName string
  | SetAccount "'a option"
  | SetAppVersion u32 u32 u32

fun apply_command_to_device :: "i64 \<Rightarrow> 'a core_device \<Rightarrow> 'a device_command \<Rightarrow> 'a core_device" where
  \<comment> \<open>with the time in milliseconds\<close>
  "apply_command_to_device now d (SetId i) = d\<lparr>cd_pn := i\<rparr>"
| "apply_command_to_device now d (SetLid i) = d\<lparr>cd_lid := i\<rparr>"
| "apply_command_to_device now d (SetPushName name) = d\<lparr>cd_push_name := name\<rparr>"
| "apply_command_to_device now d (SetAccount account) = d\<lparr>cd_account := account\<rparr>"
| "apply_command_to_device now d (SetAppVersion p s t) =
     d\<lparr>cd_app_version_primary := p, cd_app_version_secondary := s, cd_app_version_tertiary := t,
       cd_app_version_last_fetched_ms := now\<rparr>"

definition is_ready_for_presence :: "'a core_device \<Rightarrow> bool" where
  "is_ready_for_presence d \<longleftrightarrow> cd_pn d \<noteq> None \<and> cd_push_name d \<noteq> []"

definition device_ok :: "('p, 's) curve \<Rightarrow> 'a core_device \<Rightarrow> bool" where
  "device_ok K d \<longleftrightarrow> pair_ok K (cd_noise_key d) \<and> pair_ok K (cd_identity_key d) \<and> pair_ok K (cd_signed_pre_key d)
     \<and> length (cd_signed_pre_key_signature d) = 64 \<and> length (cd_adv_secret_key d) = 32
     \<and> pred_option jid_canonical (cd_pn d) \<and> pred_option jid_canonical (cd_lid d)"

fun command_ok :: "'a device_command \<Rightarrow> bool" where
  "command_ok (SetId i) \<longleftrightarrow> pred_option jid_canonical i"
| "command_ok (SetLid i) \<longleftrightarrow> pred_option jid_canonical i"
| "command_ok _ \<longleftrightarrow> True"

lemma device_new_ok:
  assumes "curve_laws K" "signature_laws K" "length r1 = 32" "length r2 = 32" "length secret = 32" "length r5 = 32"
  shows "device_ok K (device_new K r1 r2 r3 secret r5)"
proof -
  have "private_ok K (kp_private (key_pair_generate K r1))"
    using generate_ok [OF assms(1,3)] by (simp add: pair_ok_def)
  then show ?thesis
    using assms by (simp add: device_ok_def device_new_def Let_def generate_ok sign_verify(1))
qed

lemma apply_command_ok: "device_ok K d \<Longrightarrow> command_ok c \<Longrightarrow> device_ok K (apply_command_to_device now d c)"
  by (cases c) (simp_all add: device_ok_def)

lemma apply_commands_ok:
  "device_ok K d \<Longrightarrow> (\<forall>(now, c) \<in> set cs. command_ok c) \<Longrightarrow> device_ok K (foldl (\<lambda>d (now, c). apply_command_to_device now d c) d cs)"
  by (induction cs arbitrary: d) (auto simp: apply_command_ok)

section \<open>Rows\<close>

record lid_pn_mapping_entry =
  lm_lid :: string
  lm_phone_number :: string
  lm_created_at :: i64
  lm_updated_at :: i64
  lm_learning_source :: string

record device_info =
  di_device_id :: u32
  di_key_index :: "u32 option"

record device_list_record =
  dl_user :: string
  dl_devices :: "device_info list"
  dl_timestamp :: i64
  dl_phash :: "string option"

record app_state_sync_key =
  ask_key_data :: bytes
  ask_fingerprint :: bytes
  ask_timestamp :: i64

record device_row =
  dr_lid :: string
  dr_pn :: string
  dr_registration_id :: i32
  dr_noise_key :: bytes
  dr_identity_key :: bytes
  dr_signed_pre_key :: bytes
  dr_signed_pre_key_id :: i32
  dr_signed_pre_key_signature :: bytes
  dr_adv_secret_key :: bytes
  dr_account :: "bytes option"
  dr_push_name :: string
  dr_app_version_primary :: i32
  dr_app_version_secondary :: i32
  dr_app_version_tertiary :: i64
  dr_app_version_last_fetched_ms :: i64
  dr_edge_routing_info :: "bytes option"

record lid_row =
  lr_phone_number :: string
  lr_created_at :: i64
  lr_learning_source :: string
  lr_updated_at :: i64

record registry_row =
  rr_devices_json :: string
  rr_timestamp :: i32
  rr_phash :: "string option"
  rr_updated_at :: i32

record database =
  t_device :: "(i32 \<times> device_row) list"
  t_identities :: "((string \<times> i32) \<times> bytes) list"
  t_sessions :: "((string \<times> i32) \<times> bytes) list"
  t_prekeys :: "((i32 \<times> i32) \<times> bytes \<times> bool) list"
  t_signed_prekeys :: "((i32 \<times> i32) \<times> bytes) list"
  t_sender_keys :: "((string \<times> i32) \<times> bytes) list"
  t_app_state_keys :: "((bytes \<times> i32) \<times> bytes) list"
  t_app_state_versions :: "((string \<times> i32) \<times> bytes) list"
  t_app_state_mutation_macs :: "((string \<times> bytes \<times> i32) \<times> i64 \<times> bytes) list"
  t_skdm_recipients :: "((string \<times> string \<times> i32) \<times> i32) list"
  t_lid_pn_mapping :: "((string \<times> i32) \<times> lid_row) list"
  t_base_keys :: "((string \<times> string \<times> i32) \<times> bytes \<times> i32) list"
  t_device_registry :: "((string \<times> i32) \<times> registry_row) list"
  t_sender_key_status :: "((string \<times> string \<times> i32) \<times> i32) list"

text \<open>The codecs of other packages: account data, device lists, application state keys and versions.\<close>

record 'a store_codec =
  encode_account :: "'a \<Rightarrow> bytes"
  decode_account :: "bytes \<Rightarrow> 'a option"
  encode_devices :: "device_info list \<Rightarrow> string option"
  decode_devices :: "string \<Rightarrow> device_info list option"
  encode_sync_key :: "app_state_sync_key \<Rightarrow> bytes option"
  decode_sync_key :: "bytes \<Rightarrow> app_state_sync_key option"
  encode_version :: "hash_state \<Rightarrow> bytes option"
  decode_version :: "bytes \<Rightarrow> hash_state option"

definition account_codec :: "'a store_codec \<Rightarrow> bool" where
  "account_codec X \<longleftrightarrow> (\<forall>x. decode_account X (encode_account X x) = Some x)"

definition devices_codec :: "'a store_codec \<Rightarrow> device_info list \<Rightarrow> bool" where
  \<comment> \<open>the codec reads the list back that it wrote\<close>
  "devices_codec X ds \<longleftrightarrow> (case encode_devices X ds of None \<Rightarrow> False | Some s \<Rightarrow> decode_devices X s = Some ds)"

definition sync_key_codec :: "'a store_codec \<Rightarrow> app_state_sync_key \<Rightarrow> bool" where
  "sync_key_codec X k \<longleftrightarrow> (case encode_sync_key X k of None \<Rightarrow> False | Some s \<Rightarrow> decode_sync_key X s = Some k)"

definition version_codec :: "'a store_codec \<Rightarrow> hash_state \<Rightarrow> bool" where
  "version_codec X v \<longleftrightarrow> (case encode_version X v of None \<Rightarrow> False | Some s \<Rightarrow> decode_version X s = Some v)"

abbreviation upsert :: "'k \<Rightarrow> 'v \<Rightarrow> ('k \<times> 'v) list \<Rightarrow> ('k \<times> 'v) list" where
  \<comment> \<open>insert, or on a conflict replace the columns that are not part of the key\<close>
  "upsert \<equiv> AList.update"

type_synonym 'a store_op = "database \<Rightarrow> 'a store_result \<times> database"

definition retrying :: "(nat \<Rightarrow> attempt) \<Rightarrow> string \<Rightarrow> string \<Rightarrow> ('d \<Rightarrow> 'd) \<Rightarrow> 'd \<Rightarrow> unit store_result \<times> 'd" where
  "retrying att sem what f db = (let (r, _, db') = retry_loop att sem what f 0 db in (r, db'))"

definition encoded :: "'a option \<Rightarrow> ('a \<Rightarrow> 'b store_op) \<Rightarrow> 'b store_op" where
  \<comment> \<open>an operation on a value that was encoded before\<close>
  "encoded x f = (case x of None \<Rightarrow> Pair (Throw (Serialization [])) | Some b \<Rightarrow> f b)"

definition decoded :: "('b \<Rightarrow> 'a option) \<Rightarrow> 'b option \<Rightarrow> 'a option store_result" where
  "decoded d x = (case x of None \<Rightarrow> Inr None | Some b \<Rightarrow> (case d b of None \<Rightarrow> Throw (Serialization []) | Some a \<Rightarrow> Inr (Some a)))"

definition reading :: "('a \<Rightarrow> 'b store_result) \<Rightarrow> 'a store_op \<Rightarrow> 'b store_op" where
  \<comment> \<open>work on what was read, after the closure\<close>
  "reading f m db = (case m db of (r, db') \<Rightarrow> (rbind r f, db'))"

section \<open>Columns and statements\<close>

definition jid_text :: "jid option \<Rightarrow> string" where
  "jid_text j = (case j of None \<Rightarrow> [] | Some j \<Rightarrow> jid_to_string j)"

definition jid_of_text :: "string \<Rightarrow> jid option" where
  "jid_of_text s = (if s = [] then None else case from_str s of Inr j \<Rightarrow> Some j | Inl _ \<Rightarrow> None)"

definition sized_field :: "nat \<Rightarrow> string \<Rightarrow> bytes \<Rightarrow> bytes store_result" where
  "sized_field n what b = (if length b = n then Inr b else Throw (Serialization what))"

definition insert_or_ignore :: "'k \<Rightarrow> 'v \<Rightarrow> ('k \<times> 'v) list \<Rightarrow> ('k \<times> 'v) list" where
  \<comment> \<open>insert, or on a conflict do nothing\<close>
  "insert_or_ignore k v t = (if map_of t k = None then t @ [(k, v)] else t)"

definition lid_entry :: "string \<Rightarrow> lid_row \<Rightarrow> lid_pn_mapping_entry" where
  "lid_entry l row = \<lparr>lm_lid = l, lm_phone_number = lr_phone_number row, lm_created_at = lr_created_at row,
     lm_updated_at = lr_updated_at row, lm_learning_source = lr_learning_source row\<rparr>"

definition device_mappings :: "i32 \<Rightarrow> database \<Rightarrow> lid_pn_mapping_entry list" where
  "device_mappings device_id db =
     map (\<lambda>((l, _), row). lid_entry l row) (filter (\<lambda>((_, d), _). d = device_id) (t_lid_pn_mapping db))"

definition select_marks :: "attempt \<Rightarrow> i32 \<Rightarrow> string \<Rightarrow> string list store_op" where
  "select_marks att device_id group_jid =
     blocking att (query (\<lambda>db. map (\<lambda>((_, p, _), _). p)
       (filter (\<lambda>((g, _, d), _). g = group_jid \<and> d = device_id) (t_sender_key_status db))))"

definition delete_marks :: "attempt \<Rightarrow> i32 \<Rightarrow> string \<Rightarrow> unit store_op" where
  "delete_marks att device_id group_jid =
     blocking att (execute (\<lambda>db. db\<lparr>t_sender_key_status :=
       filter (\<lambda>((g, _, d), _). \<not> (g = group_jid \<and> d = device_id)) (t_sender_key_status db)\<rparr>))"

section \<open>The retry loop\<close>

lemma retry_loop_result:
  "retry_loop att sem what f n db = (r, waits, db') \<Longrightarrow> db' = (case r of Inr _ \<Rightarrow> f db | Inl _ \<Rightarrow> db)"
proof (induction att sem what f n db arbitrary: r waits db' rule: retry_loop.induct)
  case (1 att sem what f n db)
  show ?case
    using 1(2) 1(1) by (subst (asm) retry_loop.simps) (auto split: if_splits attempt.splits prod.splits)
qed

lemma retry_loop_waits:
  assumes "n \<le> MAX_RETRIES" "retry_loop att sem what f n db = (r, waits, db')"
  shows "\<exists>k \<le> MAX_RETRIES - n. waits = map (\<lambda>i. 10 * 2 ^ i) [n..<n + k] \<and> (\<forall>i \<in> {n..<n + k}. \<exists>e. att i = Refused e \<and> retriable e)
    \<and> (n + k = MAX_RETRIES \<or> (\<forall>e. att (n + k) = Refused e \<longrightarrow> \<not> retriable e))
    \<and> (case att (n + k) of Done \<Rightarrow> r = Inr () | Refused e \<Rightarrow> r = Throw e | Lost m \<Rightarrow> r = Throw (Database (''Task join error: '' @ m)) | Closed m \<Rightarrow> r = Throw (Database (sem @ m)))"
  using assms
proof (induction "MAX_RETRIES - n" arbitrary: n r waits db')
  case 0
  then show ?case
    by (subst (asm) retry_loop.simps) (auto split: if_splits attempt.splits intro!: exI [of _ 0])
next
  case (Suc d)
  show ?case
  proof (cases "\<exists>e. att n = Refused e \<and> retriable e")
    case True
    then obtain e where e: "att n = Refused e" "retriable e" by blast
    obtain r' waits' db'' where rec: "retry_loop att sem what f (n + 1) db = (r', waits', db'')" by (metis prod_cases3)
    have n: "n < MAX_RETRIES" using Suc.hyps(2) by simp
    have eq: "r = r'" "waits = 10 * 2 ^ n # waits'"
      using Suc.prems(2) e rec n by (subst (asm) retry_loop.simps, simp)+
    have d: "d = MAX_RETRIES - (n + 1)" "n + 1 \<le> MAX_RETRIES" using Suc.hyps(2) n by linarith+
    obtain k where k: "k \<le> MAX_RETRIES - (n + 1)" "waits' = map (\<lambda>i. 10 * 2 ^ i) [n + 1..<n + 1 + k]"
        "\<forall>i \<in> {n + 1..<n + 1 + k}. \<exists>e. att i = Refused e \<and> retriable e"
        "n + 1 + k = MAX_RETRIES \<or> (\<forall>e. att (n + 1 + k) = Refused e \<longrightarrow> \<not> retriable e)"
        "case att (n + 1 + k) of Done \<Rightarrow> r' = Inr () | Refused e \<Rightarrow> r' = Throw e | Lost m \<Rightarrow> r' = Throw (Database (''Task join error: '' @ m)) | Closed m \<Rightarrow> r' = Throw (Database (sem @ m))"
      using Suc.hyps(1) [OF d rec] by blast
    have "waits = map (\<lambda>i. 10 * 2 ^ i) [n..<n + (k + 1)]" using k(2) eq(2) by (simp add: upt_rec)
    moreover have "\<forall>i \<in> {n..<n + (k + 1)}. \<exists>e. att i = Refused e \<and> retriable e"
    proof
      fix i assume "i \<in> {n..<n + (k + 1)}"
      then show "\<exists>e. att i = Refused e \<and> retriable e" using k(3) True by (cases "i = n") auto
    qed
    moreover have "k + 1 \<le> MAX_RETRIES - n" using k(1) n by linarith
    ultimately show ?thesis
      using k(4) k(5) [folded eq(1)] by (intro exI [of _ "k + 1"]) simp
  next
    case False
    then show ?thesis
      using Suc.prems Suc.hyps(2) by (subst (asm) retry_loop.simps) (auto split: if_splits attempt.splits intro!: exI [of _ 0])
  qed
qed

end
