(* ===== verification/Backend.thy ===== *)
theory Backend
  imports Tables
begin

text \<open>
  The storage interface of the client (\<^verbatim>\<open>warp_core/src/store/traits.rs\<close>): the calls of its four traits, the
  default methods, and two contracts. \<open>device_store\<close> says that a call for one device neither sees nor changes the
  rows of another; \<open>durable_table\<close> says what a write that succeeds or fails does to later reads.
\<close>

section \<open>Calls\<close>

datatype signal_call =
    Put_identity string bytes | Load_identity string | Delete_identity string
  | Get_session string | Put_session string bytes | Delete_session string | Has_session string
  | Get_sessions_batch "string list" | Put_sessions_batch "(string \<times> bytes) list"
  | Load_identities_batch "string list" | Put_identities_batch "(string \<times> bytes) list"
  | Store_prekey u32 bytes bool | Load_prekey u32 | Remove_prekey u32
  | Store_signed_prekey u32 bytes | Load_signed_prekey u32 | Load_all_signed_prekeys | Remove_signed_prekey u32
  | Put_sender_key string bytes | Get_sender_key string | Delete_sender_key string

datatype app_call =
    Get_sync_key bytes | Set_sync_key bytes app_state_sync_key
  | Get_version string | Set_version string hash_state
  | Put_mutation_macs string u64 "mutation_mac list" | Get_mutation_mac string bytes
  | Delete_mutation_macs string "bytes list"

datatype protocol_call =
    Get_skdm_recipients string | Add_skdm_recipients string "string list" | Clear_skdm_recipients string
  | Get_lid_mapping string | Get_pn_mapping string | Put_lid_mapping lid_pn_mapping_entry | Get_all_lid_mappings
  | Save_base_key string string bytes | Has_same_base_key string string bytes | Delete_base_key string string
  | Update_device_list device_list_record | Get_devices string
  | Mark_forget_sender_key string string | Consume_forget_marks string

text \<open>
  The calls of all traits, except \<open>create\<close>, which is not a call on a device. Each comes with what the
  engine does to its attempts, statement by statement, and the time.
\<close>

datatype 'a backend_call =
    Signal_call signal_call | App_call app_call | Protocol_call protocol_call
  | Save_device "'a core_device" | Load_device | Device_exists

record env =
  attempts :: "nat \<Rightarrow> nat \<Rightarrow> attempt"
  now_secs :: i32

datatype 'a reply =
    Finished | Flag bool | Record_reply "bytes option" | Rows "(string \<times> bytes) list" | Keys "(u32 \<times> bytes) list"
  | Names "string list" | Sync_key "app_state_sync_key option" | State_reply hash_state
  | Mapping_reply "lid_pn_mapping_entry option" | Mappings "lid_pn_mapping_entry list"
  | Devices "device_list_record option" | Device_reply "'a core_device option"

definition replying :: "('b \<Rightarrow> 'a reply) \<Rightarrow> 'b store_op \<Rightarrow> 'a reply store_op" where
  "replying f m db = (case m db of (r, db') \<Rightarrow> (rmap f r, db'))"

section \<open>Default methods\<close>

definition has_session :: "bytes option store_op \<Rightarrow> bool store_op" where
  "has_session get_session = reading (\<lambda>s. Inr (s \<noteq> None)) get_session"

fun load_each :: "(nat \<Rightarrow> string \<Rightarrow> bytes option store_op) \<Rightarrow> nat \<Rightarrow> string list \<Rightarrow> (string \<times> bytes) list store_op" where
  \<comment> \<open>with the number of the call that is made next\<close>
  "load_each load_identity i [] = Pair (Inr [])"
| "load_each load_identity i (addr # addresses) =
     and_then (load_identity i addr) (\<lambda>data.
     reading (\<lambda>results. Inr (case data of Some data \<Rightarrow> (addr, data) # results | None \<Rightarrow> results))
       (load_each load_identity (Suc i) addresses))"

fun put_each :: "(nat \<Rightarrow> string \<Rightarrow> bytes \<Rightarrow> unit store_op) \<Rightarrow> nat \<Rightarrow> (string \<times> bytes) list \<Rightarrow> unit store_op" where
  "put_each put_identity i [] = Pair (Inr ())"
| "put_each put_identity i ((addr, key) # entries) =
     and_then (put_identity i addr key) (\<lambda>_. put_each put_identity (Suc i) entries)"

definition default_get_sessions_batch :: "(nat \<Rightarrow> string \<Rightarrow> bytes option store_op) \<Rightarrow> string list \<Rightarrow> (string \<times> bytes) list store_op" where
  "default_get_sessions_batch get_session = load_each get_session 0"

definition default_put_sessions_batch :: "(nat \<Rightarrow> string \<Rightarrow> bytes \<Rightarrow> unit store_op) \<Rightarrow> (string \<times> bytes) list \<Rightarrow> unit store_op" where
  "default_put_sessions_batch put_session = put_each put_session 0"

section \<open>The rows of a device\<close>

definition owned :: "('k \<Rightarrow> i32) \<Rightarrow> i32 \<Rightarrow> ('k \<times> 'v) list \<Rightarrow> ('k \<times> 'v) list" where
  "owned own d t = filter (\<lambda>r. own (fst r) = d) t"

abbreviation third :: "'a \<times> 'b \<times> 'c \<Rightarrow> 'c" where
  "third k \<equiv> snd (snd k)"

definition device_rows :: "i32 \<Rightarrow> database \<Rightarrow> database" where
  "device_rows d db =
     \<lparr>t_device = owned (\<lambda>k. k) d (t_device db), t_identities = owned snd d (t_identities db),
      t_sessions = owned snd d (t_sessions db), t_prekeys = owned snd d (t_prekeys db),
      t_signed_prekeys = owned snd d (t_signed_prekeys db), t_sender_keys = owned snd d (t_sender_keys db),
      t_app_state_keys = owned snd d (t_app_state_keys db), t_app_state_versions = owned snd d (t_app_state_versions db),
      t_app_state_mutation_macs = owned (\<lambda>k. third k) d (t_app_state_mutation_macs db),
      t_skdm_recipients = owned (\<lambda>k. third k) d (t_skdm_recipients db), t_lid_pn_mapping = owned snd d (t_lid_pn_mapping db),
      t_base_keys = owned (\<lambda>k. third k) d (t_base_keys db), t_device_registry = owned snd d (t_device_registry db),
      t_sender_key_status = owned (\<lambda>k. third k) d (t_sender_key_status db)\<rparr>"

lemma owned_owned [simp]: "owned own d (owned own d t) = owned own d t"
  by (simp add: owned_def)

lemma owned_update [simp]:
  "owned own d (AList.update k v t) = (if own k = d then AList.update k v (owned own d t) else owned own d t)"
  by (induction t) (auto simp: owned_def)

lemma owned_delete [simp]:
  "owned own d (AList.delete k t) = (if own k = d then AList.delete k (owned own d t) else owned own d t)"
  by (induction t) (auto simp: owned_def AList.delete_eq)

lemma map_of_owned [simp]: "own k = d \<Longrightarrow> map_of (owned own d t) k = map_of t k"
  by (induction t) (auto simp: owned_def)

lemma owned_insert_or_ignore [simp]:
  "owned own d (insert_or_ignore k v t) = (if own k = d then insert_or_ignore k v (owned own d t) else owned own d t)"
  by (auto simp: insert_or_ignore_def) (auto simp: owned_def)

lemma filter_owned: "(\<And>k v. P (k, v) \<Longrightarrow> own k = d) \<Longrightarrow> filter P (owned own d t) = filter P t"
  by (induction t) (auto simp: owned_def)

lemma owned_select [simp]:
  "filter (\<lambda>((a, d'), _). Q a \<and> d' = d) (owned snd d t) = filter (\<lambda>((a, d'), _). Q a \<and> d' = d) t"
  "filter (\<lambda>((_, d'), _). d' = d) (owned snd d t) = filter (\<lambda>((_, d'), _). d' = d) t"
  "filter (\<lambda>((g, _, d'), _). g = x \<and> d' = d) (owned (\<lambda>k. third k) d u) = filter (\<lambda>((g, _, d'), _). g = x \<and> d' = d) u"
  "filter (\<lambda>(i, _). i = d) (owned (\<lambda>k. k) d v) = filter (\<lambda>(i, _). i = d) v"
  by (rule filter_owned; auto)+

lemma owned_unselect [simp]:
  "owned (\<lambda>k. third k) d' (filter (\<lambda>((g, _, e), _). g = x \<longrightarrow> e \<noteq> d) u)
     = (if d' = d then filter (\<lambda>((g, _, e), _). g = x \<longrightarrow> e \<noteq> d) (owned (\<lambda>k. third k) d u) else owned (\<lambda>k. third k) d' u)"
  by (induction u) (auto simp: owned_def)

lemma foldl_same [simp]: "foldl (\<lambda>t (a, r). t) t es = t"
  by (induction es) auto

section \<open>Confined operations\<close>

definition local_write :: "i32 \<Rightarrow> (database \<Rightarrow> database) \<Rightarrow> bool" where
  "local_write d f \<longleftrightarrow> (\<forall>db. (\<forall>d'. d' \<noteq> d \<longrightarrow> device_rows d' (f db) = device_rows d' db)
     \<and> device_rows d (f db) = f (device_rows d db))"

definition local_read :: "i32 \<Rightarrow> (database \<Rightarrow> 'b) \<Rightarrow> bool" where
  "local_read d f \<longleftrightarrow> (\<forall>db. f (device_rows d db) = f db)"

definition confined :: "i32 \<Rightarrow> 'b store_op \<Rightarrow> bool" where
  "confined d m \<longleftrightarrow> local_write d (\<lambda>db. snd (m db)) \<and> local_read d (\<lambda>db. fst (m db))"

named_theorems confined_intros \<open>operations that stay with the rows of one device\<close>

lemma confined_query [confined_intros]: "local_read d f \<Longrightarrow> confined d (query f)"
  by (simp add: confined_def local_write_def local_read_def query_def)

lemma confined_execute [confined_intros]: "local_write d f \<Longrightarrow> confined d (execute f)"
  by (simp add: confined_def local_write_def local_read_def execute_def)

lemma confined_Pair [confined_intros]: "confined d (Pair x)"
  by (simp add: confined_def local_write_def local_read_def)

lemma confined_blocking [confined_intros]: "confined d m \<Longrightarrow> confined d (blocking att m)"
  by (cases att) (simp_all add: confined_def local_write_def local_read_def blocking_def)

lemma confined_reading [confined_intros]: "confined d m \<Longrightarrow> confined d (reading f m)"
  by (simp add: confined_def local_write_def local_read_def reading_def split_beta)

lemma confined_replying [confined_intros]: "confined d m \<Longrightarrow> confined d (replying f m)"
  by (simp add: confined_def local_write_def local_read_def replying_def split_beta)

lemma confined_encoded [confined_intros]: "(\<And>b. confined d (f b)) \<Longrightarrow> confined d (encoded x f)"
  by (cases x) (simp_all add: encoded_def confined_intros)

lemma confined_if [confined_intros]: "confined d m \<Longrightarrow> confined d n \<Longrightarrow> confined d (if b then m else n)"
  by simp

lemma and_then_beta:
  "and_then m k db = (case fst (m db) of Inl e \<Rightarrow> (Inl e, snd (m db)) | Inr x \<Rightarrow> k x (snd (m db)))"
  by (simp add: and_then_def split: prod.split sum.split)

lemma confinedD:
  assumes "confined d m"
  shows "fst (m (device_rows d db)) = fst (m db)" "snd (m (device_rows d db)) = device_rows d (snd (m db))"
    "d' \<noteq> d \<Longrightarrow> device_rows d' (snd (m db)) = device_rows d' db"
  using assms by (simp_all add: confined_def local_write_def local_read_def)

lemma confinedI:
  assumes "\<And>db. fst (m (device_rows d db)) = fst (m db)" "\<And>db. snd (m (device_rows d db)) = device_rows d (snd (m db))"
    "\<And>d' db. d' \<noteq> d \<Longrightarrow> device_rows d' (snd (m db)) = device_rows d' db"
  shows "confined d m"
  using assms by (simp add: confined_def local_write_def local_read_def)

lemma confined_and_then [confined_intros]:
  assumes m: "confined d m" and k: "\<And>x. confined d (k x)"
  shows "confined d (and_then m k)"
  by (rule confinedI)
    (simp_all add: and_then_beta confinedD(1,2) [OF m] confinedD(1,2) [OF k] confinedD(3) [OF m] confinedD(3) [OF k] split: sum.split)

lemma execute_each_Cons:
  "execute_each att i (f # fs) = and_then (blocking (att i) (execute f)) (\<lambda>_. execute_each att (Suc i) fs)"
  by (rule ext) (simp add: and_then_def blocking_def execute_def split: attempt.split)

lemma confined_execute_each [confined_intros]:
  "(\<And>f. f \<in> set fs \<Longrightarrow> local_write d f) \<Longrightarrow> confined d (execute_each att i fs)"
proof (induction fs arbitrary: i)
  case (Cons f fs)
  then show ?case by (simp add: execute_each_Cons confined_intros del: execute_each.simps)
qed (simp add: confined_def local_write_def local_read_def)

lemma fst_retrying: "fst (retrying att sem what f db) = fst (retrying att sem what f db')"
proof -
  have "fst (retry_loop att sem what f n db) = fst (retry_loop att sem what f n db')" for n
  proof (induction att sem what f n db rule: retry_loop.induct)
    case (1 att sem what f n db)
    show ?case
      using 1 by (subst retry_loop.simps, subst (2) retry_loop.simps) (auto split: attempt.split prod.split)
  qed
  then show ?thesis by (simp add: retrying_def split_beta)
qed

lemma snd_retrying: "snd (retrying att sem what f db) = (case fst (retrying att sem what f db) of Inr _ \<Rightarrow> f db | Inl _ \<Rightarrow> db)"
  using retry_loop_result [of att sem what f 0 db] by (simp add: retrying_def split_beta prod_eq_iff)

lemma confined_retrying [confined_intros]:
  assumes "local_write d f" shows "confined d (retrying att sem what f)"
proof (rule confinedI)
  fix db show eq: "fst (retrying att sem what f (device_rows d db)) = fst (retrying att sem what f db)" by (rule fst_retrying)
  show "snd (retrying att sem what f (device_rows d db)) = device_rows d (snd (retrying att sem what f db))"
    using assms by (simp add: snd_retrying [of _ _ _ _ "device_rows d db"] snd_retrying [of _ _ _ _ db] eq local_write_def split: sum.split)
next
  fix d' db assume "d' \<noteq> d"
  then show "device_rows d' (snd (retrying att sem what f db)) = device_rows d' db"
    using assms by (simp add: snd_retrying local_write_def split: sum.split)
qed

lemma confined_has_session [confined_intros]: "confined d m \<Longrightarrow> confined d (has_session m)"
  by (simp add: has_session_def confined_intros)

lemma confined_load_each [confined_intros]:
  "(\<And>i a. confined d (get i a)) \<Longrightarrow> confined d (load_each get i as)"
  by (induction as arbitrary: i) (simp_all add: confined_intros)

lemma confined_put_each [confined_intros]:
  "(\<And>i a b. confined d (put i a b)) \<Longrightarrow> confined d (put_each put i es)"
  by (induction put i es rule: put_each.induct) (simp_all add: confined_intros)

section \<open>Isolation of devices\<close>

fun run_calls :: "(i32 \<Rightarrow> 'c \<Rightarrow> 'd \<Rightarrow> 'r \<times> 'd) \<Rightarrow> (i32 \<times> 'c) list \<Rightarrow> 'd \<Rightarrow> (i32 \<times> 'r) list \<times> 'd" where
  \<comment> \<open>calls for several devices, one after the other, with their replies\<close>
  "run_calls call [] db = ([], db)"
| "run_calls call ((d, c) # cs) db =
     (let (r, db1) = call d c db; (rs, db2) = run_calls call cs db1 in ((d, r) # rs, db2))"

definition of_device :: "i32 \<Rightarrow> (i32 \<times> 'x) list \<Rightarrow> (i32 \<times> 'x) list" where
  "of_device d xs = filter (\<lambda>x. fst x = d) xs"

locale device_store =
  fixes call :: "i32 \<Rightarrow> 'c \<Rightarrow> 'a reply store_op"
  assumes confined: "confined d (call d c)"
begin

lemma calls_isolated:
  assumes "device_rows d db = device_rows d db'"
  shows "of_device d (fst (run_calls call cs db)) = fst (run_calls call (of_device d cs) db')
    \<and> device_rows d (snd (run_calls call cs db)) = device_rows d (snd (run_calls call (of_device d cs) db'))"
  using assms
proof (induction cs arbitrary: db db')
  case (Cons c cs)
  obtain d1 c1 where c: "c = (d1, c1)" by (cases c)
  show ?case
  proof (cases "d1 = d")
    case True
    have fst: "fst (call d c1 db) = fst (call d c1 db')"
      using confinedD(1) [OF confined] Cons.prems by metis
    have snd: "device_rows d (snd (call d c1 db)) = device_rows d (snd (call d c1 db'))"
      using confinedD(2) [OF confined] Cons.prems by metis
    show ?thesis
      using Cons.IH [OF snd] fst by (simp add: c True of_device_def split_beta Let_def)
  next
    case False
    have "device_rows d (snd (call d1 c1 db)) = device_rows d db'"
      using confinedD(3) [OF confined] False Cons.prems by metis
    from Cons.IH [OF this] show ?thesis using False by (simp add: c of_device_def split_beta Let_def)
  qed
qed (simp add: of_device_def)

end

section \<open>Durable tables\<close>

fun run_writes :: "('e \<Rightarrow> 'k \<Rightarrow> 'v option \<Rightarrow> unit store_op) \<Rightarrow> ('e \<times> 'k \<times> 'v option) list \<Rightarrow> database \<Rightarrow> unit store_result list \<times> database" where
  "run_writes wr [] db = ([], db)"
| "run_writes wr ((e, k, v) # ws) db =
     (let (r, db1) = wr e k v db; (rs, db2) = run_writes wr ws db1 in (r # rs, db2))"

fun acknowledged :: "('e \<times> 'k \<times> 'v option) list \<Rightarrow> unit store_result list \<Rightarrow> 'k \<Rightarrow> 'v option \<Rightarrow> 'v option" where
  \<comment> \<open>the value of the last write to the key that reported success\<close>
  "acknowledged ((_, k', v') # ws) (r # rs) k v = acknowledged ws rs k (if r = Inr () \<and> k' = k then v' else v)"
| "acknowledged _ _ k v = v"

locale durable_table =
  fixes wr :: "'e \<Rightarrow> 'k \<Rightarrow> 'v option \<Rightarrow> unit store_op" and rd :: "database \<Rightarrow> 'k \<Rightarrow> 'v option"
  assumes written: "rd (snd (wr e k v db)) k' = (if fst (wr e k v db) = Inr () \<and> k' = k then v else rd db k')"
begin

lemma last_acknowledged:
  "rd (snd (run_writes wr ws db)) k = acknowledged ws (fst (run_writes wr ws db)) k (rd db k)"
proof (induction wr\<equiv>wr ws db rule: run_writes.induct)
  case (2 e k' v ws db)
  have "rd (snd (run_writes wr ws (snd (wr e k' v db)))) k
      = acknowledged ws (fst (run_writes wr ws (snd (wr e k' v db)))) k (rd (snd (wr e k' v db)) k)"
    using 2 by (metis surjective_pairing)
  then show ?case by (auto simp: split_beta Let_def written)
qed simp

end

end
