(* ===== verification/Sqlite.thy ===== *)
theory Sqlite
  imports Backend
begin

text \<open>
  The SQLite backend (\<^verbatim>\<open>storages/sqlite-storage/src/sqlite_store.rs\<close>): every operation of the four storage traits,
  on the tables of all devices. The connection pools and the semaphore only order the attempts.
\<close>

section \<open>Device data\<close>

definition serialize_keypair :: "key_pair \<Rightarrow> bytes" where
  "serialize_keypair key_pair = private_serialize (kp_private key_pair) @ public_key_bytes (kp_public key_pair)"

definition deserialize_keypair :: "('p, 's) curve \<Rightarrow> bytes \<Rightarrow> key_pair store_result" where
  "deserialize_keypair K bytes =
     (if length bytes \<noteq> 64 then Throw (Serialization (''Invalid KeyPair length: '' @ show_nat (length bytes)))
      else case private_deserialize K (take 32 bytes) of
             Inl _ \<Rightarrow> Throw (Serialization [])
           | Inr private_key \<Rightarrow>
               (case from_djb_public_key_bytes (drop 32 bytes) of
                  Inl _ \<Rightarrow> Throw (Serialization [])
                | Inr public_key \<Rightarrow> Inr \<lparr>kp_public = public_key, kp_private = private_key\<rparr>))"

definition row_of_device :: "'a store_codec \<Rightarrow> 'a core_device \<Rightarrow> device_row" where
  "row_of_device X d =
     \<lparr>dr_lid = jid_text (cd_lid d), dr_pn = jid_text (cd_pn d), dr_registration_id = cd_registration_id d,
      dr_noise_key = serialize_keypair (cd_noise_key d), dr_identity_key = serialize_keypair (cd_identity_key d),
      dr_signed_pre_key = serialize_keypair (cd_signed_pre_key d), dr_signed_pre_key_id = cd_signed_pre_key_id d,
      dr_signed_pre_key_signature = cd_signed_pre_key_signature d, dr_adv_secret_key = cd_adv_secret_key d,
      dr_account = map_option (encode_account X) (cd_account d), dr_push_name = cd_push_name d,
      dr_app_version_primary = cd_app_version_primary d, dr_app_version_secondary = cd_app_version_secondary d,
      dr_app_version_tertiary = ucast (cd_app_version_tertiary d), dr_app_version_last_fetched_ms = cd_app_version_last_fetched_ms d,
      dr_edge_routing_info = cd_edge_routing_info d\<rparr>"

definition sq_save_device_data_for_device :: "attempt \<Rightarrow> 'a store_codec \<Rightarrow> i32 \<Rightarrow> 'a core_device \<Rightarrow> unit store_op" where
  "sq_save_device_data_for_device att X device_id d =
     blocking att (execute (\<lambda>db. db\<lparr>t_device := upsert device_id (row_of_device X d) (t_device db)\<rparr>))"

definition sq_create_new_device :: "(nat \<Rightarrow> attempt) \<Rightarrow> ('p, 's) curve \<Rightarrow> 'a store_codec \<Rightarrow> bytes \<times> bytes \<times> bytes \<times> bytes \<times> bytes \<Rightarrow> i32 \<Rightarrow> i32 store_op" where
  \<comment> \<open>with the random bytes of the new device and the identifier that the engine gives its row\<close>
  "sq_create_new_device att K X = (\<lambda>(r1, r2, r3, r4, r5) new_id.
     let new_device = (device_new K r1 r2 r3 r4 r5)\<lparr>cd_account := None, cd_edge_routing_info := None\<rparr>;
         row = (row_of_device X new_device)\<lparr>dr_lid := [], dr_pn := []\<rparr>
     in and_then (blocking (att 0) (execute (\<lambda>db. db\<lparr>t_device := t_device db @ [(new_id, row)]\<rparr>)))
                 (\<lambda>_. blocking (att 1) (query (\<lambda>_. new_id))))"

definition sq_device_exists :: "attempt \<Rightarrow> i32 \<Rightarrow> bool store_op" where
  "sq_device_exists att device_id =
     blocking att (query (\<lambda>db. length (filter (\<lambda>(i, _). i = device_id) (t_device db)) > 0))"

definition device_of_row :: "('p, 's) curve \<Rightarrow> 'a store_codec \<Rightarrow> device_row \<Rightarrow> 'a core_device store_result" where
  "device_of_row K X row =
     rbind (deserialize_keypair K (dr_noise_key row)) (\<lambda>noise_key.
     rbind (deserialize_keypair K (dr_identity_key row)) (\<lambda>identity_key.
     rbind (deserialize_keypair K (dr_signed_pre_key row)) (\<lambda>signed_pre_key.
     rbind (sized_field 64 ''Invalid signed_pre_key_signature length'' (dr_signed_pre_key_signature row)) (\<lambda>signature.
     rbind (sized_field 32 ''Invalid adv_secret_key length'' (dr_adv_secret_key row)) (\<lambda>adv_secret_key.
     rbind (decoded (decode_account X) (dr_account row)) (\<lambda>account.
     Inr \<lparr>cd_pn = jid_of_text (dr_pn row), cd_lid = jid_of_text (dr_lid row), cd_registration_id = dr_registration_id row,
          cd_noise_key = noise_key, cd_identity_key = identity_key, cd_signed_pre_key = signed_pre_key,
          cd_signed_pre_key_id = dr_signed_pre_key_id row, cd_signed_pre_key_signature = signature,
          cd_adv_secret_key = adv_secret_key, cd_account = account, cd_push_name = dr_push_name row,
          cd_app_version_primary = dr_app_version_primary row, cd_app_version_secondary = dr_app_version_secondary row,
          cd_app_version_tertiary =
            (if 0 \<le> sint (dr_app_version_tertiary row) \<and> sint (dr_app_version_tertiary row) < 2 ^ 32
             then ucast (dr_app_version_tertiary row) else 0),
          cd_app_version_last_fetched_ms = dr_app_version_last_fetched_ms row,
          cd_edge_routing_info = dr_edge_routing_info row\<rparr>))))))"

definition sq_load_device_data_for_device :: "attempt \<Rightarrow> ('p, 's) curve \<Rightarrow> 'a store_codec \<Rightarrow> i32 \<Rightarrow> 'a core_device option store_op" where
  "sq_load_device_data_for_device att K X device_id =
     reading (\<lambda>row. case row of None \<Rightarrow> Inr None | Some row \<Rightarrow> rmap Some (device_of_row K X row))
       (blocking att (query (\<lambda>db. map_of (t_device db) device_id)))"

section \<open>Signal keys and sessions\<close>

definition sq_put_identity :: "(nat \<Rightarrow> attempt) \<Rightarrow> i32 \<Rightarrow> string \<Rightarrow> bytes \<Rightarrow> unit store_op" where
  "sq_put_identity att device_id address key =
     retrying att ''Failed to acquire semaphore: '' ''Identity write failed after 6 attempts'' (\<lambda>db. db\<lparr>t_identities := upsert (address, device_id) key (t_identities db)\<rparr>)"

definition sq_delete_identity :: "attempt \<Rightarrow> i32 \<Rightarrow> string \<Rightarrow> unit store_op" where
  "sq_delete_identity att device_id address =
     blocking att (execute (\<lambda>db. db\<lparr>t_identities := AList.delete (address, device_id) (t_identities db)\<rparr>))"

definition sq_load_identity :: "attempt \<Rightarrow> i32 \<Rightarrow> string \<Rightarrow> bytes option store_op" where
  "sq_load_identity att device_id address = blocking att (query (\<lambda>db. map_of (t_identities db) (address, device_id)))"

definition sq_get_session :: "attempt \<Rightarrow> i32 \<Rightarrow> string \<Rightarrow> bytes option store_op" where
  "sq_get_session att device_id address = blocking att (query (\<lambda>db. map_of (t_sessions db) (address, device_id)))"

definition sq_put_session :: "(nat \<Rightarrow> attempt) \<Rightarrow> i32 \<Rightarrow> string \<Rightarrow> bytes \<Rightarrow> unit store_op" where
  "sq_put_session att device_id address session =
     retrying att ''Failed to acquire semaphore: '' ''Session write failed after 6 attempts'' (\<lambda>db. db\<lparr>t_sessions := upsert (address, device_id) session (t_sessions db)\<rparr>)"

definition sq_delete_session :: "attempt \<Rightarrow> i32 \<Rightarrow> string \<Rightarrow> unit store_op" where
  "sq_delete_session att device_id address =
     blocking att (execute (\<lambda>db. db\<lparr>t_sessions := AList.delete (address, device_id) (t_sessions db)\<rparr>))"

definition sq_get_sessions_batch :: "attempt \<Rightarrow> i32 \<Rightarrow> string list \<Rightarrow> (string \<times> bytes) list store_op" where
  "sq_get_sessions_batch att device_id addresses =
     (if addresses = [] then Pair (Inr [])
      else blocking att (query (\<lambda>db. map (\<lambda>((a, _), r). (a, r))
        (filter (\<lambda>((a, d), _). a \<in> set addresses \<and> d = device_id) (t_sessions db)))))"

definition sq_put_sessions_batch :: "(nat \<Rightarrow> attempt) \<Rightarrow> i32 \<Rightarrow> (string \<times> bytes) list \<Rightarrow> unit store_op" where
  \<comment> \<open>one transaction: the rows are written together or not at all\<close>
  "sq_put_sessions_batch att device_id entries =
     (if entries = [] then Pair (Inr ())
      else retrying att ''Semaphore error: '' ''Batch session write failed after 6 attempts''
        (\<lambda>db. db\<lparr>t_sessions := foldl (\<lambda>t (a, r). upsert (a, device_id) r t) (t_sessions db) entries\<rparr>))"

definition sq_store_prekey :: "attempt \<Rightarrow> i32 \<Rightarrow> u32 \<Rightarrow> bytes \<Rightarrow> bool \<Rightarrow> unit store_op" where
  "sq_store_prekey att device_id i record uploaded =
     blocking att (execute (\<lambda>db. db\<lparr>t_prekeys := upsert (i, device_id) (record, uploaded) (t_prekeys db)\<rparr>))"

definition sq_load_prekey :: "attempt \<Rightarrow> i32 \<Rightarrow> u32 \<Rightarrow> bytes option store_op" where
  "sq_load_prekey att device_id i = blocking att (query (\<lambda>db. map_option fst (map_of (t_prekeys db) (i, device_id))))"

definition sq_remove_prekey :: "attempt \<Rightarrow> i32 \<Rightarrow> u32 \<Rightarrow> unit store_op" where
  "sq_remove_prekey att device_id i =
     blocking att (execute (\<lambda>db. db\<lparr>t_prekeys := AList.delete (i, device_id) (t_prekeys db)\<rparr>))"

definition sq_store_signed_prekey :: "attempt \<Rightarrow> i32 \<Rightarrow> u32 \<Rightarrow> bytes \<Rightarrow> unit store_op" where
  "sq_store_signed_prekey att device_id i record =
     blocking att (execute (\<lambda>db. db\<lparr>t_signed_prekeys := upsert (i, device_id) record (t_signed_prekeys db)\<rparr>))"

definition sq_load_signed_prekey :: "attempt \<Rightarrow> i32 \<Rightarrow> u32 \<Rightarrow> bytes option store_op" where
  "sq_load_signed_prekey att device_id i = blocking att (query (\<lambda>db. map_of (t_signed_prekeys db) (i, device_id)))"

definition sq_load_all_signed_prekeys :: "attempt \<Rightarrow> i32 \<Rightarrow> (u32 \<times> bytes) list store_op" where
  "sq_load_all_signed_prekeys att device_id =
     blocking att (query (\<lambda>db. map (\<lambda>((i, _), r). (i, r)) (filter (\<lambda>((_, d), _). d = device_id) (t_signed_prekeys db))))"

definition sq_remove_signed_prekey :: "attempt \<Rightarrow> i32 \<Rightarrow> u32 \<Rightarrow> unit store_op" where
  "sq_remove_signed_prekey att device_id i =
     blocking att (execute (\<lambda>db. db\<lparr>t_signed_prekeys := AList.delete (i, device_id) (t_signed_prekeys db)\<rparr>))"

definition sq_put_sender_key :: "attempt \<Rightarrow> i32 \<Rightarrow> string \<Rightarrow> bytes \<Rightarrow> unit store_op" where
  "sq_put_sender_key att device_id address record =
     blocking att (execute (\<lambda>db. db\<lparr>t_sender_keys := upsert (address, device_id) record (t_sender_keys db)\<rparr>))"

definition sq_get_sender_key :: "attempt \<Rightarrow> i32 \<Rightarrow> string \<Rightarrow> bytes option store_op" where
  "sq_get_sender_key att device_id address = blocking att (query (\<lambda>db. map_of (t_sender_keys db) (address, device_id)))"

definition sq_delete_sender_key :: "attempt \<Rightarrow> i32 \<Rightarrow> string \<Rightarrow> unit store_op" where
  "sq_delete_sender_key att device_id address =
     blocking att (execute (\<lambda>db. db\<lparr>t_sender_keys := AList.delete (address, device_id) (t_sender_keys db)\<rparr>))"

section \<open>Application state\<close>

definition sq_get_app_state_sync_key :: "attempt \<Rightarrow> 'a store_codec \<Rightarrow> i32 \<Rightarrow> bytes \<Rightarrow> app_state_sync_key option store_op" where
  "sq_get_app_state_sync_key att X device_id key_id =
     reading (decoded (decode_sync_key X)) (blocking att (query (\<lambda>db. map_of (t_app_state_keys db) (key_id, device_id))))"

definition sq_set_app_state_sync_key :: "attempt \<Rightarrow> 'a store_codec \<Rightarrow> i32 \<Rightarrow> bytes \<Rightarrow> app_state_sync_key \<Rightarrow> unit store_op" where
  "sq_set_app_state_sync_key att X device_id key_id key =
     encoded (encode_sync_key X key) (\<lambda>data.
       blocking att (execute (\<lambda>db. db\<lparr>t_app_state_keys := upsert (key_id, device_id) data (t_app_state_keys db)\<rparr>)))"

definition sq_get_app_state_version :: "attempt \<Rightarrow> 'a store_codec \<Rightarrow> i32 \<Rightarrow> string \<Rightarrow> hash_state store_op" where
  "sq_get_app_state_version att X device_id name =
     reading (\<lambda>res. rmap (\<lambda>s. case s of Some s \<Rightarrow> s | None \<Rightarrow> default_state) (decoded (decode_version X) res))
       (blocking att (query (\<lambda>db. map_of (t_app_state_versions db) (name, device_id))))"

definition sq_set_app_state_version :: "attempt \<Rightarrow> 'a store_codec \<Rightarrow> i32 \<Rightarrow> string \<Rightarrow> hash_state \<Rightarrow> unit store_op" where
  "sq_set_app_state_version att X device_id name state =
     encoded (encode_version X state) (\<lambda>data.
       blocking att (execute (\<lambda>db. db\<lparr>t_app_state_versions := upsert (name, device_id) data (t_app_state_versions db)\<rparr>)))"

definition sq_put_app_state_mutation_macs :: "(nat \<Rightarrow> attempt) \<Rightarrow> i32 \<Rightarrow> string \<Rightarrow> u64 \<Rightarrow> mutation_mac list \<Rightarrow> unit store_op" where
  "sq_put_app_state_mutation_macs att device_id name ver mutations =
     execute_each att 0 (map (\<lambda>m db. db\<lparr>t_app_state_mutation_macs :=
       upsert (name, mm_index_mac m, device_id) (ver, mm_value_mac m) (t_app_state_mutation_macs db)\<rparr>) mutations)"

definition sq_delete_app_state_mutation_macs :: "(nat \<Rightarrow> attempt) \<Rightarrow> i32 \<Rightarrow> string \<Rightarrow> bytes list \<Rightarrow> unit store_op" where
  "sq_delete_app_state_mutation_macs att device_id name index_macs =
     execute_each att 0 (map (\<lambda>idx db. db\<lparr>t_app_state_mutation_macs :=
       AList.delete (name, idx, device_id) (t_app_state_mutation_macs db)\<rparr>) index_macs)"

definition sq_get_app_state_mutation_mac :: "attempt \<Rightarrow> i32 \<Rightarrow> string \<Rightarrow> bytes \<Rightarrow> bytes option store_op" where
  "sq_get_app_state_mutation_mac att device_id name index_mac =
     blocking att (query (\<lambda>db. map_option snd (map_of (t_app_state_mutation_macs db) (name, index_mac, device_id))))"

section \<open>Protocol data\<close>

definition sq_get_skdm_recipients :: "attempt \<Rightarrow> i32 \<Rightarrow> string \<Rightarrow> string list store_op" where
  "sq_get_skdm_recipients att device_id group_jid =
     blocking att (query (\<lambda>db. map (\<lambda>((_, j, _), _). j)
       (filter (\<lambda>((g, _, d), _). g = group_jid \<and> d = device_id) (t_skdm_recipients db))))"

definition sq_add_skdm_recipients :: "(nat \<Rightarrow> attempt) \<Rightarrow> i32 \<Rightarrow> i32 \<Rightarrow> string \<Rightarrow> string list \<Rightarrow> unit store_op" where
  "sq_add_skdm_recipients att now device_id group_jid device_jids =
     execute_each att 0 (map (\<lambda>j db. db\<lparr>t_skdm_recipients :=
       insert_or_ignore (group_jid, j, device_id) now (t_skdm_recipients db)\<rparr>) device_jids)"

definition sq_clear_skdm_recipients :: "attempt \<Rightarrow> i32 \<Rightarrow> string \<Rightarrow> unit store_op" where
  "sq_clear_skdm_recipients att device_id group_jid =
     blocking att (execute (\<lambda>db. db\<lparr>t_skdm_recipients :=
       filter (\<lambda>((g, _, d), _). \<not> (g = group_jid \<and> d = device_id)) (t_skdm_recipients db)\<rparr>))"

definition sq_get_lid_mapping :: "attempt \<Rightarrow> i32 \<Rightarrow> string \<Rightarrow> lid_pn_mapping_entry option store_op" where
  "sq_get_lid_mapping att device_id l =
     blocking att (query (\<lambda>db. map_option (lid_entry l) (map_of (t_lid_pn_mapping db) (l, device_id))))"

definition sq_get_pn_mapping :: "attempt \<Rightarrow> i32 \<Rightarrow> string \<Rightarrow> lid_pn_mapping_entry option store_op" where
  "sq_get_pn_mapping att device_id phone =
     blocking att (query (\<lambda>db.
       case sort_key (\<lambda>e. - sint (lm_updated_at e)) (filter (\<lambda>e. lm_phone_number e = phone) (device_mappings device_id db)) of
         [] \<Rightarrow> None | e # _ \<Rightarrow> Some e))"

definition sq_put_lid_mapping :: "attempt \<Rightarrow> i32 \<Rightarrow> lid_pn_mapping_entry \<Rightarrow> unit store_op" where
  \<comment> \<open>on a conflict the row keeps its time of creation\<close>
  "sq_put_lid_mapping att device_id e =
     blocking att (execute (\<lambda>db.
       let k = (lm_lid e, device_id);
           created = (case map_of (t_lid_pn_mapping db) k of Some row \<Rightarrow> lr_created_at row | None \<Rightarrow> lm_created_at e)
       in db\<lparr>t_lid_pn_mapping := upsert k
            \<lparr>lr_phone_number = lm_phone_number e, lr_created_at = created, lr_learning_source = lm_learning_source e,
             lr_updated_at = lm_updated_at e\<rparr> (t_lid_pn_mapping db)\<rparr>))"

definition sq_get_all_lid_mappings :: "attempt \<Rightarrow> i32 \<Rightarrow> lid_pn_mapping_entry list store_op" where
  "sq_get_all_lid_mappings att device_id = blocking att (query (device_mappings device_id))"

definition sq_save_base_key :: "attempt \<Rightarrow> i32 \<Rightarrow> i32 \<Rightarrow> string \<Rightarrow> string \<Rightarrow> bytes \<Rightarrow> unit store_op" where
  "sq_save_base_key att now device_id address message_id base_key =
     blocking att (execute (\<lambda>db.
       let k = (address, message_id, device_id);
           created = (case map_of (t_base_keys db) k of Some (_, created) \<Rightarrow> created | None \<Rightarrow> now)
       in db\<lparr>t_base_keys := upsert k (base_key, created) (t_base_keys db)\<rparr>))"

definition sq_has_same_base_key :: "attempt \<Rightarrow> i32 \<Rightarrow> string \<Rightarrow> string \<Rightarrow> bytes \<Rightarrow> bool store_op" where
  "sq_has_same_base_key att device_id address message_id current_base_key =
     blocking att (query (\<lambda>db. map_option fst (map_of (t_base_keys db) (address, message_id, device_id)) = Some current_base_key))"

definition sq_delete_base_key :: "attempt \<Rightarrow> i32 \<Rightarrow> string \<Rightarrow> string \<Rightarrow> unit store_op" where
  "sq_delete_base_key att device_id address message_id =
     blocking att (execute (\<lambda>db. db\<lparr>t_base_keys := AList.delete (address, message_id, device_id) (t_base_keys db)\<rparr>))"

definition sq_update_device_list :: "attempt \<Rightarrow> 'a store_codec \<Rightarrow> i32 \<Rightarrow> i32 \<Rightarrow> device_list_record \<Rightarrow> unit store_op" where
  "sq_update_device_list att X now device_id record =
     encoded (encode_devices X (dl_devices record)) (\<lambda>devices_json.
       blocking att (execute (\<lambda>db. db\<lparr>t_device_registry := upsert (dl_user record, device_id)
         \<lparr>rr_devices_json = devices_json, rr_timestamp = ucast (dl_timestamp record), rr_phash = dl_phash record,
          rr_updated_at = now\<rparr> (t_device_registry db)\<rparr>)))"

definition sq_get_devices :: "attempt \<Rightarrow> 'a store_codec \<Rightarrow> i32 \<Rightarrow> string \<Rightarrow> device_list_record option store_op" where
  "sq_get_devices att X device_id user_id =
     reading (\<lambda>row. case row of None \<Rightarrow> Inr None
         | Some row \<Rightarrow>
             (case decode_devices X (rr_devices_json row) of None \<Rightarrow> Throw (Serialization [])
              | Some devices \<Rightarrow> Inr (Some \<lparr>dl_user = user_id, dl_devices = devices, dl_timestamp = scast (rr_timestamp row),
                                         dl_phash = rr_phash row\<rparr>)))
       (blocking att (query (\<lambda>db. map_of (t_device_registry db) (user_id, device_id))))"

definition sq_mark_forget_sender_key :: "attempt \<Rightarrow> i32 \<Rightarrow> i32 \<Rightarrow> string \<Rightarrow> string \<Rightarrow> unit store_op" where
  "sq_mark_forget_sender_key att now device_id group_jid participant =
     blocking att (execute (\<lambda>db. db\<lparr>t_sender_key_status :=
       upsert (group_jid, participant, device_id) now (t_sender_key_status db)\<rparr>))"

definition sq_consume_forget_marks :: "(nat \<Rightarrow> attempt) \<Rightarrow> i32 \<Rightarrow> string \<Rightarrow> string list store_op" where
  \<comment> \<open>two statements without a transaction: another connection may write between them\<close>
  "sq_consume_forget_marks att device_id group_jid =
     and_then (select_marks (att 0) device_id group_jid) (\<lambda>participants.
     and_then (delete_marks (att 1) device_id group_jid) (\<lambda>_. Pair (Inr participants)))"

section \<open>The backend\<close>

fun sq_signal_call :: "env \<Rightarrow> i32 \<Rightarrow> signal_call \<Rightarrow> 'a reply store_op" where
  "sq_signal_call E d (Put_identity a k) = replying (\<lambda>_. Finished) (sq_put_identity (attempts E 0) d a k)"
| "sq_signal_call E d (Load_identity a) = replying Record_reply (sq_load_identity (attempts E 0 0) d a)"
| "sq_signal_call E d (Delete_identity a) = replying (\<lambda>_. Finished) (sq_delete_identity (attempts E 0 0) d a)"
| "sq_signal_call E d (Get_session a) = replying Record_reply (sq_get_session (attempts E 0 0) d a)"
| "sq_signal_call E d (Put_session a r) = replying (\<lambda>_. Finished) (sq_put_session (attempts E 0) d a r)"
| "sq_signal_call E d (Delete_session a) = replying (\<lambda>_. Finished) (sq_delete_session (attempts E 0 0) d a)"
| "sq_signal_call E d (Has_session a) = replying Flag (has_session (sq_get_session (attempts E 0 0) d a))"
| "sq_signal_call E d (Get_sessions_batch as) = replying Rows (sq_get_sessions_batch (attempts E 0 0) d as)"
| "sq_signal_call E d (Put_sessions_batch es) = replying (\<lambda>_. Finished) (sq_put_sessions_batch (attempts E 0) d es)"
| "sq_signal_call E d (Load_identities_batch as) = replying Rows (load_each (\<lambda>i. sq_load_identity (attempts E i 0) d) 0 as)"
| "sq_signal_call E d (Put_identities_batch es) = replying (\<lambda>_. Finished) (put_each (\<lambda>i. sq_put_identity (attempts E i) d) 0 es)"
| "sq_signal_call E d (Store_prekey i r u) = replying (\<lambda>_. Finished) (sq_store_prekey (attempts E 0 0) d i r u)"
| "sq_signal_call E d (Load_prekey i) = replying Record_reply (sq_load_prekey (attempts E 0 0) d i)"
| "sq_signal_call E d (Remove_prekey i) = replying (\<lambda>_. Finished) (sq_remove_prekey (attempts E 0 0) d i)"
| "sq_signal_call E d (Store_signed_prekey i r) = replying (\<lambda>_. Finished) (sq_store_signed_prekey (attempts E 0 0) d i r)"
| "sq_signal_call E d (Load_signed_prekey i) = replying Record_reply (sq_load_signed_prekey (attempts E 0 0) d i)"
| "sq_signal_call E d Load_all_signed_prekeys = replying Keys (sq_load_all_signed_prekeys (attempts E 0 0) d)"
| "sq_signal_call E d (Remove_signed_prekey i) = replying (\<lambda>_. Finished) (sq_remove_signed_prekey (attempts E 0 0) d i)"
| "sq_signal_call E d (Put_sender_key a r) = replying (\<lambda>_. Finished) (sq_put_sender_key (attempts E 0 0) d a r)"
| "sq_signal_call E d (Get_sender_key a) = replying Record_reply (sq_get_sender_key (attempts E 0 0) d a)"
| "sq_signal_call E d (Delete_sender_key a) = replying (\<lambda>_. Finished) (sq_delete_sender_key (attempts E 0 0) d a)"

fun sq_app_call :: "env \<Rightarrow> 'a store_codec \<Rightarrow> i32 \<Rightarrow> app_call \<Rightarrow> 'a reply store_op" where
  "sq_app_call E X d (Get_sync_key k) = replying Sync_key (sq_get_app_state_sync_key (attempts E 0 0) X d k)"
| "sq_app_call E X d (Set_sync_key k v) = replying (\<lambda>_. Finished) (sq_set_app_state_sync_key (attempts E 0 0) X d k v)"
| "sq_app_call E X d (Get_version n) = replying State_reply (sq_get_app_state_version (attempts E 0 0) X d n)"
| "sq_app_call E X d (Set_version n s) = replying (\<lambda>_. Finished) (sq_set_app_state_version (attempts E 0 0) X d n s)"
| "sq_app_call E X d (Put_mutation_macs n v ms) = replying (\<lambda>_. Finished) (sq_put_app_state_mutation_macs (attempts E 0) d n v ms)"
| "sq_app_call E X d (Get_mutation_mac n i) = replying Record_reply (sq_get_app_state_mutation_mac (attempts E 0 0) d n i)"
| "sq_app_call E X d (Delete_mutation_macs n is') = replying (\<lambda>_. Finished) (sq_delete_app_state_mutation_macs (attempts E 0) d n is')"

fun sq_protocol_call :: "env \<Rightarrow> 'a store_codec \<Rightarrow> i32 \<Rightarrow> protocol_call \<Rightarrow> 'a reply store_op" where
  "sq_protocol_call E X d (Get_skdm_recipients g) = replying Names (sq_get_skdm_recipients (attempts E 0 0) d g)"
| "sq_protocol_call E X d (Add_skdm_recipients g js) = replying (\<lambda>_. Finished) (sq_add_skdm_recipients (attempts E 0) (now_secs E) d g js)"
| "sq_protocol_call E X d (Clear_skdm_recipients g) = replying (\<lambda>_. Finished) (sq_clear_skdm_recipients (attempts E 0 0) d g)"
| "sq_protocol_call E X d (Get_lid_mapping l) = replying Mapping_reply (sq_get_lid_mapping (attempts E 0 0) d l)"
| "sq_protocol_call E X d (Get_pn_mapping p) = replying Mapping_reply (sq_get_pn_mapping (attempts E 0 0) d p)"
| "sq_protocol_call E X d (Put_lid_mapping e) = replying (\<lambda>_. Finished) (sq_put_lid_mapping (attempts E 0 0) d e)"
| "sq_protocol_call E X d Get_all_lid_mappings = replying Mappings (sq_get_all_lid_mappings (attempts E 0 0) d)"
| "sq_protocol_call E X d (Save_base_key a m k) = replying (\<lambda>_. Finished) (sq_save_base_key (attempts E 0 0) (now_secs E) d a m k)"
| "sq_protocol_call E X d (Has_same_base_key a m k) = replying Flag (sq_has_same_base_key (attempts E 0 0) d a m k)"
| "sq_protocol_call E X d (Delete_base_key a m) = replying (\<lambda>_. Finished) (sq_delete_base_key (attempts E 0 0) d a m)"
| "sq_protocol_call E X d (Update_device_list r) = replying (\<lambda>_. Finished) (sq_update_device_list (attempts E 0 0) X (now_secs E) d r)"
| "sq_protocol_call E X d (Get_devices u) = replying Devices (sq_get_devices (attempts E 0 0) X d u)"
| "sq_protocol_call E X d (Mark_forget_sender_key g p) = replying (\<lambda>_. Finished) (sq_mark_forget_sender_key (attempts E 0 0) (now_secs E) d g p)"
| "sq_protocol_call E X d (Consume_forget_marks g) = replying Names (sq_consume_forget_marks (attempts E 0) d g)"

fun sq_call :: "('p, 's) curve \<Rightarrow> 'a store_codec \<Rightarrow> i32 \<Rightarrow> env \<times> 'a backend_call \<Rightarrow> 'a reply store_op" where
  "sq_call K X d (E, Signal_call c) = sq_signal_call E d c"
| "sq_call K X d (E, App_call c) = sq_app_call E X d c"
| "sq_call K X d (E, Protocol_call c) = sq_protocol_call E X d c"
| "sq_call K X d (E, Save_device v) = replying (\<lambda>_. Finished) (sq_save_device_data_for_device (attempts E 0 0) X d v)"
| "sq_call K X d (E, Load_device) = replying Device_reply (sq_load_device_data_for_device (attempts E 0 0) K X d)"
| "sq_call K X d (E, Device_exists) = replying Flag (sq_device_exists (attempts E 0 0) d)"

section \<open>Devices do not interfere\<close>

lemmas sq_signal_defs =
  sq_put_identity_def sq_load_identity_def sq_delete_identity_def sq_get_session_def sq_put_session_def sq_delete_session_def
  sq_get_sessions_batch_def sq_put_sessions_batch_def sq_store_prekey_def sq_load_prekey_def sq_remove_prekey_def
  sq_store_signed_prekey_def sq_load_signed_prekey_def sq_load_all_signed_prekeys_def sq_remove_signed_prekey_def
  sq_put_sender_key_def sq_get_sender_key_def sq_delete_sender_key_def

lemmas sq_app_defs =
  sq_get_app_state_sync_key_def sq_set_app_state_sync_key_def sq_get_app_state_version_def sq_set_app_state_version_def
  sq_put_app_state_mutation_macs_def sq_delete_app_state_mutation_macs_def sq_get_app_state_mutation_mac_def

lemmas sq_protocol_defs =
  sq_get_skdm_recipients_def sq_add_skdm_recipients_def sq_clear_skdm_recipients_def sq_get_lid_mapping_def sq_get_pn_mapping_def
  sq_put_lid_mapping_def sq_get_all_lid_mappings_def sq_save_base_key_def sq_has_same_base_key_def sq_delete_base_key_def
  sq_update_device_list_def sq_get_devices_def sq_mark_forget_sender_key_def sq_consume_forget_marks_def

lemma owned_fold_update:
  "owned own d (foldl (\<lambda>t (a, r). AList.update (f a) r t) t es)
     = foldl (\<lambda>t (a, r). if own (f a) = d then AList.update (f a) r t else t) (owned own d t) es"
  by (induction es arbitrary: t) (auto simp: split_beta)

lemma sq_signal_confined: "confined d (sq_signal_call E d c)"
  by (cases c) (auto intro!: confined_intros simp: sq_signal_defs local_write_def local_read_def device_rows_def owned_fold_update)

lemma sq_app_confined: "confined d (sq_app_call E X d c)"
  by (cases c) (auto intro!: confined_intros simp: sq_app_defs local_write_def local_read_def device_rows_def)

lemma sq_protocol_confined: "confined d (sq_protocol_call E X d c)"
  by (cases c) (auto intro!: confined_intros simp: sq_protocol_defs local_write_def local_read_def device_rows_def
      select_marks_def delete_marks_def device_mappings_def Let_def)

lemma sq_call_confined: "confined d (sq_call K X d c)"
proof -
  obtain E b where c: "c = (E, b)" by (cases c)
  show ?thesis
    unfolding c
    by (cases b) (auto intro!: confined_intros sq_signal_confined sq_app_confined sq_protocol_confined
      simp: sq_save_device_data_for_device_def sq_load_device_data_for_device_def sq_device_exists_def
        local_write_def local_read_def device_rows_def)
qed

interpretation sq_devices: device_store "sq_call K X" for K X
  by unfold_locales (rule sq_call_confined)

section \<open>Writes that last\<close>

definition sq_write_identity :: "i32 \<Rightarrow> (nat \<Rightarrow> attempt) \<Rightarrow> string \<Rightarrow> bytes option \<Rightarrow> unit store_op" where
  "sq_write_identity d att a v = (case v of Some k \<Rightarrow> sq_put_identity att d a k | None \<Rightarrow> sq_delete_identity (att 0) d a)"

definition sq_write_session :: "i32 \<Rightarrow> (nat \<Rightarrow> attempt) \<Rightarrow> string \<Rightarrow> bytes option \<Rightarrow> unit store_op" where
  "sq_write_session d att a v = (case v of Some r \<Rightarrow> sq_put_session att d a r | None \<Rightarrow> sq_delete_session (att 0) d a)"

definition sq_write_sender_key :: "i32 \<Rightarrow> attempt \<Rightarrow> string \<Rightarrow> bytes option \<Rightarrow> unit store_op" where
  "sq_write_sender_key d att a v = (case v of Some r \<Rightarrow> sq_put_sender_key att d a r | None \<Rightarrow> sq_delete_sender_key att d a)"

definition sq_write_prekey :: "i32 \<Rightarrow> attempt \<times> bool \<Rightarrow> u32 \<Rightarrow> bytes option \<Rightarrow> unit store_op" where
  "sq_write_prekey d = (\<lambda>(att, uploaded) i v.
     case v of Some r \<Rightarrow> sq_store_prekey att d i r uploaded | None \<Rightarrow> sq_remove_prekey att d i)"

definition sq_write_signed_prekey :: "i32 \<Rightarrow> attempt \<Rightarrow> u32 \<Rightarrow> bytes option \<Rightarrow> unit store_op" where
  "sq_write_signed_prekey d att i v =
     (case v of Some r \<Rightarrow> sq_store_signed_prekey att d i r | None \<Rightarrow> sq_remove_signed_prekey att d i)"

lemma map_of_delete [simp]: "map_of (AList.delete k t) k' = (if k' = k then None else map_of t k')"
  by (simp add: AList.delete_conv fun_upd_def)

lemma map_of_update [simp]: "map_of (AList.update k v t) k' = (if k' = k then Some v else map_of t k')"
  by (simp add: AList.update_conv fun_upd_def)

lemma blocking_execute:
  "snd (blocking att (execute f) db) = (if fst (blocking att (execute f) db) = Inr () then f db else db)"
  by (cases att) (simp_all add: blocking_def execute_def)

lemma retrying_execute:
  "snd (retrying att sem what f db) = (if fst (retrying att sem what f db) = Inr () then f db else db)"
  by (simp add: snd_retrying split: sum.split)

lemmas acknowledged_defs = blocking_execute retrying_execute

interpretation sq_identities: durable_table "sq_write_identity d" "\<lambda>db a. map_of (t_identities db) (a, d)" for d
  by unfold_locales
    (simp add: sq_write_identity_def sq_put_identity_def sq_delete_identity_def acknowledged_defs split: option.split)

interpretation sq_sessions: durable_table "sq_write_session d" "\<lambda>db a. map_of (t_sessions db) (a, d)" for d
  by unfold_locales
    (simp add: sq_write_session_def sq_put_session_def sq_delete_session_def acknowledged_defs split: option.split)

interpretation sq_sender_keys: durable_table "sq_write_sender_key d" "\<lambda>db a. map_of (t_sender_keys db) (a, d)" for d
  by unfold_locales
    (simp add: sq_write_sender_key_def sq_put_sender_key_def sq_delete_sender_key_def acknowledged_defs split: option.split)

interpretation sq_prekeys: durable_table "sq_write_prekey d" "\<lambda>db i. map_option fst (map_of (t_prekeys db) (i, d))" for d
  by unfold_locales
    (simp add: sq_write_prekey_def sq_store_prekey_def sq_remove_prekey_def acknowledged_defs split: option.split prod.split)

interpretation sq_signed_prekeys: durable_table "sq_write_signed_prekey d" "\<lambda>db i. map_of (t_signed_prekeys db) (i, d)" for d
  by unfold_locales
    (simp add: sq_write_signed_prekey_def sq_store_signed_prekey_def sq_remove_signed_prekey_def acknowledged_defs split: option.split)

section \<open>Device data is read back\<close>

lemma jid_text_roundtrip: "pred_option jid_canonical j \<Longrightarrow> jid_of_text (jid_text j) = j"
proof (cases j)
  case (Some a)
  assume "pred_option jid_canonical j"
  then have r: "from_str (jid_to_string a) = Inr a" using from_str_to_string Some by simp
  moreover have "jid_to_string a \<noteq> []"
    using \<open>pred_option jid_canonical j\<close> Some
    by (auto simp: jid_canonical_def jid_to_string_def known_servers_def server_defs split: if_splits)
  ultimately show ?thesis using Some by (simp add: jid_text_def jid_of_text_def)
qed (simp add: jid_text_def jid_of_text_def)

lemma keypair_roundtrip:
  assumes "curve_laws K" "pair_ok K kp"
  shows "deserialize_keypair K (serialize_keypair kp) = Inr kp"
proof -
  obtain a b where kp: "kp_private kp = DjbPrivateKey a" "kp_public kp = DjbPublicKey b"
    by (metis private_key.exhaust public_key.exhaust)
  have "length a = 32" "clamp_integer K a = a" "length b = 32"
    using assms kp pair_public_ok [OF assms] by (auto simp: pair_ok_def)
  then show ?thesis
    using kp by (cases kp) (simp add: deserialize_keypair_def serialize_keypair_def private_deserialize_def from_djb_public_key_bytes_def)
qed

lemma tertiary_roundtrip:
  fixes v :: u32
  shows "0 \<le> sint (ucast v :: i64) \<and> sint (ucast v :: i64) < 2 ^ 32" "(ucast (ucast v :: i64) :: u32) = v"
proof -
  have "uint v < 2 ^ 32" using uint_lt2p [of v] by simp
  moreover have "- (2 ^ 63) \<le> uint v" by (rule order_trans [OF _ uint_ge_0]) simp
  ultimately have "signed_take_bit 63 (uint v) = uint v" by (intro signed_take_bit_int_eq_self) simp_all
  then have "sint (ucast v :: i64) = uint v" by (simp add: signed_ucast_eq)
  then show "0 \<le> sint (ucast v :: i64) \<and> sint (ucast v :: i64) < 2 ^ 32"
    using uint_lt2p [of v] by simp
  show "(ucast (ucast v :: i64) :: u32) = v" by (rule bit_word_eqI) (auto simp: bit_simps dest: bit_imp_le_length)
qed

lemma device_row_roundtrip:
  assumes "curve_laws K" "account_codec X" "device_ok K v"
  shows "device_of_row K X (row_of_device X v) = Inr v"
  using assms tertiary_roundtrip
  by (cases v) (simp add: device_of_row_def row_of_device_def device_ok_def keypair_roundtrip jid_text_roundtrip sized_field_def
      decoded_def account_codec_def split: option.split)

section \<open>Device lists\<close>

lemma narrow_widen:
  fixes t :: i64
  shows "(scast (ucast t :: i32) :: i64) = t \<longleftrightarrow> - (2 ^ 31) \<le> sint t \<and> sint t < 2 ^ 31"
proof -
  have u: "uint t = take_bit 64 (sint t)" by (simp add: unsigned_of_int uint_sint)
  have "sint (ucast t :: i32) = signed_take_bit 31 (sint t)"
    by (simp add: signed_ucast_eq u signed_take_bit_take_bit)
  then have "sint (scast (ucast t :: i32) :: i64) = signed_take_bit 31 (sint t)"
    by (simp add: signed_scast_eq signed_take_bit_signed_take_bit)
  then have "(scast (ucast t :: i32) :: i64) = t \<longleftrightarrow> signed_take_bit 31 (sint t) = sint t"
    by (metis signed_word_eqI)
  then show ?thesis
    using signed_take_bit_int_eq_self_iff [of 31 "sint t"] by simp
qed

section \<open>Application state, as the synchroniser sees it\<close>

definition app_view :: "'a store_codec \<Rightarrow> i32 \<Rightarrow> database \<Rightarrow> app_store" where
  "app_view X d db =
     \<lparr>sync_keys = \<lambda>k. map_option ask_key_data (Option.bind (map_of (t_app_state_keys db) (k, d)) (decode_sync_key X)),
      versions = \<lambda>n. Option.bind (map_of (t_app_state_versions db) (n, d)) (decode_version X),
      mac_table = \<lambda>n i. map_option snd (map_of (t_app_state_mutation_macs db) (n, i, d))\<rparr>"

definition decodable :: "'a store_codec \<Rightarrow> i32 \<Rightarrow> database \<Rightarrow> bool" where
  "decodable X d db \<longleftrightarrow> (\<forall>k b. map_of (t_app_state_keys db) (k, d) = Some b \<longrightarrow> decode_sync_key X b \<noteq> None)
     \<and> (\<forall>n b. map_of (t_app_state_versions db) (n, d) = Some b \<longrightarrow> decode_version X b \<noteq> None)"

definition stores_app :: "'a store_codec \<Rightarrow> i32 \<Rightarrow> database \<Rightarrow> app_store \<Rightarrow> bool" where
  "stores_app X d db st \<longleftrightarrow> decodable X d db \<and> app_view X d db = st"

lemma put_macs_refines:
  "stores_app X d db st \<Longrightarrow>
     stores_app X d (snd (sq_put_app_state_mutation_macs (\<lambda>_. Done) d n v ms db)) (put_mutation_macs n ms st)"
proof -
  have "stores_app X d (snd (execute_each (\<lambda>_. Done) i (map (\<lambda>m db. db\<lparr>t_app_state_mutation_macs :=
       upsert (n, mm_index_mac m, d) (v, mm_value_mac m) (t_app_state_mutation_macs db)\<rparr>) ms) db)) (put_mutation_macs n ms st)"
    if "stores_app X d db st" for i
    using that
  proof (induction ms arbitrary: db st i)
    case (Cons m ms)
    let ?db = "db\<lparr>t_app_state_mutation_macs := upsert (n, mm_index_mac m, d) (v, mm_value_mac m) (t_app_state_mutation_macs db)\<rparr>"
    let ?st = "st\<lparr>mac_table := (mac_table st)(n := (mac_table st n)(mm_index_mac m \<mapsto> mm_value_mac m))\<rparr>"
    have "stores_app X d ?db ?st"
      using Cons.prems by (auto simp: stores_app_def decodable_def app_view_def fun_eq_iff)
    then show ?case using Cons.IH [of ?db ?st] by (simp add: put_mutation_macs_def put_rows_def)
  qed (simp add: put_mutation_macs_def put_rows_def)
  then show "stores_app X d db st \<Longrightarrow> ?thesis" by (simp add: sq_put_app_state_mutation_macs_def)
qed

lemma delete_macs_refines:
  "stores_app X d db st \<Longrightarrow>
     stores_app X d (snd (sq_delete_app_state_mutation_macs (\<lambda>_. Done) d n ks db)) (delete_mutation_macs n ks st)"
proof -
  have "stores_app X d (snd (execute_each (\<lambda>_. Done) i (map (\<lambda>idx db. db\<lparr>t_app_state_mutation_macs :=
       AList.delete (n, idx, d) (t_app_state_mutation_macs db)\<rparr>) ks) db)) (delete_mutation_macs n ks st)"
    if "stores_app X d db st" for i
    using that
  proof (induction ks arbitrary: db st i)
    case (Cons k ks)
    let ?db = "db\<lparr>t_app_state_mutation_macs := AList.delete (n, k, d) (t_app_state_mutation_macs db)\<rparr>"
    let ?st = "st\<lparr>mac_table := (mac_table st)(n := (mac_table st n)(k := None))\<rparr>"
    have "stores_app X d ?db ?st"
      using Cons.prems by (auto simp: stores_app_def decodable_def app_view_def fun_eq_iff)
    then show ?case using Cons.IH [of ?db ?st] by (simp add: delete_mutation_macs_def delete_rows_def)
  qed (simp add: delete_mutation_macs_def delete_rows_def)
  then show "stores_app X d db st \<Longrightarrow> ?thesis" by (simp add: sq_delete_app_state_mutation_macs_def)
qed

lemma set_version_refines:
  assumes "stores_app X d db st" "version_codec X s"
  shows "stores_app X d (snd (sq_set_app_state_version Done X d n s db)) (set_version n s st)"
  using assms
  by (auto simp: stores_app_def decodable_def app_view_def fun_eq_iff sq_set_app_state_version_def set_version_def version_codec_def
      encoded_def blocking_def execute_def split: option.splits)

lemma app_reads_refine:
  assumes "stores_app X d db st"
  shows "fst (sq_get_app_state_version Done X d n db) = Inr (get_version n st)"
    "rmap (map_option ask_key_data) (fst (sq_get_app_state_sync_key Done X d k db)) = Inr (get_sync_key k st)"
    "fst (sq_get_app_state_mutation_mac Done d n i db) = Inr (get_mutation_mac n i st)"
  using assms
  by (auto simp: stores_app_def decodable_def app_view_def sq_get_app_state_version_def sq_get_app_state_sync_key_def
      sq_get_app_state_mutation_mac_def get_version_def get_sync_key_def get_mutation_mac_def blocking_def query_def reading_def
      decoded_def split: option.splits) force+

section \<open>Properties\<close>

text \<open>C5: The devices that share one database do not interfere. In any sequence of calls for any number of
  devices, with any failures, a device gets the replies, and is left with the rows, that it would get from its own calls
  alone on its own rows alone.\<close>

theorem devices_isolated:
  "of_device d (fst (run_calls (sq_call K X) cs db)) = fst (run_calls (sq_call K X) (of_device d cs) (device_rows d db))
   \<and> device_rows d (snd (run_calls (sq_call K X) cs db)) = device_rows d (snd (run_calls (sq_call K X) (of_device d cs) (device_rows d db)))"
  by (rule sq_devices.calls_isolated) (simp add: device_rows_def)

text \<open>C6: Whatever sequence of writes and deletions was made, each with its own failures and repetitions, reading
  an identity key, a session, a sender key, a one-time key or a signed key gives the value of the last write to it
  that reported success, and what was there before if there was none: no failed write shows, no acknowledged one is lost.\<close>

theorem last_acknowledged_write:
  "fst (sq_load_identity Done d a (snd (run_writes (sq_write_identity d) ws1 db)))
     = Inr (acknowledged ws1 (fst (run_writes (sq_write_identity d) ws1 db)) a (map_of (t_identities db) (a, d)))
   \<and> fst (sq_get_session Done d a (snd (run_writes (sq_write_session d) ws2 db)))
     = Inr (acknowledged ws2 (fst (run_writes (sq_write_session d) ws2 db)) a (map_of (t_sessions db) (a, d)))
   \<and> fst (sq_get_sender_key Done d a (snd (run_writes (sq_write_sender_key d) ws3 db)))
     = Inr (acknowledged ws3 (fst (run_writes (sq_write_sender_key d) ws3 db)) a (map_of (t_sender_keys db) (a, d)))
   \<and> fst (sq_load_prekey Done d i (snd (run_writes (sq_write_prekey d) ws4 db)))
     = Inr (acknowledged ws4 (fst (run_writes (sq_write_prekey d) ws4 db)) i (map_option fst (map_of (t_prekeys db) (i, d))))
   \<and> fst (sq_load_signed_prekey Done d i (snd (run_writes (sq_write_signed_prekey d) ws5 db)))
     = Inr (acknowledged ws5 (fst (run_writes (sq_write_signed_prekey d) ws5 db)) i (map_of (t_signed_prekeys db) (i, d)))"
  by (simp add: sq_load_identity_def sq_get_session_def sq_get_sender_key_def sq_load_prekey_def sq_load_signed_prekey_def
      blocking_def query_def sq_identities.last_acknowledged sq_sessions.last_acknowledged sq_sender_keys.last_acknowledged
      sq_prekeys.last_acknowledged sq_signed_prekeys.last_acknowledged)

text \<open>C7: A write that is retried ends after at most six attempts, whatever the engine answers. The waits between the
  attempts double from 10 milliseconds and add up to at most 310. Attempts are repeated exactly while the engine
  refuses with a message about a lock, the write has happened if and only if success is reported, and an error leaves
  the database as it was.\<close>

theorem retried_write_ends:
  "\<exists>r waits k. retry_loop att sem what f 0 db = (r, waits, if r = Inr () then f db else db)
     \<and> k \<le> 5 \<and> waits = take k [10, 20, 40, 80, 160] \<and> sum_list waits \<le> 310
     \<and> (\<forall>i < k. \<exists>e. att i = Refused e \<and> retriable e) \<and> (k < 5 \<longrightarrow> (\<forall>e. att k = Refused e \<longrightarrow> \<not> retriable e))
     \<and> (r = Inr () \<longleftrightarrow> att k = Done)"
proof -
  obtain r waits db' where run: "retry_loop att sem what f 0 db = (r, waits, db')" by (metis prod_cases3)
  have db': "db' = (if r = Inr () then f db else db)"
    using retry_loop_result [OF run] by (auto split: sum.splits)
  obtain k where k: "k \<le> 5" "waits = map (\<lambda>i. 10 * 2 ^ i) [0..<k]" "\<forall>i \<in> {0..<k}. \<exists>e. att i = Refused e \<and> retriable e"
      "k = 5 \<or> (\<forall>e. att k = Refused e \<longrightarrow> \<not> retriable e)"
      "case att k of Done \<Rightarrow> r = Inr () | Refused e \<Rightarrow> r = Throw e | Lost m \<Rightarrow> r = Throw (Database (''Task join error: '' @ m))
         | Closed m \<Rightarrow> r = Throw (Database (sem @ m))"
    using retry_loop_waits [OF _ run] unfolding MAX_RETRIES_def by auto
  have "k = 0 \<or> k = 1 \<or> k = 2 \<or> k = 3 \<or> k = 4 \<or> k = 5" using k(1) by linarith
  then have "waits = take k [10, 20, 40, 80, 160] \<and> sum_list waits \<le> 310"
    unfolding k(2) by (elim disjE) (simp_all add: upt_conv_Cons)
  moreover have "r = Inr () \<longleftrightarrow> att k = Done" using k(5) by (auto split: attempt.splits)
  moreover have "\<forall>i < k. \<exists>e. att i = Refused e \<and> retriable e" using k(3) by auto
  ultimately show ?thesis using run db' k(1,4) by blast
qed

theorem retried_write_ends_witness:
  "retry_loop (\<lambda>i. if i < 2 then Refused (Database ''database is locked'') else Done) ''s'' ''w'' (\<lambda>n :: nat. n + 1) 0 7 = (Inr (), [10, 20], 8)"
proof -
  define att :: "nat \<Rightarrow> attempt" where "att = (\<lambda>i. if i < 2 then Refused (Database ''database is locked'') else Done)"
  have r: "retriable (Database ''database is locked'')" by (simp add: retriable_def)
  obtain r waits k where w: "retry_loop att ''s'' ''w'' (\<lambda>n :: nat. n + 1) 0 7 = (r, waits, if r = Inr () then 7 + 1 else 7)"
      "waits = take k [10, 20, 40, 80, 160]" "\<forall>i < k. \<exists>e. att i = Refused e \<and> retriable e"
      "k < 5 \<longrightarrow> (\<forall>e. att k = Refused e \<longrightarrow> \<not> retriable e)" "r = Inr () \<longleftrightarrow> att k = Done"
    using retried_write_ends [of att "''s''" "''w''" "\<lambda>n. n + 1" 7] by blast
  have "\<not> 2 < k" using w(3) by (auto simp: att_def dest: spec [of _ 2])
  moreover have "\<not> k < 2" using w(4) r by (auto simp: att_def split: if_splits)
  ultimately have "k = 2" by simp
  then have "r = Inr ()" "waits = [10, 20]" using w(2,5) by (simp_all add: att_def)
  with w(1) show ?thesis unfolding att_def by simp
qed

text \<open>C8: A device made by \<open>Device::new\<close> and changed by any sequence of commands, whose addresses are ones that
  their text can carry, is read back from the database exactly as it was saved, from whatever row was there before.\<close>

theorem device_survives_restart:
  assumes "curve_laws K" "signature_laws K" "account_codec X"
    "length r1 = 32" "length r2 = 32" "length secret = 32" "length r5 = 32"
    "\<forall>(now, c) \<in> set cs. command_ok c"
    "v = foldl (\<lambda>d (now, c). apply_command_to_device now d c) (device_new K r1 r2 r3 secret r5) cs"
  shows "fst (sq_load_device_data_for_device Done K X d (snd (sq_save_device_data_for_device Done X d v db))) = Inr (Some v)"
proof -
  have "device_ok K v"
    unfolding assms(9) by (rule apply_commands_ok [OF device_new_ok assms(8)]) (use assms in simp_all)
  from device_row_roundtrip [OF assms(1,3) this] show ?thesis
    by (simp add: sq_load_device_data_for_device_def sq_save_device_data_for_device_def blocking_def query_def execute_def reading_def)
qed

definition toy_store :: "unit store_codec" where
  "toy_store = \<lparr>encode_account = \<lambda>_. [], decode_account = \<lambda>_. Some (), encode_devices = \<lambda>_. Some [], decode_devices = \<lambda>_. Some [],
     encode_sync_key = \<lambda>_. None, decode_sync_key = \<lambda>_. None, encode_version = \<lambda>s. if s = default_state then Some [] else None,
     decode_version = \<lambda>b. if b = [] then Some default_state else None\<rparr>"

definition empty_database :: database where
  "empty_database = \<lparr>t_device = [], t_identities = [], t_sessions = [], t_prekeys = [], t_signed_prekeys = [], t_sender_keys = [],
     t_app_state_keys = [], t_app_state_versions = [], t_app_state_mutation_macs = [], t_skdm_recipients = [], t_lid_pn_mapping = [],
     t_base_keys = [], t_device_registry = [], t_sender_key_status = []\<rparr>"

theorem device_survives_restart_witness:
  "fst (sq_load_device_data_for_device Done toy_curve toy_store 1 (snd (sq_save_device_data_for_device Done toy_store 1
     (apply_command_to_device 0 (device_new toy_curve (replicate 32 1) (replicate 32 2) [] (replicate 32 3) (replicate 32 4))
       (SetId (Some (pn_device ''15551234'' 33)))) empty_database)))
   = Inr (Some (apply_command_to_device 0 (device_new toy_curve (replicate 32 1) (replicate 32 2) [] (replicate 32 3) (replicate 32 4))
       (SetId (Some (pn_device ''15551234'' 33)))))"
proof -
  have c: "jid_canonical (pn_device ''15551234'' 33)"
    by (simp add: jid_canonical_def pn_device_def default_jid_def server_defs dot_number_def rsplit_once_def known_servers_def)
  have a: "account_codec toy_store" by (simp add: account_codec_def toy_store_def)
  show ?thesis
    using device_survives_restart [OF toy_curve_laws a, of "replicate 32 1" "replicate 32 2" "replicate 32 3" "replicate 32 4"
        "[(0, SetId (Some (pn_device ''15551234'' 33)))]" _ "[]" 1 empty_database] c
    by simp
qed

text \<open>C9: The rows of a device implement the storage of the application state synchroniser, the maps of \<open>app_store\<close>:
  as long as every row decodes, which all writes keep, the three writes do to the rows what the abstract ones do to the maps, and the
  reads return what the abstract ones return.\<close>

theorem app_storage_refines:
  assumes "stores_app X d db st" "version_codec X s"
  shows "stores_app X d (snd (sq_set_app_state_version Done X d n s db)) (set_version n s st)
    \<and> stores_app X d (snd (sq_put_app_state_mutation_macs (\<lambda>_. Done) d n v ms db)) (put_mutation_macs n ms st)
    \<and> stores_app X d (snd (sq_delete_app_state_mutation_macs (\<lambda>_. Done) d n ks db)) (delete_mutation_macs n ks st)
    \<and> fst (sq_get_app_state_version Done X d n db) = Inr (get_version n st)
    \<and> rmap (map_option ask_key_data) (fst (sq_get_app_state_sync_key Done X d k db)) = Inr (get_sync_key k st)
    \<and> fst (sq_get_app_state_mutation_mac Done d n i db) = Inr (get_mutation_mac n i st)"
  using set_version_refines [OF assms] put_macs_refines [OF assms(1)] delete_macs_refines [OF assms(1)] app_reads_refine [OF assms(1)]
  by blast

theorem app_storage_refines_witness:
  "stores_app toy_store 1 (snd (sq_set_app_state_version Done toy_store 1 ''regular'' default_state empty_database))
     (set_version ''regular'' default_state \<lparr>sync_keys = \<lambda>_. None, versions = \<lambda>_. None, mac_table = \<lambda>_ _. None\<rparr>)"
proof -
  have "stores_app toy_store 1 empty_database \<lparr>sync_keys = \<lambda>_. None, versions = \<lambda>_. None, mac_table = \<lambda>_ _. None\<rparr>"
    by (simp add: stores_app_def decodable_def app_view_def empty_database_def)
  moreover have "version_codec toy_store default_state" by (simp add: version_codec_def toy_store_def)
  ultimately show ?thesis using app_storage_refines by blast
qed

text \<open>C10: A stored device list is read back with its user, its devices and its hash, and with its time cut to 32 bits
  and extended again: the record that is returned is the one that was stored if and only if the time fits a signed 32-bit number of
  seconds.\<close>

theorem device_list_time:
  assumes "devices_codec X (dl_devices r)"
  shows "fst (sq_get_devices Done X d (dl_user r) (snd (sq_update_device_list Done X now d r db)))
      = Inr (Some (r\<lparr>dl_timestamp := scast (ucast (dl_timestamp r) :: i32)\<rparr>))
    \<and> (fst (sq_get_devices Done X d (dl_user r) (snd (sq_update_device_list Done X now d r db))) = Inr (Some r)
        \<longleftrightarrow> - (2 ^ 31) \<le> sint (dl_timestamp r) \<and> sint (dl_timestamp r) < 2 ^ 31)"
proof -
  have "fst (sq_get_devices Done X d (dl_user r) (snd (sq_update_device_list Done X now d r db)))
      = Inr (Some (r\<lparr>dl_timestamp := scast (ucast (dl_timestamp r) :: i32)\<rparr>))"
    using assms by (cases r)
      (auto simp: devices_codec_def sq_get_devices_def sq_update_device_list_def encoded_def blocking_def execute_def query_def reading_def
        split: option.splits)
  moreover have "r\<lparr>dl_timestamp := t\<rparr> = r \<longleftrightarrow> t = dl_timestamp r" for t by (cases r) auto
  ultimately show ?thesis using narrow_widen [of "dl_timestamp r"] by simp
qed

theorem device_list_time_witness:
  "fst (sq_get_devices Done toy_store 1 ''155'' (snd (sq_update_device_list Done toy_store 0 1
     \<lparr>dl_user = ''155'', dl_devices = [], dl_timestamp = 1700000000000, dl_phash = None\<rparr> empty_database)))
   \<noteq> Inr (Some \<lparr>dl_user = ''155'', dl_devices = [], dl_timestamp = 1700000000000, dl_phash = None\<rparr>)"
  using device_list_time [of toy_store "\<lparr>dl_user = ''155'', dl_devices = [], dl_timestamp = 1700000000000, dl_phash = None\<rparr>" 1 0 empty_database]
  by (simp add: devices_codec_def toy_store_def)

text \<open>
  \<open>consume_forget_marks\<close> selects and deletes in two statements. A mark that another connection sets between them is deleted without
  having been reported.
\<close>

theorem forget_mark_lost:
  assumes "map_of (t_sender_key_status db) (g, p, d) = None"
  shows "\<exists>ps db1 db2 db3. select_marks Done d g db = (Inr ps, db1) \<and> p \<notin> set ps
    \<and> sq_mark_forget_sender_key Done now d g p db1 = (Inr (), db2) \<and> delete_marks Done d g db2 = (Inr (), db3)
    \<and> fst (sq_consume_forget_marks (\<lambda>_. Done) d g db3) = Inr []"
  using assms
  by (auto simp: select_marks_def delete_marks_def sq_mark_forget_sender_key_def sq_consume_forget_marks_def and_then_def
      blocking_def query_def execute_def map_of_eq_None_iff split_beta image_iff)

end
