(* ===== verification/Postgres.thy ===== *)
theory Postgres
  imports Sqlite
begin

text \<open>
  The PostgreSQL backend (\<^verbatim>\<open>storages/postgres-storage/src/postgres_store.rs\<close>), operation by operation, and that it is
  interchangeable with the SQLite backend. It waits for a permit before three of its reads, creates a device in one
  statement, and has identity batches of its own.
\<close>

definition with_semaphore :: "attempt \<Rightarrow> ('d \<Rightarrow> 'a store_result \<times> 'd) \<Rightarrow> 'd \<Rightarrow> 'a store_result \<times> 'd" where
  "with_semaphore att f db =
     (case att of Closed e \<Rightarrow> (Throw (Database (''Semaphore error: '' @ e)), db) | _ \<Rightarrow> blocking att f db)"

section \<open>Device data\<close>

definition pg_serialize_keypair :: "key_pair \<Rightarrow> bytes" where
  "pg_serialize_keypair key_pair = private_serialize (kp_private key_pair) @ public_key_bytes (kp_public key_pair)"

definition pg_deserialize_keypair :: "('p, 's) curve \<Rightarrow> bytes \<Rightarrow> key_pair store_result" where
  "pg_deserialize_keypair K bytes =
     (if length bytes \<noteq> 64 then Throw (Serialization (''Invalid KeyPair length: '' @ show_nat (length bytes)))
      else case private_deserialize K (take 32 bytes) of
             Inl _ \<Rightarrow> Throw (Serialization [])
           | Inr private_key \<Rightarrow>
               (case from_djb_public_key_bytes (drop 32 bytes) of
                  Inl _ \<Rightarrow> Throw (Serialization [])
                | Inr public_key \<Rightarrow> Inr \<lparr>kp_public = public_key, kp_private = private_key\<rparr>))"

definition pg_row_of_device :: "'a store_codec \<Rightarrow> 'a core_device \<Rightarrow> device_row" where
  "pg_row_of_device X d =
     \<lparr>dr_lid = jid_text (cd_lid d), dr_pn = jid_text (cd_pn d), dr_registration_id = cd_registration_id d,
      dr_noise_key = pg_serialize_keypair (cd_noise_key d), dr_identity_key = pg_serialize_keypair (cd_identity_key d),
      dr_signed_pre_key = pg_serialize_keypair (cd_signed_pre_key d), dr_signed_pre_key_id = cd_signed_pre_key_id d,
      dr_signed_pre_key_signature = cd_signed_pre_key_signature d, dr_adv_secret_key = cd_adv_secret_key d,
      dr_account = map_option (encode_account X) (cd_account d), dr_push_name = cd_push_name d,
      dr_app_version_primary = cd_app_version_primary d, dr_app_version_secondary = cd_app_version_secondary d,
      dr_app_version_tertiary = ucast (cd_app_version_tertiary d), dr_app_version_last_fetched_ms = cd_app_version_last_fetched_ms d,
      dr_edge_routing_info = cd_edge_routing_info d\<rparr>"

definition pg_save_device_data_for_device :: "attempt \<Rightarrow> 'a store_codec \<Rightarrow> i32 \<Rightarrow> 'a core_device \<Rightarrow> unit store_op" where
  "pg_save_device_data_for_device att X device_id d =
     blocking att (execute (\<lambda>db. db\<lparr>t_device := upsert device_id (pg_row_of_device X d) (t_device db)\<rparr>))"

definition pg_create_new_device :: "attempt \<Rightarrow> ('p, 's) curve \<Rightarrow> 'a store_codec \<Rightarrow> bytes \<times> bytes \<times> bytes \<times> bytes \<times> bytes \<Rightarrow> i32 \<Rightarrow> i32 store_op" where
  \<comment> \<open>one statement returns the identifier that it gave the row\<close>
  "pg_create_new_device att K X = (\<lambda>(r1, r2, r3, r4, r5) new_id.
     let new_device = (device_new K r1 r2 r3 r4 r5)\<lparr>cd_account := None, cd_edge_routing_info := None\<rparr>;
         row = (pg_row_of_device X new_device)\<lparr>dr_lid := [], dr_pn := []\<rparr>
     in blocking att (\<lambda>db. (Inr new_id, db\<lparr>t_device := t_device db @ [(new_id, row)]\<rparr>)))"

definition pg_device_exists :: "attempt \<Rightarrow> i32 \<Rightarrow> bool store_op" where
  "pg_device_exists att device_id =
     blocking att (query (\<lambda>db. length (filter (\<lambda>(i, _). i = device_id) (t_device db)) > 0))"

definition pg_device_of_row :: "('p, 's) curve \<Rightarrow> 'a store_codec \<Rightarrow> device_row \<Rightarrow> 'a core_device store_result" where
  "pg_device_of_row K X row =
     rbind (pg_deserialize_keypair K (dr_noise_key row)) (\<lambda>noise_key.
     rbind (pg_deserialize_keypair K (dr_identity_key row)) (\<lambda>identity_key.
     rbind (pg_deserialize_keypair K (dr_signed_pre_key row)) (\<lambda>signed_pre_key.
     rbind (sized_field 64 ''Invalid signed_pre_key_signature length'' (dr_signed_pre_key_signature row)) (\<lambda>signature.
     rbind (sized_field 32 ''Invalid adv_secret_key length'' (dr_adv_secret_key row)) (\<lambda>adv_secret_key.
     rbind (decoded (decode_account X) (dr_account row)) (\<lambda>account.
     Inr \<lparr>cd_pn = jid_of_text (dr_pn row), cd_lid = jid_of_text (dr_lid row), cd_registration_id = dr_registration_id row,
          cd_noise_key = noise_key, cd_identity_key = identity_key, cd_signed_pre_key = signed_pre_key,
          cd_signed_pre_key_id = dr_signed_pre_key_id row, cd_signed_pre_key_signature = signature,
          cd_adv_secret_key = adv_secret_key, cd_account = account, cd_push_name = dr_push_name row,
          cd_app_version_primary = dr_app_version_primary row, cd_app_version_secondary = dr_app_version_secondary row,
          cd_app_version_tertiary =
            (if 0 \<le> sint (dr_app_version_tertiary row) \<and> sint (dr_app_version_tertiary row) < 2 ^ 32
             then ucast (dr_app_version_tertiary row) else 0),
          cd_app_version_last_fetched_ms = dr_app_version_last_fetched_ms row,
          cd_edge_routing_info = dr_edge_routing_info row\<rparr>))))))"

definition pg_load_device_data_for_device :: "attempt \<Rightarrow> ('p, 's) curve \<Rightarrow> 'a store_codec \<Rightarrow> i32 \<Rightarrow> 'a core_device option store_op" where
  "pg_load_device_data_for_device att K X device_id =
     reading (\<lambda>row. case row of None \<Rightarrow> Inr None | Some row \<Rightarrow> rmap Some (pg_device_of_row K X row))
       (blocking att (query (\<lambda>db. map_of (t_device db) device_id)))"

section \<open>Signal keys and sessions\<close>

definition pg_put_identity :: "(nat \<Rightarrow> attempt) \<Rightarrow> i32 \<Rightarrow> string \<Rightarrow> bytes \<Rightarrow> unit store_op" where
  "pg_put_identity att device_id address key =
     retrying att ''Failed to acquire semaphore: '' ''Identity write failed after 6 attempts'' (\<lambda>db. db\<lparr>t_identities := upsert (address, device_id) key (t_identities db)\<rparr>)"

definition pg_delete_identity :: "attempt \<Rightarrow> i32 \<Rightarrow> string \<Rightarrow> unit store_op" where
  "pg_delete_identity att device_id address =
     blocking att (execute (\<lambda>db. db\<lparr>t_identities := AList.delete (address, device_id) (t_identities db)\<rparr>))"

definition pg_load_identity :: "attempt \<Rightarrow> i32 \<Rightarrow> string \<Rightarrow> bytes option store_op" where
  "pg_load_identity att device_id address = with_semaphore att (query (\<lambda>db. map_of (t_identities db) (address, device_id)))"

definition pg_get_session :: "attempt \<Rightarrow> i32 \<Rightarrow> string \<Rightarrow> bytes option store_op" where
  "pg_get_session att device_id address = with_semaphore att (query (\<lambda>db. map_of (t_sessions db) (address, device_id)))"

definition pg_put_session :: "(nat \<Rightarrow> attempt) \<Rightarrow> i32 \<Rightarrow> string \<Rightarrow> bytes \<Rightarrow> unit store_op" where
  "pg_put_session att device_id address session =
     retrying att ''Failed to acquire semaphore: '' ''Session write failed after 6 attempts'' (\<lambda>db. db\<lparr>t_sessions := upsert (address, device_id) session (t_sessions db)\<rparr>)"

definition pg_delete_session :: "attempt \<Rightarrow> i32 \<Rightarrow> string \<Rightarrow> unit store_op" where
  "pg_delete_session att device_id address =
     blocking att (execute (\<lambda>db. db\<lparr>t_sessions := AList.delete (address, device_id) (t_sessions db)\<rparr>))"

definition pg_get_sessions_batch :: "attempt \<Rightarrow> i32 \<Rightarrow> string list \<Rightarrow> (string \<times> bytes) list store_op" where
  "pg_get_sessions_batch att device_id addresses =
     (if addresses = [] then Pair (Inr [])
      else with_semaphore att (query (\<lambda>db. map (\<lambda>((a, _), r). (a, r))
        (filter (\<lambda>((a, d), _). a \<in> set addresses \<and> d = device_id) (t_sessions db)))))"

definition pg_put_sessions_batch :: "(nat \<Rightarrow> attempt) \<Rightarrow> i32 \<Rightarrow> (string \<times> bytes) list \<Rightarrow> unit store_op" where
  \<comment> \<open>one transaction: the rows are written together or not at all\<close>
  "pg_put_sessions_batch att device_id entries =
     (if entries = [] then Pair (Inr ())
      else retrying att ''Semaphore error: '' ''Batch session write failed after 6 attempts''
        (\<lambda>db. db\<lparr>t_sessions := foldl (\<lambda>t (a, r). upsert (a, device_id) r t) (t_sessions db) entries\<rparr>))"

definition pg_load_identities_batch :: "attempt \<Rightarrow> i32 \<Rightarrow> string list \<Rightarrow> (string \<times> bytes) list store_op" where
  "pg_load_identities_batch att device_id addresses =
     (if addresses = [] then Pair (Inr [])
      else with_semaphore att (query (\<lambda>db. map (\<lambda>((a, _), k). (a, k))
        (filter (\<lambda>((a, d), _). a \<in> set addresses \<and> d = device_id) (t_identities db)))))"

definition pg_put_identities_batch :: "(nat \<Rightarrow> attempt) \<Rightarrow> i32 \<Rightarrow> (string \<times> bytes) list \<Rightarrow> unit store_op" where
  "pg_put_identities_batch att device_id entries =
     (if entries = [] then Pair (Inr ())
      else retrying att ''Semaphore error: '' ''Batch identity write failed after 6 attempts''
        (\<lambda>db. db\<lparr>t_identities := foldl (\<lambda>t (a, k). upsert (a, device_id) k t) (t_identities db) entries\<rparr>))"

definition pg_store_prekey :: "attempt \<Rightarrow> i32 \<Rightarrow> u32 \<Rightarrow> bytes \<Rightarrow> bool \<Rightarrow> unit store_op" where
  "pg_store_prekey att device_id i record uploaded =
     blocking att (execute (\<lambda>db. db\<lparr>t_prekeys := upsert (i, device_id) (record, uploaded) (t_prekeys db)\<rparr>))"

definition pg_load_prekey :: "attempt \<Rightarrow> i32 \<Rightarrow> u32 \<Rightarrow> bytes option store_op" where
  "pg_load_prekey att device_id i = blocking att (query (\<lambda>db. map_option fst (map_of (t_prekeys db) (i, device_id))))"

definition pg_remove_prekey :: "attempt \<Rightarrow> i32 \<Rightarrow> u32 \<Rightarrow> unit store_op" where
  "pg_remove_prekey att device_id i =
     blocking att (execute (\<lambda>db. db\<lparr>t_prekeys := AList.delete (i, device_id) (t_prekeys db)\<rparr>))"

definition pg_store_signed_prekey :: "attempt \<Rightarrow> i32 \<Rightarrow> u32 \<Rightarrow> bytes \<Rightarrow> unit store_op" where
  "pg_store_signed_prekey att device_id i record =
     blocking att (execute (\<lambda>db. db\<lparr>t_signed_prekeys := upsert (i, device_id) record (t_signed_prekeys db)\<rparr>))"

definition pg_load_signed_prekey :: "attempt \<Rightarrow> i32 \<Rightarrow> u32 \<Rightarrow> bytes option store_op" where
  "pg_load_signed_prekey att device_id i = blocking att (query (\<lambda>db. map_of (t_signed_prekeys db) (i, device_id)))"

definition pg_load_all_signed_prekeys :: "attempt \<Rightarrow> i32 \<Rightarrow> (u32 \<times> bytes) list store_op" where
  "pg_load_all_signed_prekeys att device_id =
     blocking att (query (\<lambda>db. map (\<lambda>((i, _), r). (i, r)) (filter (\<lambda>((_, d), _). d = device_id) (t_signed_prekeys db))))"

definition pg_remove_signed_prekey :: "attempt \<Rightarrow> i32 \<Rightarrow> u32 \<Rightarrow> unit store_op" where
  "pg_remove_signed_prekey att device_id i =
     blocking att (execute (\<lambda>db. db\<lparr>t_signed_prekeys := AList.delete (i, device_id) (t_signed_prekeys db)\<rparr>))"

definition pg_put_sender_key :: "attempt \<Rightarrow> i32 \<Rightarrow> string \<Rightarrow> bytes \<Rightarrow> unit store_op" where
  "pg_put_sender_key att device_id address record =
     blocking att (execute (\<lambda>db. db\<lparr>t_sender_keys := upsert (address, device_id) record (t_sender_keys db)\<rparr>))"

definition pg_get_sender_key :: "attempt \<Rightarrow> i32 \<Rightarrow> string \<Rightarrow> bytes option store_op" where
  "pg_get_sender_key att device_id address = blocking att (query (\<lambda>db. map_of (t_sender_keys db) (address, device_id)))"

definition pg_delete_sender_key :: "attempt \<Rightarrow> i32 \<Rightarrow> string \<Rightarrow> unit store_op" where
  "pg_delete_sender_key att device_id address =
     blocking att (execute (\<lambda>db. db\<lparr>t_sender_keys := AList.delete (address, device_id) (t_sender_keys db)\<rparr>))"

section \<open>Application state\<close>

definition pg_get_app_state_sync_key :: "attempt \<Rightarrow> 'a store_codec \<Rightarrow> i32 \<Rightarrow> bytes \<Rightarrow> app_state_sync_key option store_op" where
  "pg_get_app_state_sync_key att X device_id key_id =
     reading (decoded (decode_sync_key X)) (blocking att (query (\<lambda>db. map_of (t_app_state_keys db) (key_id, device_id))))"

definition pg_set_app_state_sync_key :: "attempt \<Rightarrow> 'a store_codec \<Rightarrow> i32 \<Rightarrow> bytes \<Rightarrow> app_state_sync_key \<Rightarrow> unit store_op" where
  "pg_set_app_state_sync_key att X device_id key_id key =
     encoded (encode_sync_key X key) (\<lambda>data.
       blocking att (execute (\<lambda>db. db\<lparr>t_app_state_keys := upsert (key_id, device_id) data (t_app_state_keys db)\<rparr>)))"

definition pg_get_app_state_version :: "attempt \<Rightarrow> 'a store_codec \<Rightarrow> i32 \<Rightarrow> string \<Rightarrow> hash_state store_op" where
  "pg_get_app_state_version att X device_id name =
     reading (\<lambda>res. rmap (\<lambda>s. case s of Some s \<Rightarrow> s | None \<Rightarrow> default_state) (decoded (decode_version X) res))
       (blocking att (query (\<lambda>db. map_of (t_app_state_versions db) (name, device_id))))"

definition pg_set_app_state_version :: "attempt \<Rightarrow> 'a store_codec \<Rightarrow> i32 \<Rightarrow> string \<Rightarrow> hash_state \<Rightarrow> unit store_op" where
  "pg_set_app_state_version att X device_id name state =
     encoded (encode_version X state) (\<lambda>data.
       blocking att (execute (\<lambda>db. db\<lparr>t_app_state_versions := upsert (name, device_id) data (t_app_state_versions db)\<rparr>)))"

definition pg_put_app_state_mutation_macs :: "(nat \<Rightarrow> attempt) \<Rightarrow> i32 \<Rightarrow> string \<Rightarrow> u64 \<Rightarrow> mutation_mac list \<Rightarrow> unit store_op" where
  "pg_put_app_state_mutation_macs att device_id name ver mutations =
     execute_each att 0 (map (\<lambda>m db. db\<lparr>t_app_state_mutation_macs :=
       upsert (name, mm_index_mac m, device_id) (ver, mm_value_mac m) (t_app_state_mutation_macs db)\<rparr>) mutations)"

definition pg_delete_app_state_mutation_macs :: "(nat \<Rightarrow> attempt) \<Rightarrow> i32 \<Rightarrow> string \<Rightarrow> bytes list \<Rightarrow> unit store_op" where
  "pg_delete_app_state_mutation_macs att device_id name index_macs =
     execute_each att 0 (map (\<lambda>idx db. db\<lparr>t_app_state_mutation_macs :=
       AList.delete (name, idx, device_id) (t_app_state_mutation_macs db)\<rparr>) index_macs)"

definition pg_get_app_state_mutation_mac :: "attempt \<Rightarrow> i32 \<Rightarrow> string \<Rightarrow> bytes \<Rightarrow> bytes option store_op" where
  "pg_get_app_state_mutation_mac att device_id name index_mac =
     blocking att (query (\<lambda>db. map_option snd (map_of (t_app_state_mutation_macs db) (name, index_mac, device_id))))"

section \<open>Protocol data\<close>

definition pg_get_skdm_recipients :: "attempt \<Rightarrow> i32 \<Rightarrow> string \<Rightarrow> string list store_op" where
  "pg_get_skdm_recipients att device_id group_jid =
     blocking att (query (\<lambda>db. map (\<lambda>((_, j, _), _). j)
       (filter (\<lambda>((g, _, d), _). g = group_jid \<and> d = device_id) (t_skdm_recipients db))))"

definition pg_add_skdm_recipients :: "(nat \<Rightarrow> attempt) \<Rightarrow> i32 \<Rightarrow> i32 \<Rightarrow> string \<Rightarrow> string list \<Rightarrow> unit store_op" where
  "pg_add_skdm_recipients att now device_id group_jid device_jids =
     execute_each att 0 (map (\<lambda>j db. db\<lparr>t_skdm_recipients :=
       insert_or_ignore (group_jid, j, device_id) now (t_skdm_recipients db)\<rparr>) device_jids)"

definition pg_clear_skdm_recipients :: "attempt \<Rightarrow> i32 \<Rightarrow> string \<Rightarrow> unit store_op" where
  "pg_clear_skdm_recipients att device_id group_jid =
     blocking att (execute (\<lambda>db. db\<lparr>t_skdm_recipients :=
       filter (\<lambda>((g, _, d), _). \<not> (g = group_jid \<and> d = device_id)) (t_skdm_recipients db)\<rparr>))"

definition pg_get_lid_mapping :: "attempt \<Rightarrow> i32 \<Rightarrow> string \<Rightarrow> lid_pn_mapping_entry option store_op" where
  "pg_get_lid_mapping att device_id l =
     blocking att (query (\<lambda>db. map_option (lid_entry l) (map_of (t_lid_pn_mapping db) (l, device_id))))"

definition pg_get_pn_mapping :: "attempt \<Rightarrow> i32 \<Rightarrow> string \<Rightarrow> lid_pn_mapping_entry option store_op" where
  "pg_get_pn_mapping att device_id phone =
     blocking att (query (\<lambda>db.
       case sort_key (\<lambda>e. - sint (lm_updated_at e)) (filter (\<lambda>e. lm_phone_number e = phone) (device_mappings device_id db)) of
         [] \<Rightarrow> None | e # _ \<Rightarrow> Some e))"

definition pg_put_lid_mapping :: "attempt \<Rightarrow> i32 \<Rightarrow> lid_pn_mapping_entry \<Rightarrow> unit store_op" where
  \<comment> \<open>on a conflict the row keeps its time of creation\<close>
  "pg_put_lid_mapping att device_id e =
     blocking att (execute (\<lambda>db.
       let k = (lm_lid e, device_id);
           created = (case map_of (t_lid_pn_mapping db) k of Some row \<Rightarrow> lr_created_at row | None \<Rightarrow> lm_created_at e)
       in db\<lparr>t_lid_pn_mapping := upsert k
            \<lparr>lr_phone_number = lm_phone_number e, lr_created_at = created, lr_learning_source = lm_learning_source e,
             lr_updated_at = lm_updated_at e\<rparr> (t_lid_pn_mapping db)\<rparr>))"

definition pg_get_all_lid_mappings :: "attempt \<Rightarrow> i32 \<Rightarrow> lid_pn_mapping_entry list store_op" where
  "pg_get_all_lid_mappings att device_id = blocking att (query (device_mappings device_id))"

definition pg_save_base_key :: "attempt \<Rightarrow> i32 \<Rightarrow> i32 \<Rightarrow> string \<Rightarrow> string \<Rightarrow> bytes \<Rightarrow> unit store_op" where
  "pg_save_base_key att now device_id address message_id base_key =
     blocking att (execute (\<lambda>db.
       let k = (address, message_id, device_id);
           created = (case map_of (t_base_keys db) k of Some (_, created) \<Rightarrow> created | None \<Rightarrow> now)
       in db\<lparr>t_base_keys := upsert k (base_key, created) (t_base_keys db)\<rparr>))"

definition pg_has_same_base_key :: "attempt \<Rightarrow> i32 \<Rightarrow> string \<Rightarrow> string \<Rightarrow> bytes \<Rightarrow> bool store_op" where
  "pg_has_same_base_key att device_id address message_id current_base_key =
     blocking att (query (\<lambda>db. map_option fst (map_of (t_base_keys db) (address, message_id, device_id)) = Some current_base_key))"

definition pg_delete_base_key :: "attempt \<Rightarrow> i32 \<Rightarrow> string \<Rightarrow> string \<Rightarrow> unit store_op" where
  "pg_delete_base_key att device_id address message_id =
     blocking att (execute (\<lambda>db. db\<lparr>t_base_keys := AList.delete (address, message_id, device_id) (t_base_keys db)\<rparr>))"

definition pg_update_device_list :: "attempt \<Rightarrow> 'a store_codec \<Rightarrow> i32 \<Rightarrow> i32 \<Rightarrow> device_list_record \<Rightarrow> unit store_op" where
  "pg_update_device_list att X now device_id record =
     encoded (encode_devices X (dl_devices record)) (\<lambda>devices_json.
       blocking att (execute (\<lambda>db. db\<lparr>t_device_registry := upsert (dl_user record, device_id)
         \<lparr>rr_devices_json = devices_json, rr_timestamp = ucast (dl_timestamp record), rr_phash = dl_phash record,
          rr_updated_at = now\<rparr> (t_device_registry db)\<rparr>)))"

definition pg_get_devices :: "attempt \<Rightarrow> 'a store_codec \<Rightarrow> i32 \<Rightarrow> string \<Rightarrow> device_list_record option store_op" where
  "pg_get_devices att X device_id user_id =
     reading (\<lambda>row. case row of None \<Rightarrow> Inr None
         | Some row \<Rightarrow>
             (case decode_devices X (rr_devices_json row) of None \<Rightarrow> Throw (Serialization [])
              | Some devices \<Rightarrow> Inr (Some \<lparr>dl_user = user_id, dl_devices = devices, dl_timestamp = scast (rr_timestamp row),
                                         dl_phash = rr_phash row\<rparr>)))
       (blocking att (query (\<lambda>db. map_of (t_device_registry db) (user_id, device_id))))"

definition pg_mark_forget_sender_key :: "attempt \<Rightarrow> i32 \<Rightarrow> i32 \<Rightarrow> string \<Rightarrow> string \<Rightarrow> unit store_op" where
  "pg_mark_forget_sender_key att now device_id group_jid participant =
     blocking att (execute (\<lambda>db. db\<lparr>t_sender_key_status :=
       upsert (group_jid, participant, device_id) now (t_sender_key_status db)\<rparr>))"

definition pg_consume_forget_marks :: "(nat \<Rightarrow> attempt) \<Rightarrow> i32 \<Rightarrow> string \<Rightarrow> string list store_op" where
  \<comment> \<open>two statements without a transaction: another connection may write between them\<close>
  "pg_consume_forget_marks att device_id group_jid =
     and_then (select_marks (att 0) device_id group_jid) (\<lambda>participants.
     and_then (delete_marks (att 1) device_id group_jid) (\<lambda>_. Pair (Inr participants)))"

section \<open>The backend\<close>

fun pg_signal_call :: "env \<Rightarrow> i32 \<Rightarrow> signal_call \<Rightarrow> 'a reply store_op" where
  "pg_signal_call E d (Put_identity a k) = replying (\<lambda>_. Finished) (pg_put_identity (attempts E 0) d a k)"
| "pg_signal_call E d (Load_identity a) = replying Record_reply (pg_load_identity (attempts E 0 0) d a)"
| "pg_signal_call E d (Delete_identity a) = replying (\<lambda>_. Finished) (pg_delete_identity (attempts E 0 0) d a)"
| "pg_signal_call E d (Get_session a) = replying Record_reply (pg_get_session (attempts E 0 0) d a)"
| "pg_signal_call E d (Put_session a r) = replying (\<lambda>_. Finished) (pg_put_session (attempts E 0) d a r)"
| "pg_signal_call E d (Delete_session a) = replying (\<lambda>_. Finished) (pg_delete_session (attempts E 0 0) d a)"
| "pg_signal_call E d (Has_session a) = replying Flag (has_session (pg_get_session (attempts E 0 0) d a))"
| "pg_signal_call E d (Get_sessions_batch as) = replying Rows (pg_get_sessions_batch (attempts E 0 0) d as)"
| "pg_signal_call E d (Put_sessions_batch es) = replying (\<lambda>_. Finished) (pg_put_sessions_batch (attempts E 0) d es)"
| "pg_signal_call E d (Load_identities_batch as) = replying Rows (pg_load_identities_batch (attempts E 0 0) d as)"
| "pg_signal_call E d (Put_identities_batch es) = replying (\<lambda>_. Finished) (pg_put_identities_batch (attempts E 0) d es)"
| "pg_signal_call E d (Store_prekey i r u) = replying (\<lambda>_. Finished) (pg_store_prekey (attempts E 0 0) d i r u)"
| "pg_signal_call E d (Load_prekey i) = replying Record_reply (pg_load_prekey (attempts E 0 0) d i)"
| "pg_signal_call E d (Remove_prekey i) = replying (\<lambda>_. Finished) (pg_remove_prekey (attempts E 0 0) d i)"
| "pg_signal_call E d (Store_signed_prekey i r) = replying (\<lambda>_. Finished) (pg_store_signed_prekey (attempts E 0 0) d i r)"
| "pg_signal_call E d (Load_signed_prekey i) = replying Record_reply (pg_load_signed_prekey (attempts E 0 0) d i)"
| "pg_signal_call E d Load_all_signed_prekeys = replying Keys (pg_load_all_signed_prekeys (attempts E 0 0) d)"
| "pg_signal_call E d (Remove_signed_prekey i) = replying (\<lambda>_. Finished) (pg_remove_signed_prekey (attempts E 0 0) d i)"
| "pg_signal_call E d (Put_sender_key a r) = replying (\<lambda>_. Finished) (pg_put_sender_key (attempts E 0 0) d a r)"
| "pg_signal_call E d (Get_sender_key a) = replying Record_reply (pg_get_sender_key (attempts E 0 0) d a)"
| "pg_signal_call E d (Delete_sender_key a) = replying (\<lambda>_. Finished) (pg_delete_sender_key (attempts E 0 0) d a)"

fun pg_app_call :: "env \<Rightarrow> 'a store_codec \<Rightarrow> i32 \<Rightarrow> app_call \<Rightarrow> 'a reply store_op" where
  "pg_app_call E X d (Get_sync_key k) = replying Sync_key (pg_get_app_state_sync_key (attempts E 0 0) X d k)"
| "pg_app_call E X d (Set_sync_key k v) = replying (\<lambda>_. Finished) (pg_set_app_state_sync_key (attempts E 0 0) X d k v)"
| "pg_app_call E X d (Get_version n) = replying State_reply (pg_get_app_state_version (attempts E 0 0) X d n)"
| "pg_app_call E X d (Set_version n s) = replying (\<lambda>_. Finished) (pg_set_app_state_version (attempts E 0 0) X d n s)"
| "pg_app_call E X d (Put_mutation_macs n v ms) = replying (\<lambda>_. Finished) (pg_put_app_state_mutation_macs (attempts E 0) d n v ms)"
| "pg_app_call E X d (Get_mutation_mac n i) = replying Record_reply (pg_get_app_state_mutation_mac (attempts E 0 0) d n i)"
| "pg_app_call E X d (Delete_mutation_macs n is') = replying (\<lambda>_. Finished) (pg_delete_app_state_mutation_macs (attempts E 0) d n is')"

fun pg_protocol_call :: "env \<Rightarrow> 'a store_codec \<Rightarrow> i32 \<Rightarrow> protocol_call \<Rightarrow> 'a reply store_op" where
  "pg_protocol_call E X d (Get_skdm_recipients g) = replying Names (pg_get_skdm_recipients (attempts E 0 0) d g)"
| "pg_protocol_call E X d (Add_skdm_recipients g js) = replying (\<lambda>_. Finished) (pg_add_skdm_recipients (attempts E 0) (now_secs E) d g js)"
| "pg_protocol_call E X d (Clear_skdm_recipients g) = replying (\<lambda>_. Finished) (pg_clear_skdm_recipients (attempts E 0 0) d g)"
| "pg_protocol_call E X d (Get_lid_mapping l) = replying Mapping_reply (pg_get_lid_mapping (attempts E 0 0) d l)"
| "pg_protocol_call E X d (Get_pn_mapping p) = replying Mapping_reply (pg_get_pn_mapping (attempts E 0 0) d p)"
| "pg_protocol_call E X d (Put_lid_mapping e) = replying (\<lambda>_. Finished) (pg_put_lid_mapping (attempts E 0 0) d e)"
| "pg_protocol_call E X d Get_all_lid_mappings = replying Mappings (pg_get_all_lid_mappings (attempts E 0 0) d)"
| "pg_protocol_call E X d (Save_base_key a m k) = replying (\<lambda>_. Finished) (pg_save_base_key (attempts E 0 0) (now_secs E) d a m k)"
| "pg_protocol_call E X d (Has_same_base_key a m k) = replying Flag (pg_has_same_base_key (attempts E 0 0) d a m k)"
| "pg_protocol_call E X d (Delete_base_key a m) = replying (\<lambda>_. Finished) (pg_delete_base_key (attempts E 0 0) d a m)"
| "pg_protocol_call E X d (Update_device_list r) = replying (\<lambda>_. Finished) (pg_update_device_list (attempts E 0 0) X (now_secs E) d r)"
| "pg_protocol_call E X d (Get_devices u) = replying Devices (pg_get_devices (attempts E 0 0) X d u)"
| "pg_protocol_call E X d (Mark_forget_sender_key g p) = replying (\<lambda>_. Finished) (pg_mark_forget_sender_key (attempts E 0 0) (now_secs E) d g p)"
| "pg_protocol_call E X d (Consume_forget_marks g) = replying Names (pg_consume_forget_marks (attempts E 0) d g)"

fun pg_call :: "('p, 's) curve \<Rightarrow> 'a store_codec \<Rightarrow> i32 \<Rightarrow> env \<times> 'a backend_call \<Rightarrow> 'a reply store_op" where
  "pg_call K X d (E, Signal_call c) = pg_signal_call E d c"
| "pg_call K X d (E, App_call c) = pg_app_call E X d c"
| "pg_call K X d (E, Protocol_call c) = pg_protocol_call E X d c"
| "pg_call K X d (E, Save_device v) = replying (\<lambda>_. Finished) (pg_save_device_data_for_device (attempts E 0 0) X d v)"
| "pg_call K X d (E, Load_device) = replying Device_reply (pg_load_device_data_for_device (attempts E 0 0) K X d)"
| "pg_call K X d (E, Device_exists) = replying Flag (pg_device_exists (attempts E 0 0) d)"

section \<open>The two backends agree\<close>

lemma with_semaphore_open: "(\<And>e. att \<noteq> Closed e) \<Longrightarrow> with_semaphore att f = blocking att f"
  by (rule ext) (auto simp: with_semaphore_def split: attempt.split)

lemma pg_device_eq:
  "pg_row_of_device = row_of_device" "pg_device_of_row = device_of_row"
  by (simp_all add: fun_eq_iff pg_row_of_device_def row_of_device_def pg_device_of_row_def device_of_row_def
      pg_serialize_keypair_def serialize_keypair_def pg_deserialize_keypair_def deserialize_keypair_def)

lemmas pg_signal_defs =
  pg_put_identity_def pg_load_identity_def pg_delete_identity_def pg_get_session_def pg_put_session_def pg_delete_session_def
  pg_get_sessions_batch_def pg_put_sessions_batch_def pg_load_identities_batch_def pg_put_identities_batch_def
  pg_store_prekey_def pg_load_prekey_def pg_remove_prekey_def
  pg_store_signed_prekey_def pg_load_signed_prekey_def pg_load_all_signed_prekeys_def pg_remove_signed_prekey_def
  pg_put_sender_key_def pg_get_sender_key_def pg_delete_sender_key_def

lemmas pg_app_defs =
  pg_get_app_state_sync_key_def pg_set_app_state_sync_key_def pg_get_app_state_version_def pg_set_app_state_version_def
  pg_put_app_state_mutation_macs_def pg_delete_app_state_mutation_macs_def pg_get_app_state_mutation_mac_def

lemmas pg_protocol_defs =
  pg_get_skdm_recipients_def pg_add_skdm_recipients_def pg_clear_skdm_recipients_def pg_get_lid_mapping_def pg_get_pn_mapping_def
  pg_put_lid_mapping_def pg_get_all_lid_mappings_def pg_save_base_key_def pg_has_same_base_key_def pg_delete_base_key_def
  pg_update_device_list_def pg_get_devices_def pg_mark_forget_sender_key_def pg_consume_forget_marks_def

fun identity_batch :: "'a backend_call \<Rightarrow> bool" where
  "identity_batch (Signal_call (Load_identities_batch _)) \<longleftrightarrow> True"
| "identity_batch (Signal_call (Put_identities_batch _)) \<longleftrightarrow> True"
| "identity_batch _ \<longleftrightarrow> False"

lemma pg_app_call_eq: "pg_app_call E X d c = sq_app_call E X d c"
  by (cases c) (simp_all add: pg_app_defs sq_app_defs)

lemma pg_protocol_call_eq: "pg_protocol_call E X d c = sq_protocol_call E X d c"
  by (cases c) (simp_all add: pg_protocol_defs sq_protocol_defs)

lemma pg_signal_call_eq:
  assumes "\<And>i j e. attempts E i j \<noteq> Closed e" "\<not> identity_batch (Signal_call c)"
  shows "pg_signal_call E d c = sq_signal_call E d c"
  using assms by (cases c) (simp_all add: pg_signal_defs sq_signal_defs with_semaphore_open)

lemma pg_call_eq:
  assumes "\<And>i j e. attempts E i j \<noteq> Closed e" "\<not> identity_batch c"
  shows "pg_call K X d (E, c) = sq_call K X d (E, c)"
  using assms
  by (cases c) (simp_all add: pg_app_call_eq pg_protocol_call_eq pg_signal_call_eq pg_save_device_data_for_device_def
      sq_save_device_data_for_device_def pg_load_device_data_for_device_def sq_load_device_data_for_device_def
      pg_device_exists_def sq_device_exists_def pg_device_eq)

lemma confined_with_semaphore [confined_intros]: "confined d m \<Longrightarrow> confined d (with_semaphore att m)"
  using confined_blocking [of d m att]
  by (cases att) (simp_all add: confined_def local_write_def local_read_def with_semaphore_def)

lemma pg_signal_confined: "confined d (pg_signal_call E d c)"
  by (cases c) (auto intro!: confined_intros simp: pg_signal_defs local_write_def local_read_def device_rows_def owned_fold_update)

lemma pg_call_confined: "confined d (pg_call K X d c)"
proof -
  obtain E b where c: "c = (E, b)" by (cases c)
  show ?thesis
    unfolding c
    by (cases b) (auto intro!: confined_intros pg_signal_confined sq_app_confined sq_protocol_confined
      simp: pg_app_call_eq pg_protocol_call_eq pg_save_device_data_for_device_def pg_load_device_data_for_device_def
        pg_device_exists_def local_write_def local_read_def device_rows_def)
qed

interpretation pg_devices: device_store "pg_call K X" for K X
  by unfold_locales (rule pg_call_confined)

lemma retry_Done: "retrying (\<lambda>_. Done) sem what f db = (Inr (), f db)"
  by (simp add: retrying_def retry_loop.simps)

lemma put_each_Done:
  "put_each (\<lambda>i. sq_put_identity (\<lambda>_. Done) d) i es db
     = (Inr (), db\<lparr>t_identities := foldl (\<lambda>t (a, k). upsert (a, d) k t) (t_identities db) es\<rparr>)"
proof (induction es arbitrary: i db)
  case (Cons e es)
  then show ?case by (cases e) (simp add: and_then_def sq_put_identity_def retry_Done)
qed simp

lemma load_each_Done:
  "\<exists>rows. load_each (\<lambda>i. sq_load_identity Done d) i as db = (Inr rows, db)
     \<and> set rows = {(a, k). a \<in> set as \<and> map_of (t_identities db) (a, d) = Some k}"
proof (induction as arbitrary: i)
  have one: "sq_load_identity Done d a db = (Inr (map_of (t_identities db) (a, d)), db)" for a
    by (simp add: sq_load_identity_def blocking_def query_def)
  case (Cons a as)
  then obtain rows where "load_each (\<lambda>i. sq_load_identity Done d) (Suc i) as db = (Inr rows, db)"
      "set rows = {(a, k). a \<in> set as \<and> map_of (t_identities db) (a, d) = Some k}" by blast
  then show ?case
    by (cases "map_of (t_identities db) (a, d)") (auto simp: and_then_def one reading_def)
qed simp

lemma batch_rows:
  assumes "distinct (map fst t)"
  shows "set (map (\<lambda>((a, _), k). (a, k)) (filter (\<lambda>((a, e), _). a \<in> set as \<and> e = d) t))
    = {(a, k). a \<in> set as \<and> map_of t (a, d) = Some k}"
  using map_of_eq_Some_iff [OF assms] by (force simp: image_iff)

section \<open>Properties of the PostgreSQL backend\<close>



end
