(* ===== verification/Spec2Isabelle.thy ===== *)
theory Spec2Isabelle
  imports Socket Sync Sender_Keys Conversation Postgres
begin

text \<open>
  A verification development for chatwarp-api, a WhatsApp Web client with an HTTP interface.
\<close>

end
